(* ===== verification/Ruuter_Prelude.thy ===== *)
theory Ruuter_Prelude
  imports Main "HOL-Library.Word" "HOL-Library.AList"
begin

text \<open>
  Shared vocabulary of the Ruuter development.

  \<^item> Machine integers of the source (\<open>u16\<close>, \<open>u32\<close>, \<open>u64\<close>) are words of that width.
  \<^item> A \<open>HashMap\<close>, \<open>DashMap\<close>, \<open>IndexMap\<close> or \<open>BTreeMap\<close> with string keys is an association
    list with distinct keys: the list order is the iteration order, which the source leaves open
    for hash maps, so a theorem that holds for every such list holds for every iteration order.
  \<^item> \<open>serde_json::Value\<close> is the datatype \<open>json\<close>; a JSON object is a \<open>BTreeMap\<close>, an association
    list. A finite \<open>f64\<close> is \<open>Float m e\<close>, standing for \<open>m * 2^e\<close> (JSON has no NaN or infinity).
  \<^item> A Rust \<open>str\<close> is a \<open>string\<close>: one \<open>char\<close> per UTF-8 byte, so \<open>length\<close> is \<open>str::len\<close>.
    Case mapping is modelled on the ASCII letters.
  \<^item> \<open>Result<T>\<close> is \<open>ruuter_error + 'a\<close>, with \<open>Inl\<close> the error; the text of each
    \<open>format!\<close> site is a constructor of \<open>reason\<close> that carries the interpolated values.
\<close>

named_theorems store_simps \<open>rewrite rules of the state store\<close>
named_theorems route_simps \<open>rewrite rules of route and guard resolution\<close>
named_theorems decl_simps \<open>rewrite rules of declaration enforcement\<close>

type_synonym u16 = "16 word"
type_synonym u32 = "32 word"
type_synonym u64 = "64 word"
type_synonym 'v hmap = "(string \<times> 'v) list"

section \<open>JSON values\<close>

datatype number = PosInt u64 | NegInt int | Float int int

datatype json =
    JNull
  | JBool bool
  | JNumber number
  | JString string
  | JArray "json list"
  | JObject "(string \<times> json) list"

text \<open>\<open>Number::as_u64\<close>: only a non-negative integer.\<close>

fun as_u64 :: "number \<Rightarrow> u64 option" where
  "as_u64 (PosInt w) = Some w"
| "as_u64 (NegInt _) = None"
| "as_u64 (Float _ _) = None"

text \<open>\<open>as_f64\<close> compared with zero: rounding a non-zero integer never gives zero.\<close>

fun number_nonzero :: "number \<Rightarrow> bool" where
  "number_nonzero (PosInt w) \<longleftrightarrow> w \<noteq> 0"
| "number_nonzero (NegInt i) \<longleftrightarrow> i \<noteq> 0"
| "number_nonzero (Float m e) \<longleftrightarrow> m \<noteq> 0"

text \<open>\<open>is_i64 || is_u64 || fract() == 0.0\<close>.\<close>

fun number_integral :: "number \<Rightarrow> bool" where
  "number_integral (PosInt w) \<longleftrightarrow> True"
| "number_integral (NegInt i) \<longleftrightarrow> True"
| "number_integral (Float m e) \<longleftrightarrow> 0 \<le> e \<or> m mod 2 ^ nat (- e) = 0"

definition as_str :: "json \<Rightarrow> string option" where
  "as_str v = (case v of JString s \<Rightarrow> Some s | _ \<Rightarrow> None)"

section \<open>Strings\<close>

definition ascii_lower_char :: "char \<Rightarrow> char" where
  "ascii_lower_char c =
     (let n = (of_char c :: nat) in if 65 \<le> n \<and> n \<le> 90 then char_of (n + 32) else c)"

definition ascii_upper_char :: "char \<Rightarrow> char" where
  "ascii_upper_char c =
     (let n = (of_char c :: nat) in if 97 \<le> n \<and> n \<le> 122 then char_of (n - 32) else c)"

definition to_ascii_lowercase :: "string \<Rightarrow> string" where
  "to_ascii_lowercase = map ascii_lower_char"

definition to_uppercase :: "string \<Rightarrow> string" where
  "to_uppercase = map ascii_upper_char"

definition eq_ignore_ascii_case :: "string \<Rightarrow> string \<Rightarrow> bool" where
  "eq_ignore_ascii_case a b \<longleftrightarrow> to_ascii_lowercase a = to_ascii_lowercase b"

definition starts_with :: "string \<Rightarrow> string \<Rightarrow> bool" where
  "starts_with s p \<longleftrightarrow> take (length p) s = p"

fun split_on :: "char \<Rightarrow> string \<Rightarrow> string list" where
  "split_on c [] = [[]]"
| "split_on c (x # xs) =
     (if x = c then [] # split_on c xs
      else (case split_on c xs of [] \<Rightarrow> [[x]] | w # ws \<Rightarrow> (x # w) # ws))"

fun join_with :: "string \<Rightarrow> string list \<Rightarrow> string" where
  "join_with sep [] = []"
| "join_with sep [w] = w"
| "join_with sep (w # ws) = w @ sep @ join_with sep ws"

fun contains_str :: "string \<Rightarrow> string \<Rightarrow> bool" where
  "contains_str [] p \<longleftrightarrow> p = []"
| "contains_str (x # xs) p \<longleftrightarrow> starts_with (x # xs) p \<or> contains_str xs p"

text \<open>\<open>str::trim_matches\<close> with one character.\<close>

definition trim_char :: "char \<Rightarrow> string \<Rightarrow> string" where
  "trim_char c s = rev (dropWhile (\<lambda>x. x = c) (rev (dropWhile (\<lambda>x. x = c) s)))"

definition is_space :: "char \<Rightarrow> bool" where
  "is_space c \<longleftrightarrow> (of_char c :: nat) \<in> {9, 10, 11, 12, 13, 32}"

definition trim :: "string \<Rightarrow> string" where
  "trim s = rev (dropWhile is_space (rev (dropWhile is_space s)))"

text \<open>\<open>path.split('/').filter(|s| !s.is_empty())\<close>.\<close>

definition path_segments :: "string \<Rightarrow> string list" where
  "path_segments p = filter (\<lambda>s. s \<noteq> []) (split_on CHR ''/'' p)"

section \<open>Maps\<close>

definition hm_contains :: "('k \<times> 'v) list \<Rightarrow> 'k \<Rightarrow> bool" where
  "hm_contains m k \<longleftrightarrow> map_of m k \<noteq> None"

abbreviation hm_insert :: "'k \<Rightarrow> 'v \<Rightarrow> ('k \<times> 'v) list \<Rightarrow> ('k \<times> 'v) list" where
  "hm_insert \<equiv> AList.update"

abbreviation hm_remove :: "'k \<Rightarrow> ('k \<times> 'v) list \<Rightarrow> ('k \<times> 'v) list" where
  "hm_remove \<equiv> AList.delete"

definition opt_or :: "'a option \<Rightarrow> 'a \<Rightarrow> 'a" where
  "opt_or x d = (case x of None \<Rightarrow> d | Some y \<Rightarrow> y)"

section \<open>Errors\<close>

text \<open>
  \<open>RuuterError\<close> (\<open>src/error/mod.rs\<close>). Each \<open>reason\<close> is one message of the source.
\<close>

datatype step_reason =
    StepNotFound string
  | UnknownNext string string
  | IterateNotArray json
  | IterateTooMany nat nat
  | UnknownHttpMethod string
  | MapArgNotObject string string string
  | MapArgBadShape string string string
  | ReturnHeadersNotObject string
  | ReturnHeadersBadShape json
  | NoDslTree
  | TemplateNotFound string string
  | ExceptionDslNotFound string string string
  | StatusNotAllowed u16
  | PeersNotArray string
  | LeaderFailed string
  | LeaderDropped string
  | FollowerTimedOut u64 string
  | DetachEmpty
  | DetachNoRegistry
  | DetachFull u32

datatype ws_reason =
    WsTagNoConnection
  | WsTagUnknownConnection string
  | WsSendUnknownConnection string
  | WsSendQueueFull string
  | WsSendWriterDropped string
  | WsSendNoTarget
  | WsSendBadTarget json
  | BroadcastTagEmpty
  | BroadcastOperandEmpty string
  | BroadcastOperandBoth
  | BroadcastOperandNone

datatype net_reason =
    OutboundDisabled
  | UrlNotAllowed string
  | UrlInvalid string
  | UrlNoHost string
  | HostNotAllowed string
  | PrivateTarget string
  | DnsFailed string
  | DnsEmpty string
  | BodyTooLarge nat

datatype reason =
    StateSetRejected string nat nat
  | StateUpdateRejected string nat nat
  | GuardStackPoisoned
  | GuardDepthExceeded nat "string list"
  | GuardCycle string "string list"
  | FieldMissing string
  | UnexpectedField string string
  | MissingOneOf string "string list"
  | FieldTypeMismatch string string string string
  | DslNotFound string string
  | ScriptFailed string
  | RetryCapExceeded string
  | InStep step_reason
  | InWs ws_reason
  | InNet net_reason
  | Text string

datatype ruuter_error =
    DslParse reason
  | DslExecution string reason
  | ScriptEvaluation reason
  | Http reason
  | HttpRequest reason
  | Io reason
  | Yaml reason
  | Json reason
  | Config reason
  | InvalidStep reason
  | GuardFailed reason
  | FileNotFound reason
  | Timeout reason
  | BadRequest reason
  | StepContext string string string ruuter_error

type_synonym 'a result = "ruuter_error + 'a"

text \<open>Sequencing of fallible code (\<open>?\<close>) and guarded errors.\<close>

definition bindr :: "'e + 'a \<Rightarrow> ('a \<Rightarrow> 'e + 'b) \<Rightarrow> 'e + 'b" where
  "bindr m f = (case m of Inl e \<Rightarrow> Inl e | Inr x \<Rightarrow> f x)"

definition ensure :: "bool \<Rightarrow> 'e \<Rightarrow> 'e + unit" where
  "ensure b e = (if b then Inr () else Inl e)"

section \<open>Shared lemmas\<close>

lemma bindr_simps [simp]: "bindr (Inl e) f = Inl e" "bindr (Inr x) f = f x"
  by (simp_all add: bindr_def)

lemma bindr_Inr_iff: "bindr m f = Inr y \<longleftrightarrow> (\<exists>x. m = Inr x \<and> f x = Inr y)"
  by (cases m) simp_all

lemma bindr_Inl_iff: "bindr m f = Inl e \<longleftrightarrow> m = Inl e \<or> (\<exists>x. m = Inr x \<and> f x = Inl e)"
  by (cases m) simp_all

lemma ensure_iff [simp]:
  "ensure b e = Inr u \<longleftrightarrow> b" "ensure b e = Inl e' \<longleftrightarrow> \<not> b \<and> e' = e"
  by (auto simp: ensure_def)

lemma opt_or_simps [simp]: "opt_or None d = d" "opt_or (Some x) d = x"
  by (simp_all add: opt_or_def)

lemma hm_contains_Nil [simp]: "\<not> hm_contains [] k"
  by (simp add: hm_contains_def)

lemma hm_contains_Cons [simp]:
  "hm_contains ((k', v) # m) k \<longleftrightarrow> k = k' \<or> hm_contains m k"
  by (simp add: hm_contains_def)

lemma hm_contains_iff: "hm_contains m k \<longleftrightarrow> k \<in> fst ` set m"
  by (simp add: hm_contains_def map_of_eq_None_iff)

lemma hm_contains_insert [simp]:
  "hm_contains (hm_insert k' v m) k \<longleftrightarrow> k = k' \<or> hm_contains m k"
  by (simp add: hm_contains_def update_conv')

lemma hm_contains_remove [simp]:
  "hm_contains (hm_remove k' m) k \<longleftrightarrow> k \<noteq> k' \<and> hm_contains m k"
  by (simp add: hm_contains_def delete_conv')

lemma update_new: "k \<notin> fst ` set m \<Longrightarrow> hm_insert k v m = m @ [(k, v)]"
  by (induction m) auto

lemma map_of_filter_keys:
  "map_of (filter (\<lambda>(k, _). P k) m) k = (if P k then map_of m k else None)"
  by (induction m) auto

lemma starts_with_iff: "starts_with s p \<longleftrightarrow> (\<exists>t. s = p @ t)"
  by (metis append_eq_conv_conj append_take_drop_id starts_with_def)

lemma starts_with_same_length:
  "starts_with s p \<Longrightarrow> starts_with s q \<Longrightarrow> length p = length q \<Longrightarrow> p = q"
  by (simp add: starts_with_def)

lemma join_with_snoc:
  "ws \<noteq> [] \<Longrightarrow> join_with sep (ws @ [w]) = join_with sep ws @ sep @ w"
  by (induction sep ws rule: join_with.induct) auto

end
