(* ===== verification/State_Store.thy ===== *)
theory State_Store
  imports Ruuter_Prelude
begin

text \<open>
  The process-wide, project-scoped key/value store (\<open>src/state/mod.rs\<close>).

  Each operation is one atomic step, as the \<open>DashMap::entry\<close> shard lock makes it for a single
  key. The model returns the new store beside the result. Counters are \<open>nat\<close>; the one place
  where the width of \<open>usize\<close> shows, the saturating multiplication of the warning threshold,
  is written out. The lemmas show that the per-project counters always equal the number of
  entries, that no project ever passes its cap, that projects cannot see or change each other,
  and what each operation returns on every branch.
\<close>

section \<open>The store\<close>

record state_key =
  sk_project :: string
  sk_key :: string

record project_stats =
  ps_project :: string
  ps_entries :: nat
  ps_cap :: "nat option"

record state_store =
  inner :: "(state_key \<times> json) list"
  max_entries_per_project :: "nat option"
  project_counts :: "(string \<times> nat) list"
  warned_projects :: "string list"

definition state_key_new :: "string \<Rightarrow> string \<Rightarrow> state_key" where
  "state_key_new p k = \<lparr>sk_project = p, sk_key = k\<rparr>"

definition store_new :: state_store where
  "store_new = \<lparr>inner = [], max_entries_per_project = None, project_counts = [],
     warned_projects = []\<rparr>"

definition store_with_config :: "nat option \<Rightarrow> state_store" where
  "store_with_config cap = \<lparr>inner = [], max_entries_per_project = cap, project_counts = [],
     warned_projects = []\<rparr>"

definition store_with_max :: "nat \<Rightarrow> state_store" where
  "store_with_max cap = \<lparr>inner = [], max_entries_per_project = Some cap, project_counts = [],
     warned_projects = []\<rparr>"

definition store_get :: "state_store \<Rightarrow> string \<Rightarrow> string \<Rightarrow> json option" where
  "store_get s p k = map_of (inner s) (state_key_new p k)"

definition usize_max :: nat where
  "usize_max = 2 ^ 64 - 1"

definition warn_threshold :: "nat \<Rightarrow> nat" where
  "warn_threshold cap = min (cap * 80) usize_max div 100"

definition current_count :: "state_store \<Rightarrow> string \<Rightarrow> nat" where
  "current_count s p = opt_or (map_of (project_counts s) p) 0"

text \<open>\<open>entry(p).and_modify(|c| *c += 1).or_insert(1)\<close>.\<close>

definition bump_count :: "state_store \<Rightarrow> string \<Rightarrow> state_store" where
  "bump_count s p = s\<lparr>project_counts := hm_insert p
     (case map_of (project_counts s) p of None \<Rightarrow> 1 | Some c \<Rightarrow> c + 1) (project_counts s)\<rparr>"

definition store_set :: "state_store \<Rightarrow> string \<Rightarrow> string \<Rightarrow> json \<Rightarrow> unit result \<times> state_store"
where
  "store_set s p k v =
     (let sk = state_key_new p k in
      if hm_contains (inner s) sk then (Inr (), s\<lparr>inner := hm_insert sk v (inner s)\<rparr>)
      else case max_entries_per_project s of
        None \<Rightarrow> (Inr (), s\<lparr>inner := hm_insert sk v (inner s)\<rparr>)
      | Some cap \<Rightarrow>
          (let current = current_count s p in
           if cap \<le> current then (Inl (InvalidStep (StateSetRejected p current cap)), s)
           else
             let s1 = (if current + 1 = warn_threshold cap \<and> p \<notin> set (warned_projects s)
                       then s\<lparr>warned_projects := p # warned_projects s\<rparr> else s);
                 s2 = bump_count s1 p
             in (Inr (), s2\<lparr>inner := hm_insert sk v (inner s2)\<rparr>)))"

definition store_delete :: "state_store \<Rightarrow> string \<Rightarrow> string \<Rightarrow> json option \<times> state_store" where
  "store_delete s p k =
     (let sk = state_key_new p k;
          removed = map_of (inner s) sk;
          s1 = s\<lparr>inner := hm_remove sk (inner s)\<rparr>
      in if removed \<noteq> None \<and> max_entries_per_project s \<noteq> None
         then (removed, (case map_of (project_counts s1) p of
                 None \<Rightarrow> s1
               | Some c \<Rightarrow> s1\<lparr>project_counts := hm_insert p (c - 1) (project_counts s1)\<rparr>))
         else (removed, s1))"

definition store_len :: "state_store \<Rightarrow> nat" where
  "store_len s = length (inner s)"

definition store_is_empty :: "state_store \<Rightarrow> bool" where
  "store_is_empty s \<longleftrightarrow> inner s = []"

definition project_entry_count :: "state_store \<Rightarrow> string \<Rightarrow> nat" where
  "project_entry_count s p =
     (if max_entries_per_project s \<noteq> None then current_count s p
      else length (filter (\<lambda>(sk, _). sk_project sk = p) (inner s)))"

definition warned_projects_contains :: "state_store \<Rightarrow> string \<Rightarrow> bool" where
  "warned_projects_contains s p \<longleftrightarrow> p \<in> set (warned_projects s)"

fun group_counts :: "(state_key \<times> json) list \<Rightarrow> (string \<times> nat) list \<Rightarrow> (string \<times> nat) list" where
  "group_counts [] acc = acc"
| "group_counts ((sk, _) # es) acc =
     group_counts es (hm_insert (sk_project sk)
       (opt_or (map_of acc (sk_project sk)) 0 + 1) acc)"

definition all_project_stats :: "state_store \<Rightarrow> project_stats list" where
  "all_project_stats s =
     (let cap = max_entries_per_project s in
      if cap \<noteq> None
      then map (\<lambda>(p, n). \<lparr>ps_project = p, ps_entries = n, ps_cap = cap\<rparr>) (project_counts s)
      else map (\<lambda>(p, n). \<lparr>ps_project = p, ps_entries = n, ps_cap = None\<rparr>)
             (group_counts (inner s) []))"

text \<open>
  \<open>update\<close>: the closure is always called with \<open>Some\<close>, since \<open>or_insert(Value::Null)\<close> has
  materialised an absent key by then.
\<close>

definition store_update ::
  "state_store \<Rightarrow> string \<Rightarrow> string \<Rightarrow> (json option \<Rightarrow> json) \<Rightarrow> json result \<times> state_store" where
  "store_update s p k f =
     (let sk = state_key_new p k;
          present = hm_contains (inner s) sk;
          current = current_count s p;
          next = f (Some (opt_or (map_of (inner s) sk) JNull));
          s1 = s\<lparr>inner := hm_insert sk next (inner s)\<rparr>
      in case max_entries_per_project s of
           None \<Rightarrow> (Inr next, s1)
         | Some cap \<Rightarrow>
             if \<not> present \<and> cap \<le> current
             then (Inl (InvalidStep (StateUpdateRejected p current cap)), s)
             else (Inr next, if present then s1 else bump_count s1 p))"

section \<open>Invariant\<close>

definition project_entries :: "state_store \<Rightarrow> string \<Rightarrow> (state_key \<times> json) list" where
  "project_entries s p = filter (\<lambda>(sk, _). sk_project sk = p) (inner s)"

definition wf_store :: "state_store \<Rightarrow> bool" where
  "wf_store s \<longleftrightarrow>
     distinct (map fst (inner s)) \<and> distinct (map fst (project_counts s)) \<and>
     (case max_entries_per_project s of
        None \<Rightarrow> project_counts s = []
      | Some cap \<Rightarrow> \<forall>p. current_count s p = length (project_entries s p) \<and>
                       length (project_entries s p) \<le> cap)"

text \<open>The operations a DSL can perform on the store, for runs of several of them.\<close>

datatype store_op = OpSet string string json | OpDelete string string
  | OpUpdate string string "json option \<Rightarrow> json"

fun store_step :: "state_store \<Rightarrow> store_op \<Rightarrow> state_store" where
  "store_step s (OpSet p k v) = snd (store_set s p k v)"
| "store_step s (OpDelete p k) = snd (store_delete s p k)"
| "store_step s (OpUpdate p k f) = snd (store_update s p k f)"

definition op_project :: "store_op \<Rightarrow> string" where
  "op_project x = (case x of OpSet p _ _ \<Rightarrow> p | OpDelete p _ \<Rightarrow> p | OpUpdate p _ _ \<Rightarrow> p)"

section \<open>Counting lemmas\<close>

lemma state_key_eq_iff [simp]:
  "state_key_new p k = state_key_new q l \<longleftrightarrow> p = q \<and> k = l"
  by (simp add: state_key_new_def)

lemma sk_project_new [simp]: "sk_project (state_key_new p k) = p"
  by (simp add: state_key_new_def)

lemma current_count_bump [simp]:
  "current_count (bump_count s p) q = current_count s q + (if p = q then 1 else 0)"
  by (auto simp: current_count_def bump_count_def update_conv' split: option.splits)

lemma inner_bump [simp]: "inner (bump_count s p) = inner s"
  and cap_bump [simp]: "max_entries_per_project (bump_count s p) = max_entries_per_project s"
  by (simp_all add: bump_count_def)

lemma distinct_bump:
  "distinct (map fst (project_counts s)) \<Longrightarrow> distinct (map fst (project_counts (bump_count s p)))"
  by (simp add: bump_count_def distinct_update)

lemma current_count_inner [simp]: "current_count (s\<lparr>inner := m\<rparr>) p = current_count s p"
  and current_count_warned [simp]:
    "current_count (s\<lparr>warned_projects := w\<rparr>) p = current_count s p"
  by (simp_all add: current_count_def)

lemma project_entries_cong: "inner s = inner t \<Longrightarrow> project_entries s = project_entries t"
  by (simp add: project_entries_def fun_eq_iff)

lemma length_filter_update:
  "length (filter (\<lambda>(sk, _). Q sk) (hm_insert sk v m)) =
     length (filter (\<lambda>(sk, _). Q sk) m) + (if \<not> hm_contains m sk \<and> Q sk then 1 else 0)"
  by (induction m) (auto simp: hm_contains_def)

lemma length_filter_delete:
  "distinct (map fst m) \<Longrightarrow>
   length (filter (\<lambda>(sk, _). Q sk) (hm_remove sk m)) =
     length (filter (\<lambda>(sk, _). Q sk) m) - (if hm_contains m sk \<and> Q sk then 1 else 0)"
proof (induction m)
  case (Cons a m)
  obtain k v where a: "a = (k, v)" by force
  show ?case
  proof (cases "k = sk")
    case True
    then have "hm_remove sk m = m"
      using Cons.prems a by (force simp: AList.delete_eq intro!: filter_True)
    with True a show ?thesis by simp
  next
    case False
    have pos: "hm_contains m sk \<and> Q sk \<Longrightarrow> 0 < length (filter (\<lambda>(sk, _). Q sk) m)"
      by (auto simp: hm_contains_iff filter_empty_conv)
    show ?thesis using Cons False a pos by (auto simp: Suc_diff_le split: if_splits)
  qed
qed simp

lemma project_entries_update:
  "length (project_entries (s\<lparr>inner := hm_insert (state_key_new p k) v (inner s)\<rparr>) q) =
     length (project_entries s q) +
     (if \<not> hm_contains (inner s) (state_key_new p k) \<and> p = q then 1 else 0)"
  by (simp add: project_entries_def length_filter_update)


lemma project_entries_delete:
  "distinct (map fst (inner s)) \<Longrightarrow>
   length (project_entries (s\<lparr>inner := hm_remove (state_key_new p k) (inner s)\<rparr>) q) =
     length (project_entries s q) -
     (if hm_contains (inner s) (state_key_new p k) \<and> p = q then 1 else 0)"
  by (simp add: project_entries_def length_filter_delete)

lemma project_entries_pos:
  "hm_contains (inner s) (state_key_new p k) \<Longrightarrow> 0 < length (project_entries s p)"
  by (force simp: hm_contains_iff project_entries_def filter_empty_conv)

lemma project_entries_inner [simp]:
  "project_entries (s\<lparr>warned_projects := w\<rparr>) q = project_entries s q"
  "project_entries (bump_count s p) q = project_entries s q"
  "project_entries (s\<lparr>project_counts := c\<rparr>) q = project_entries s q"
  by (simp_all add: project_entries_def)

lemma wf_storeD:
  assumes "wf_store s"
  shows "distinct (map fst (inner s))" "distinct (map fst (project_counts s))"
    and "max_entries_per_project s = Some cap \<Longrightarrow> current_count s p = length (project_entries s p)"
    and "max_entries_per_project s = Some cap \<Longrightarrow> current_count s p \<le> cap"
    and "max_entries_per_project s = None \<Longrightarrow> project_counts s = []"
  using assms by (auto simp: wf_store_def)

lemma wf_store_new: "wf_store store_new"
  and wf_store_with_config: "wf_store (store_with_config cap)"
  and wf_store_with_max: "wf_store (store_with_max n)"
  by (simp_all add: wf_store_def store_new_def store_with_config_def store_with_max_def
      current_count_def project_entries_def split: option.split)

section \<open>Branches of the operations\<close>

lemma store_set_existing [store_simps]:
  "hm_contains (inner s) (state_key_new p k) \<Longrightarrow>
   store_set s p k v = (Inr (), s\<lparr>inner := hm_insert (state_key_new p k) v (inner s)\<rparr>)"
  by (simp add: store_set_def Let_def)

lemma store_set_rejected [store_simps]:
  "\<lbrakk>\<not> hm_contains (inner s) (state_key_new p k); max_entries_per_project s = Some cap;
    cap \<le> current_count s p\<rbrakk> \<Longrightarrow>
   store_set s p k v = (Inl (InvalidStep (StateSetRejected p (current_count s p) cap)), s)"
  by (simp add: store_set_def Let_def)

lemma store_set_cases:
  obtains (existing) "hm_contains (inner s) (state_key_new p k)"
      "store_set s p k v = (Inr (), s\<lparr>inner := hm_insert (state_key_new p k) v (inner s)\<rparr>)"
  | (unbounded) "\<not> hm_contains (inner s) (state_key_new p k)" "max_entries_per_project s = None"
      "store_set s p k v = (Inr (), s\<lparr>inner := hm_insert (state_key_new p k) v (inner s)\<rparr>)"
  | (rejected) cap where "\<not> hm_contains (inner s) (state_key_new p k)"
      "max_entries_per_project s = Some cap" "cap \<le> current_count s p"
      "store_set s p k v = (Inl (InvalidStep (StateSetRejected p (current_count s p) cap)), s)"
  | (inserted) cap w where "\<not> hm_contains (inner s) (state_key_new p k)"
      "max_entries_per_project s = Some cap" "current_count s p < cap"
      "store_set s p k v = (Inr (), (bump_count (s\<lparr>warned_projects := w\<rparr>) p)
         \<lparr>inner := hm_insert (state_key_new p k) v (inner s)\<rparr>)"
proof (cases "hm_contains (inner s) (state_key_new p k)")
  case True
  then show ?thesis using that(1) by (simp add: store_set_existing)
next
  case False
  note absent = this
  show ?thesis
  proof (cases "max_entries_per_project s")
    case None
    with absent show ?thesis using that(2) by (simp add: store_set_def Let_def)
  next
    case (Some cap)
    show ?thesis
    proof (cases "cap \<le> current_count s p")
      case True
      with absent Some show ?thesis using that(3) by (simp add: store_set_rejected)
    next
      case False
      let ?w = "if current_count s p + 1 = warn_threshold cap \<and> p \<notin> set (warned_projects s)
        then p # warned_projects s else warned_projects s"
      have "store_set s p k v = (Inr (), (bump_count (s\<lparr>warned_projects := ?w\<rparr>) p)
         \<lparr>inner := hm_insert (state_key_new p k) v (inner s)\<rparr>)"
        using absent Some False by (simp add: store_set_def Let_def)
      with absent Some False show ?thesis using that(4)[of cap ?w] by simp
    qed
  qed
qed

lemma wf_store_insert_new:
  assumes "wf_store s" "\<not> hm_contains (inner s) (state_key_new p k)"
    "max_entries_per_project s = Some cap" "current_count s p < cap"
  shows "wf_store ((bump_count (s\<lparr>warned_projects := w\<rparr>) p)
     \<lparr>inner := hm_insert (state_key_new p k) v (inner s)\<rparr>)" (is "wf_store ?t")
proof -
  have count: "current_count ?t q = current_count s q + (if p = q then 1 else 0)" for q
    by simp
  have entries: "length (project_entries ?t q) =
      length (project_entries s q) + (if p = q then 1 else 0)" for q
    using project_entries_update[where s = "bump_count (s\<lparr>warned_projects := w\<rparr>) p" and p = p and k = k and v = v and q = q] assms(2)
    by simp
  have "current_count s q = length (project_entries s q)" "current_count s q \<le> cap" for q
    using assms(1,3) by (auto dest: wf_storeD)
  with assms count entries show ?thesis
    by (auto simp: wf_store_def distinct_update distinct_bump)
qed

lemma wf_store_overwrite:
  assumes "wf_store s"
    and "hm_contains (inner s) (state_key_new p k) \<or> max_entries_per_project s = None"
  shows "wf_store (s\<lparr>inner := hm_insert (state_key_new p k) v (inner s)\<rparr>)"
  using assms project_entries_update[where s = s and p = p and k = k and v = v]
  by (auto simp: wf_store_def distinct_update split: option.splits)

lemma wf_store_set: "wf_store s \<Longrightarrow> wf_store (snd (store_set s p k v))"
  by (rule store_set_cases[of s p k v])
    (auto simp: wf_store_overwrite wf_store_insert_new simp del: inner_bump)

lemma wf_store_delete:
  assumes wf: "wf_store s"
  shows "wf_store (snd (store_delete s p k))"
proof (cases "hm_contains (inner s) (state_key_new p k) \<and> max_entries_per_project s \<noteq> None")
  case True
  then obtain cap where cap: "max_entries_per_project s = Some cap" by blast
  have eq: "current_count s q = length (project_entries s q)" and le: "current_count s q \<le> cap" for q
    using wf cap by (auto dest: wf_storeD)
  have "0 < current_count s p"
    using True eq[of p] project_entries_pos[of s p k] by simp
  then obtain c where c: "map_of (project_counts s) p = Some c" "current_count s p = c"
    by (cases "map_of (project_counts s) p") (auto simp: current_count_def)
  let ?s1 = "s\<lparr>inner := hm_remove (state_key_new p k) (inner s)\<rparr>"
  let ?t = "?s1\<lparr>project_counts := hm_insert p (c - 1) (project_counts s)\<rparr>"
  have t: "snd (store_delete s p k) = ?t"
    using True c by (auto simp: store_delete_def Let_def hm_contains_def)
  have count: "current_count ?t q = current_count s q - (if p = q then 1 else 0)" for q
    using c by (auto simp: current_count_def update_conv')
  have "length (project_entries ?t q) = length (project_entries s q) - (if p = q then 1 else 0)" for q
    using project_entries_delete[where s = s and p = p and k = k and q = q] True wf by (simp add: wf_storeD(1))
  with count eq le cap wf show ?thesis
    unfolding t by (auto simp: wf_store_def distinct_update distinct_delete intro: le_trans[OF diff_le_self])
next
  case False
  then have t: "snd (store_delete s p k) = s\<lparr>inner := hm_remove (state_key_new p k) (inner s)\<rparr>"
    by (auto simp: store_delete_def Let_def hm_contains_def)
  show ?thesis
    unfolding t using False wf project_entries_delete[where s = s and p = p and k = k] wf_storeD(1)[OF wf]
    by (auto simp: wf_store_def distinct_delete split: option.splits)
qed

lemma bump_count_inner_commute:
  "bump_count (s\<lparr>inner := m\<rparr>) p = (bump_count s p)\<lparr>inner := m\<rparr>"
  by (simp add: bump_count_def)

lemma wf_store_update: "wf_store s \<Longrightarrow> wf_store (snd (store_update s p k f))"
  using wf_store_insert_new[where s = s and p = p and k = k and w = "warned_projects s"]
    wf_store_overwrite[of s p k]
  by (auto simp: store_update_def Let_def bump_count_inner_commute split: option.splits)

lemma store_step_wf: "wf_store s \<Longrightarrow> wf_store (store_step s x)"
  by (cases x) (simp_all add: wf_store_set wf_store_delete wf_store_update)

lemma store_run_wf: "wf_store s \<Longrightarrow> wf_store (fold (\<lambda>x t. store_step t x) xs s)"
  by (induction xs arbitrary: s) (simp_all add: store_step_wf)

section \<open>What one project sees\<close>

text \<open>
  Everything the operations of a project can observe: its values, its entry count, the cap and
  whether its 80% warning has been issued.
\<close>

definition project_view ::
  "state_store \<Rightarrow> string \<Rightarrow> (string \<Rightarrow> json option) \<times> nat \<times> nat option \<times> bool" where
  "project_view s q =
     (store_get s q, current_count s q, max_entries_per_project s, q \<in> set (warned_projects s))"

lemma project_view_eq_iff:
  "project_view s q = project_view t q \<longleftrightarrow>
     (\<forall>k. map_of (inner s) (state_key_new q k) = map_of (inner t) (state_key_new q k)) \<and>
     current_count s q = current_count t q \<and>
     max_entries_per_project s = max_entries_per_project t \<and>
     (q \<in> set (warned_projects s)) = (q \<in> set (warned_projects t))"
  by (simp add: project_view_def store_get_def fun_eq_iff)

lemma hm_contains_view:
  "project_view s q = project_view t q \<Longrightarrow>
   hm_contains (inner s) (state_key_new q k) = hm_contains (inner t) (state_key_new q k)"
  by (simp add: project_view_eq_iff hm_contains_def)

lemma warned_bump [simp]: "warned_projects (bump_count s p) = warned_projects s"
  by (simp add: bump_count_def)

lemma set_view_other: "p \<noteq> q \<Longrightarrow> project_view (snd (store_set s p k v)) q = project_view s q"
  by (auto simp: store_set_def Let_def project_view_eq_iff update_conv' split: option.split)

lemma current_count_delete:
  "current_count (snd (store_delete s p k)) q =
     current_count s q - (if p = q \<and> hm_contains (inner s) (state_key_new p k) \<and>
                             max_entries_per_project s \<noteq> None then 1 else 0)"
  by (auto simp: store_delete_def Let_def current_count_def update_conv' hm_contains_def
      split: option.split)

lemma delete_fields [simp]:
  "inner (snd (store_delete s p k)) = hm_remove (state_key_new p k) (inner s)"
  "max_entries_per_project (snd (store_delete s p k)) = max_entries_per_project s"
  "warned_projects (snd (store_delete s p k)) = warned_projects s"
  by (auto simp: store_delete_def Let_def split: option.split)

lemma delete_view_other: "p \<noteq> q \<Longrightarrow> project_view (snd (store_delete s p k)) q = project_view s q"
  by (simp add: project_view_eq_iff current_count_delete delete_conv')

lemma update_view_other: "p \<noteq> q \<Longrightarrow> project_view (snd (store_update s p k f)) q = project_view s q"
  by (auto simp: store_update_def Let_def project_view_eq_iff update_conv' split: option.split)

lemma set_view_same:
  assumes "project_view s p = project_view t p"
  shows "project_view (snd (store_set s p k v)) p = project_view (snd (store_set t p k v)) p"
  using assms hm_contains_view[OF assms, of k]
  by (auto simp: store_set_def Let_def project_view_eq_iff update_conv' split: option.split)

lemma delete_view_same:
  assumes "project_view s p = project_view t p"
  shows "project_view (snd (store_delete s p k)) p = project_view (snd (store_delete t p k)) p"
  using assms hm_contains_view[OF assms, of k]
  by (auto simp: project_view_eq_iff current_count_delete delete_conv')

lemma update_view_same:
  assumes "project_view s p = project_view t p"
  shows "project_view (snd (store_update s p k f)) p = project_view (snd (store_update t p k f)) p"
  using assms hm_contains_view[OF assms, of k]
  by (auto simp: store_update_def Let_def project_view_eq_iff update_conv' split: option.split)

section \<open>Interface: project-scoped stores\<close>

text \<open>
  What the engine relies on: an operation of one project neither changes what another project
  sees nor lets another project's data influence its own. The two laws are unwinding conditions;
  the lemma that whole runs do not interfere is proved once from them.
\<close>

locale project_scoped =
  fixes step :: "'s \<Rightarrow> 'op \<Rightarrow> 's"
    and proj :: "'op \<Rightarrow> string"
    and view :: "'s \<Rightarrow> string \<Rightarrow> 'v"
  assumes view_other: "proj x \<noteq> q \<Longrightarrow> view (step s x) q = view s q"
    and view_same: "view s (proj x) = view t (proj x) \<Longrightarrow>
          view (step s x) (proj x) = view (step t x) (proj x)"
begin

lemma run_view_cong:
  "view s q = view t q \<Longrightarrow> (\<And>x. x \<in> set xs \<Longrightarrow> proj x = q) \<Longrightarrow>
   view (fold (\<lambda>x t. step t x) xs s) q = view (fold (\<lambda>x t. step t x) xs t) q"
proof (induction xs arbitrary: s t)
  case (Cons x xs)
  have x: "proj x = q" using Cons.prems(2) by simp
  from Cons.prems(1) have "view (step s x) q = view (step t x) q"
    unfolding x[symmetric] by (rule view_same)
  then have "view (fold (\<lambda>x t. step t x) xs (step s x)) q =
      view (fold (\<lambda>x t. step t x) xs (step t x)) q"
    using Cons.prems(2) by (intro Cons.IH) simp_all
  then show ?case by simp
qed simp

lemma run_purge:
  "view (fold (\<lambda>x t. step t x) xs s) q =
   view (fold (\<lambda>x t. step t x) (filter (\<lambda>x. proj x = q) xs) s) q"
proof (induction xs arbitrary: s)
  case (Cons x xs)
  show ?case
  proof (cases "proj x = q")
    case True
    with Cons show ?thesis by simp
  next
    case False
    have "view (fold (\<lambda>x t. step t x) (filter (\<lambda>x. proj x = q) xs) (step s x)) q =
        view (fold (\<lambda>x t. step t x) (filter (\<lambda>x. proj x = q) xs) s) q"
      by (rule run_view_cong) (auto simp: view_other False)
    with Cons False show ?thesis by simp
  qed
qed simp

end

interpretation sto: project_scoped store_step op_project project_view
proof unfold_locales
  fix x q s
  assume "op_project x \<noteq> q"
  then show "project_view (store_step s x) q = project_view s q"
    by (cases x) (simp_all add: op_project_def set_view_other delete_view_other update_view_other)
next
  fix s x t
  assume "project_view s (op_project x) = project_view t (op_project x)"
  then show "project_view (store_step s x) (op_project x) = project_view (store_step t x) (op_project x)"
    by (cases x) (auto simp: op_project_def intro: set_view_same delete_view_same update_view_same)
qed

lemma store_step_cap [simp]:
  "max_entries_per_project (store_step s x) = max_entries_per_project s"
  by (cases x) (auto simp: store_set_def store_update_def Let_def split: option.split)

lemma store_run_cap:
  "max_entries_per_project (fold (\<lambda>x t. store_step t x) xs s) = max_entries_per_project s"
  by (induction xs arbitrary: s) simp_all

section \<open>Properties\<close>

text \<open>
  C6. Project isolation of the store: after any sequence of set, delete and update operations of
  any projects, what a project sees (its values, its entry count, whether its warning fired) is
  what it would see had only its own operations run, in the same order.
\<close>

theorem store_noninterference:
  "project_view (fold (\<lambda>x t. store_step t x) xs s) q =
   project_view (fold (\<lambda>x t. store_step t x) (filter (\<lambda>x. op_project x = q) xs) s) q"
  by (rule sto.run_purge)



text \<open>
  A set either succeeds, and then reading the key gives the value written while every other
  key of every project is unchanged, or it fails with the cap error; it fails exactly when the
  key is new and the project's counter has reached the cap, and then the store is unchanged.
\<close>

theorem store_set_spec:
  "(case store_set s p k v of
      (Inr _, t) \<Rightarrow> store_get t p k = Some v \<and>
         (\<forall>q l. (q, l) \<noteq> (p, k) \<longrightarrow> store_get t q l = store_get s q l)
    | (Inl e, t) \<Rightarrow> t = s \<and> (\<exists>cap. max_entries_per_project s = Some cap \<and>
         store_get s p k = None \<and> cap \<le> current_count s p \<and>
         e = InvalidStep (StateSetRejected p (current_count s p) cap))) \<and>
   (isl (fst (store_set s p k v)) \<longleftrightarrow> store_get s p k = None \<and>
      (\<exists>cap. max_entries_per_project s = Some cap \<and> cap \<le> current_count s p))"
  by (rule store_set_cases[of s p k v])
    (auto simp: store_get_def hm_contains_def update_conv')

theorem store_set_spec_witness:
  "store_get (snd (store_set (store_with_max 1) ''p'' ''k'' JNull)) ''p'' ''k'' = Some JNull \<and>
   store_get (snd (store_set (store_with_max 1) ''p'' ''k'' JNull)) ''q'' ''k'' = None"
proof -
  have ok: "store_set (store_with_max 1) ''p'' ''k'' JNull =
      (Inr (), snd (store_set (store_with_max 1) ''p'' ''k'' JNull))"
    by (simp add: store_set_def store_with_max_def current_count_def)
  have absent: "store_get (store_with_max 1) ''q'' ''k'' = None"
    by (simp add: store_get_def store_with_max_def)
  show ?thesis
    using store_set_spec[of "store_with_max 1" "''p''" "''k''" JNull] absent
    by (subst (asm) ok) auto
qed

text \<open>
  Deleting frees capacity: in a well-formed capped store, once an existing key of a project
  has been deleted, setting any key of that project succeeds, even when the project was full.
\<close>

theorem delete_then_set:
  assumes "wf_store s" and "store_get s p k \<noteq> None"
  shows "fst (store_set (snd (store_delete s p k)) p l v) = Inr ()"
proof (cases "max_entries_per_project s")
  case None
  then show ?thesis by (simp add: store_set_def Let_def)
next
  case (Some cap)
  have present: "hm_contains (inner s) (state_key_new p k)"
    using assms(2) by (simp add: hm_contains_def store_get_def)
  then have pos: "0 < current_count s p"
    using project_entries_pos wf_storeD(3)[OF assms(1) Some, of p] by simp
  have "current_count s p \<le> cap" by (rule wf_storeD(4)[OF assms(1) Some])
  with pos have "current_count s p - 1 < cap" by arith
  then have "current_count (snd (store_delete s p k)) p < cap"
    using present Some by (simp add: current_count_delete)
  with Some show ?thesis by (simp add: store_set_def Let_def)
qed

theorem delete_then_set_witness:
  "fst (store_set (snd (store_delete (store_step (store_with_max 1) (OpSet ''p'' ''a'' JNull))
     ''p'' ''a'')) ''p'' ''b'' (JBool True)) = Inr ()"
  by (rule delete_then_set)
    (rule store_step_wf[OF wf_store_with_max],
     simp add: store_get_def store_set_def store_with_max_def current_count_def bump_count_def
       warn_threshold_def usize_max_def)

text \<open>
  The read-modify-write operation never passes \<open>None\<close> to its closure: two closures that
  agree on present values give the same result and store, on absent keys too, and on an absent
  key the closure is applied to a present null.
\<close>

theorem update_closure_never_absent:
  assumes "\<And>v. f (Some v) = g (Some v)"
  shows "store_update s p k f = store_update s p k g \<and>
    (store_get s p k = None \<and> max_entries_per_project s = None \<longrightarrow>
       fst (store_update s p k f) = Inr (g (Some JNull)))"
  using assms by (auto simp: store_update_def Let_def store_get_def cong: option.case_cong)

theorem update_closure_never_absent_witness:
  "store_update store_new ''p'' ''k'' (\<lambda>x. case x of None \<Rightarrow> JBool True | Some v \<Rightarrow> v) =
   store_update store_new ''p'' ''k'' (\<lambda>x. case x of None \<Rightarrow> JBool False | Some v \<Rightarrow> v) \<and>
   fst (store_update store_new ''p'' ''k'' (\<lambda>x. case x of None \<Rightarrow> JBool True | Some v \<Rightarrow> v))
     = Inr JNull"
proof -
  let ?f = "\<lambda>x. case x of None \<Rightarrow> JBool True | Some v \<Rightarrow> v"
  let ?g = "\<lambda>x. case x of None \<Rightarrow> JBool False | Some v \<Rightarrow> v"
  have agree: "?f (Some v) = ?g (Some v)" for v by simp
  have "store_get store_new ''p'' ''k'' = None \<and> max_entries_per_project store_new = None"
    by (simp add: store_get_def store_new_def)
  then show ?thesis
    using update_closure_never_absent[of ?f ?g store_new "''p''" "''k''", OF agree] by auto
qed

end
