(* ===== verification/Guards.thy ===== *)
theory Guards
  imports Ruuter_Prelude "HOL-Library.List_Lexorder" "HOL-Library.Char_ord"
    "HOL-Library.Product_Lexorder" "HOL-Library.Multiset"
begin

text \<open>
  Guard resolution (\<open>src/dsl/guard_audit.rs\<close>): which guard keys protect a DSL, outermost first.

  The function is polymorphic in the guard bodies: it reads of a guard only whether its
  declaration sets \<open>override_ancestors\<close>, which is the parameter \<open>is_override\<close> (the theory
  \<open>Dsl_Types\<close> instantiates it with the declaration). The lemmas characterise the returned list:
  the source iterates over a hash map and sorts by key length, and the result does not depend on
  the iteration order, because two matching keys of equal length are the same prefix.
\<close>

section \<open>Resolution\<close>

datatype guard_mode = Stack | ClosestOnly

definition PROJECT_GUARD_KEY :: string where
  "PROJECT_GUARD_KEY = ''*''"

text \<open>\<open>dsl_key == guard_key || dsl_key.starts_with(guard_key + "/")\<close>.\<close>

definition guard_covers :: "string \<Rightarrow> string \<Rightarrow> bool" where
  "guard_covers dsl_key guard_key \<longleftrightarrow>
     dsl_key = guard_key \<or> starts_with dsl_key (guard_key @ ''/'')"

text \<open>\<open>Iterator::max_by_key\<close>: the last element of maximal length.\<close>

fun last_longest :: "string list \<Rightarrow> string option" where
  "last_longest [] = None"
| "last_longest (k # ks) =
     (case last_longest ks of
        None \<Rightarrow> Some k
      | Some m \<Rightarrow> if length k \<le> length m then Some m else Some k)"

definition guard_keys_for_dsl ::
  "('g \<Rightarrow> bool) \<Rightarrow> string \<Rightarrow> string \<Rightarrow> 'g hmap hmap \<Rightarrow> guard_mode \<Rightarrow> string list" where
  "guard_keys_for_dsl is_override project dsl_key guards mode =
     (case map_of guards project of
        None \<Rightarrow> []
      | Some project_guards \<Rightarrow>
          (let keys = map fst project_guards;
               project_guard =
                 (if PROJECT_GUARD_KEY \<in> set keys then [PROJECT_GUARD_KEY] else []);
               matches = sort_key length
                 (filter (\<lambda>k. k \<noteq> PROJECT_GUARD_KEY \<and> guard_covers dsl_key k) keys);
               overriding = filter (\<lambda>k. case map_of project_guards k of
                   None \<Rightarrow> False | Some g \<Rightarrow> is_override g) matches
           in if overriding \<noteq> []
              then (case last_longest overriding of None \<Rightarrow> [] | Some k \<Rightarrow> [k])
              else project_guard @
                (case mode of
                   Stack \<Rightarrow> matches
                 | ClosestOnly \<Rightarrow> (if matches = [] then [] else [last matches]))))"

text \<open>
  \<open>applicable_guards\<close> of the router and \<open>applicable_guards_for\<close> of the engine: the same keys,
  each with its body, from one snapshot of the guard tree.
\<close>

definition applicable_guards ::
  "('g \<Rightarrow> bool) \<Rightarrow> string \<Rightarrow> string \<Rightarrow> 'g hmap hmap \<Rightarrow> guard_mode \<Rightarrow> (string \<times> 'g) list" where
  "applicable_guards is_override project dsl_key guards mode =
     (case map_of guards project of
        None \<Rightarrow> []
      | Some project_guards \<Rightarrow>
          List.map_filter (\<lambda>k. map_option (\<lambda>g. (k, g)) (map_of project_guards k))
            (guard_keys_for_dsl is_override project dsl_key guards mode))"

section \<open>The audit\<close>

record route_audit =
  ra_project :: string
  ra_method :: string
  ra_path :: string
  ra_dsl_key :: string
  ra_guards :: "string list"

definition is_unguarded :: "route_audit \<Rightarrow> bool" where
  "is_unguarded r \<longleftrightarrow> ra_guards r = []"

definition is_auditable_method :: "string \<Rightarrow> bool" where
  "is_auditable_method m \<longleftrightarrow> to_uppercase m \<in>
     {''GET'', ''POST'', ''PUT'', ''PATCH'', ''DELETE'', ''OPTIONS'', ''HEAD'', ''WS''}"

definition strip_prefix :: "string \<Rightarrow> string \<Rightarrow> string option" where
  "strip_prefix p s = (if starts_with s p then Some (drop (length p) s) else None)"

text \<open>One record per route of an auditable method, sorted by project, method and path.\<close>

definition route_audits ::
  "('g \<Rightarrow> bool) \<Rightarrow> 'g hmap hmap \<Rightarrow> guard_mode \<Rightarrow> string \<Rightarrow> string \<Rightarrow> 'd hmap \<Rightarrow> route_audit list" where
  "route_audits is_override guards mode project meth dsls =
     map (\<lambda>(dsl_key, _).
        \<lparr>ra_project = project, ra_method = meth,
         ra_path = opt_or (strip_prefix (meth @ ''/'') dsl_key) dsl_key,
         ra_dsl_key = dsl_key,
         ra_guards = guard_keys_for_dsl is_override project dsl_key guards mode\<rparr>) dsls"

definition audit_all_routes ::
  "('g \<Rightarrow> bool) \<Rightarrow> 'd hmap hmap hmap \<Rightarrow> 'g hmap hmap \<Rightarrow> guard_mode \<Rightarrow> route_audit list" where
  "audit_all_routes is_override http guards mode =
     sort_key (\<lambda>r. (ra_project r, ra_method r, ra_path r))
       (concat (map (\<lambda>(project, methods). concat (map (\<lambda>(meth, dsls).
           if is_auditable_method meth
           then route_audits is_override guards mode project meth dsls else []) methods)) http))"

section \<open>Coverage\<close>

lemma guard_covers_prefix: "guard_covers d k \<Longrightarrow> starts_with d k"
  by (auto simp: guard_covers_def starts_with_iff)

lemma guard_covers_same_length:
  "guard_covers d k \<Longrightarrow> guard_covers d l \<Longrightarrow> length k = length l \<Longrightarrow> k = l"
  by (blast dest: guard_covers_prefix starts_with_same_length)

lemma inj_on_length_covers: "(\<And>k. k \<in> S \<Longrightarrow> guard_covers d k) \<Longrightarrow> inj_on length S"
  by (auto intro!: inj_onI dest: guard_covers_same_length)

text \<open>Two enumerations of one set of covering keys sort to the same list.\<close>

lemma sort_key_covers_unique:
  assumes "set xs = set ys" "distinct xs" "distinct ys" "\<And>k. k \<in> set xs \<Longrightarrow> guard_covers d k"
  shows "sort_key length xs = sort_key length ys"
proof (rule sort_key_inj_key_eq)
  show "mset xs = mset (sort_key length ys)"
    using assms by (simp add: set_eq_iff_mset_eq_distinct[symmetric])
  show "inj_on length (set xs)"
    using assms by (auto intro: inj_on_length_covers)
qed simp

lemma last_longest_in: "last_longest ks = Some k \<Longrightarrow> k \<in> set ks"
  by (induction ks arbitrary: k) (auto split: option.splits if_splits)

lemma last_longest_max: "last_longest ks = Some k \<Longrightarrow> l \<in> set ks \<Longrightarrow> length l \<le> length k"
proof (induction ks arbitrary: k)
  case (Cons a ks)
  show ?case
  proof (cases "last_longest ks")
    case None
    then have "ks = []" by (cases ks) (auto split: option.splits if_splits)
    with Cons.prems show ?thesis by simp
  next
    case (Some m)
    then have "l \<in> set ks \<Longrightarrow> length l \<le> length m" by (rule Cons.IH)
    with Cons.prems Some show ?thesis by (auto split: if_splits)
  qed
qed simp

lemma last_longest_None [simp]: "last_longest ks = None \<longleftrightarrow> ks = []"
  by (cases ks) (auto split: option.splits if_splits)

text \<open>The guards of a project that cover a DSL.\<close>

definition covering_keys :: "'g hmap \<Rightarrow> string \<Rightarrow> string set" where
  "covering_keys pg d = {k. k \<in> fst ` set pg \<and> k \<noteq> PROJECT_GUARD_KEY \<and> guard_covers d k}"

definition overriding_keys :: "('g \<Rightarrow> bool) \<Rightarrow> 'g hmap \<Rightarrow> string \<Rightarrow> string set" where
  "overriding_keys is_override pg d =
     {k \<in> covering_keys pg d. \<exists>g. map_of pg k = Some g \<and> is_override g}"

definition stacked_keys :: "'g hmap \<Rightarrow> string \<Rightarrow> string list" where
  "stacked_keys pg d = sort_key length
     (filter (\<lambda>k. k \<noteq> PROJECT_GUARD_KEY \<and> guard_covers d k) (map fst pg))"

lemma set_stacked_keys [simp]: "set (stacked_keys pg d) = covering_keys pg d"
  by (auto simp: stacked_keys_def covering_keys_def)

lemma sorted_stacked_keys: "sorted (map length (stacked_keys pg d))"
  by (simp add: stacked_keys_def)

lemma distinct_stacked_keys: "distinct (map fst pg) \<Longrightarrow> distinct (stacked_keys pg d)"
  by (simp add: stacked_keys_def)

lemma overriding_filter:
  "set (filter (\<lambda>k. case map_of pg k of None \<Rightarrow> False | Some g \<Rightarrow> is_override g) (stacked_keys pg d))
     = overriding_keys is_override pg d"
  by (auto simp: overriding_keys_def split: option.splits)

lemma guard_keys_unfold:
  assumes "map_of guards p = Some pg"
  shows "guard_keys_for_dsl is_override p d guards mode =
    (let overriding = filter (\<lambda>k. case map_of pg k of None \<Rightarrow> False | Some g \<Rightarrow> is_override g)
                        (stacked_keys pg d)
     in if overriding \<noteq> []
        then (case last_longest overriding of None \<Rightarrow> [] | Some k \<Rightarrow> [k])
        else (if PROJECT_GUARD_KEY \<in> fst ` set pg then [PROJECT_GUARD_KEY] else []) @
          (case mode of Stack \<Rightarrow> stacked_keys pg d
           | ClosestOnly \<Rightarrow> (if stacked_keys pg d = [] then [] else [last (stacked_keys pg d)])))"
  using assms by (cases mode) (simp_all add: guard_keys_for_dsl_def stacked_keys_def Let_def)

lemma guard_keys_override:
  assumes "map_of guards p = Some pg" "overriding_keys is_override pg d \<noteq> {}"
  obtains k where "guard_keys_for_dsl is_override p d guards mode = [k]"
    "k \<in> overriding_keys is_override pg d"
    "\<And>l. l \<in> overriding_keys is_override pg d \<Longrightarrow> length l \<le> length k"
proof -
  let ?ov = "filter (\<lambda>k. case map_of pg k of None \<Rightarrow> False | Some g \<Rightarrow> is_override g)
    (stacked_keys pg d)"
  have ne: "?ov \<noteq> []"
    using assms(2) overriding_filter[of is_override pg d] by (metis set_empty)
  then obtain k where k: "last_longest ?ov = Some k"
    using last_longest_None[of ?ov] by (cases "last_longest ?ov") auto
  show thesis
  proof (rule that[of k])
    show "guard_keys_for_dsl is_override p d guards mode = [k]"
      using ne k by (simp add: guard_keys_unfold[OF assms(1)] Let_def)
    show "k \<in> overriding_keys is_override pg d"
      using last_longest_in[OF k] overriding_filter[of is_override pg d] by blast
    show "length l \<le> length k" if "l \<in> overriding_keys is_override pg d" for l
      using last_longest_max[OF k] that overriding_filter[of is_override pg d] by blast
  qed
qed

lemma guard_keys_no_override:
  assumes "map_of guards p = Some pg" "overriding_keys is_override pg d = {}"
  shows "guard_keys_for_dsl is_override p d guards mode =
     (if PROJECT_GUARD_KEY \<in> fst ` set pg then [PROJECT_GUARD_KEY] else []) @
     (case mode of Stack \<Rightarrow> stacked_keys pg d
      | ClosestOnly \<Rightarrow> (if stacked_keys pg d = [] then [] else [last (stacked_keys pg d)]))"
proof -
  have "filter (\<lambda>k. case map_of pg k of None \<Rightarrow> False | Some g \<Rightarrow> is_override g)
      (stacked_keys pg d) = []"
    using assms(2) overriding_filter[of is_override pg d] by (metis set_empty)
  then show ?thesis by (simp add: guard_keys_unfold[OF assms(1)])
qed

lemma guard_keys_subset:
  assumes "map_of guards p = Some pg"
  shows "set (guard_keys_for_dsl is_override p d guards mode) \<subseteq>
    insert PROJECT_GUARD_KEY (covering_keys pg d) \<inter> fst ` set pg"
proof (cases "overriding_keys is_override pg d = {}")
  case True
  have "last (stacked_keys pg d) \<in> covering_keys pg d" if "stacked_keys pg d \<noteq> []"
    using last_in_set[OF that] by simp
  then show ?thesis
    using True by (cases mode) (auto simp: guard_keys_no_override[OF assms] covering_keys_def)
next
  case False
  from guard_keys_override[OF assms False, of mode] obtain k where
    "guard_keys_for_dsl is_override p d guards mode = [k]" "k \<in> overriding_keys is_override pg d"
    by blast
  then show ?thesis by (auto simp: overriding_keys_def covering_keys_def)
qed

lemma covering_keys_cong: "map_of pg = map_of pg' \<Longrightarrow> covering_keys pg d = covering_keys pg' d"
  by (simp add: covering_keys_def dom_map_of_conv_image_fst[symmetric])

lemma overriding_keys_cong:
  assumes "map_of pg = map_of pg'"
  shows "overriding_keys f pg d = overriding_keys f pg' d"
  unfolding overriding_keys_def covering_keys_cong[OF assms] assms ..

lemma stacked_keys_cong:
  assumes "map_of pg = map_of pg'" "distinct (map fst pg)" "distinct (map fst pg')"
  shows "stacked_keys pg d = stacked_keys pg' d"
  unfolding stacked_keys_def
proof (rule sort_key_covers_unique[where d = d])
  have "fst ` set pg = fst ` set pg'"
    using assms(1) by (simp add: dom_map_of_conv_image_fst[symmetric])
  then show "set (filter (\<lambda>k. k \<noteq> PROJECT_GUARD_KEY \<and> guard_covers d k) (map fst pg)) =
      set (filter (\<lambda>k. k \<noteq> PROJECT_GUARD_KEY \<and> guard_covers d k) (map fst pg'))"
    by auto
qed (use assms in auto)

lemma covers_chain:
  assumes "guard_covers d k" "guard_covers d l" "length k < length l"
  shows "starts_with l (k @ ''/'')"
proof -
  from assms have "starts_with d (k @ ''/'')"
    by (auto simp: guard_covers_def starts_with_iff)
  then have k: "take (Suc (length k)) d = k @ ''/''" by (simp add: starts_with_def)
  have "take (length l) d = l"
    using guard_covers_prefix[OF assms(2)] by (simp add: starts_with_def)
  then have "take (Suc (length k)) l = take (Suc (length k)) (take (length l) d)" by simp
  also have "\<dots> = k @ ''/''" using assms(3) k by (simp add: min_absorb1 Suc_leI)
  finally show ?thesis by (simp add: starts_with_def)
qed

lemma stacked_keys_chain:
  assumes "distinct (map fst pg)" "i < j" "j < length (stacked_keys pg d)"
  shows "starts_with (stacked_keys pg d ! j) (stacked_keys pg d ! i @ ''/'')"
proof (rule covers_chain[where d = d])
  let ?ks = "stacked_keys pg d"
  have i: "?ks ! i \<in> covering_keys pg d" and j: "?ks ! j \<in> covering_keys pg d"
    using assms(2,3) nth_mem[of i ?ks] nth_mem[of j ?ks] by simp_all
  then show "guard_covers d (?ks ! i)" and "guard_covers d (?ks ! j)"
    by (simp_all add: covering_keys_def)
  have "length (?ks ! i) \<le> length (?ks ! j)"
    using sorted_nth_mono[OF sorted_stacked_keys, of i j pg d] assms(2,3) by simp
  moreover have "?ks ! i \<noteq> ?ks ! j"
    using distinct_stacked_keys[OF assms(1), of d] assms(2,3) by (simp add: nth_eq_iff_index_eq)
  ultimately show "length (?ks ! i) < length (?ks ! j)"
    using i j guard_covers_same_length[of d "?ks ! i" "?ks ! j"]
    by (auto simp: covering_keys_def le_less)
qed

lemma map_filter_keys:
  "set ks \<subseteq> fst ` set pg \<Longrightarrow>
   map fst (List.map_filter (\<lambda>k. map_option (\<lambda>g. (k, g)) (map_of pg k)) ks) = ks"
proof (induction ks)
  case (Cons k ks)
  then obtain g where "map_of pg k = Some g"
    by (metis insert_subset list.simps(15) map_of_eq_None_iff not_None_eq)
  with Cons show ?case by (simp add: List.map_filter_simps)
qed (simp add: List.map_filter_simps)

lemma applicable_guards_keys:
  "map fst (applicable_guards is_override p d guards mode) =
     guard_keys_for_dsl is_override p d guards mode"
proof (cases "map_of guards p")
  case None
  then show ?thesis by (simp add: applicable_guards_def guard_keys_for_dsl_def)
next
  case (Some pg)
  have "set (guard_keys_for_dsl is_override p d guards mode) \<subseteq> fst ` set pg"
    using guard_keys_subset[OF Some] by blast
  with Some show ?thesis by (simp add: applicable_guards_def map_filter_keys)
qed

lemma set_audit_all_routes:
  "r \<in> set (audit_all_routes f http guards mode) \<longleftrightarrow>
     (\<exists>p ms m ds k x. (p, ms) \<in> set http \<and> (m, ds) \<in> set ms \<and> is_auditable_method m \<and>
        (k, x) \<in> set ds \<and>
        r = \<lparr>ra_project = p, ra_method = m, ra_path = opt_or (strip_prefix (m @ ''/'') k) k,
             ra_dsl_key = k, ra_guards = guard_keys_for_dsl f p k guards mode\<rparr>)"
  by (fastforce simp: audit_all_routes_def route_audits_def split: if_splits)

section \<open>Properties\<close>

text \<open>
  Guard resolution is deterministic although it iterates over a hash map: any two iteration
  orders of the same guard map give the same guards in the same order.
\<close>

theorem guard_keys_order_independent:
  assumes "distinct (map fst pg)" "distinct (map fst pg')" "map_of pg = map_of pg'"
  shows "guard_keys_for_dsl is_override p d [(p, pg)] mode =
         guard_keys_for_dsl is_override p d [(p, pg')] mode"
proof (cases "overriding_keys is_override pg d = {}")
  case True
  moreover have "fst ` set pg = fst ` set pg'"
    using assms(3) by (simp add: dom_map_of_conv_image_fst[symmetric])
  ultimately show ?thesis
    using assms by (cases mode) (simp_all add: guard_keys_no_override
        overriding_keys_cong[OF assms(3)] stacked_keys_cong[OF assms(3,1,2)])
next
  case False
  then have False': "overriding_keys is_override pg' d \<noteq> {}"
    by (simp add: overriding_keys_cong[OF assms(3)])
  obtain k where k: "guard_keys_for_dsl is_override p d [(p, pg)] mode = [k]"
    "k \<in> overriding_keys is_override pg d"
    "\<And>l. l \<in> overriding_keys is_override pg d \<Longrightarrow> length l \<le> length k"
    using guard_keys_override[of "[(p, pg)]" p pg, OF _ False] by auto
  obtain l where l: "guard_keys_for_dsl is_override p d [(p, pg')] mode = [l]"
    "l \<in> overriding_keys is_override pg d"
    "\<And>k. k \<in> overriding_keys is_override pg d \<Longrightarrow> length k \<le> length l"
    using guard_keys_override[of "[(p, pg')]" p pg', OF _ False']
    by (auto simp: overriding_keys_cong[OF assms(3)])
  have "k = l"
    using k l guard_covers_same_length[of d k l]
    by (auto simp: overriding_keys_def covering_keys_def intro: le_antisym)
  with k l show ?thesis by simp
qed

theorem guard_keys_order_independent_witness:
  "guard_keys_for_dsl id ''p'' ''GET/a/b'' [(''p'', [(''GET'', False), (''GET/a'', False)])] Stack =
   guard_keys_for_dsl id ''p'' ''GET/a/b'' [(''p'', [(''GET/a'', False), (''GET'', False)])] Stack"
  by (rule guard_keys_order_independent) (auto simp: fun_eq_iff)

text \<open>
  Stack mode without an override runs every covering guard: the project-level guard first if
  there is one, then exactly the method-scoped guards that cover the DSL, each one a directory
  prefix of the next (outermost first), none twice.
\<close>

theorem guard_keys_stack_spec:
  assumes "map_of guards p = Some pg" "distinct (map fst pg)" "overriding_keys is_override pg d = {}"
  shows "\<exists>ks. guard_keys_for_dsl is_override p d guards Stack =
      (if PROJECT_GUARD_KEY \<in> fst ` set pg then [PROJECT_GUARD_KEY] else []) @ ks \<and>
    set ks = {k. k \<in> fst ` set pg \<and> k \<noteq> PROJECT_GUARD_KEY \<and> guard_covers d k} \<and>
    distinct ks \<and> (\<forall>j < length ks. \<forall>i < j. starts_with (ks ! j) (ks ! i @ ''/''))"
  using assms
  by (intro exI[of _ "stacked_keys pg d"])
    (simp add: guard_keys_no_override distinct_stacked_keys stacked_keys_chain covering_keys_def)

theorem guard_keys_stack_spec_witness:
  "\<exists>ks. guard_keys_for_dsl (\<lambda>_. False) ''p'' ''GET/a'' [(''p'', [(''GET'', ())])] Stack = ks \<and>
     set ks = {k. k \<in> fst ` set [(''GET'', ())] \<and> k \<noteq> ''*'' \<and> guard_covers ''GET/a'' k}"
proof -
  have none: "overriding_keys (\<lambda>_. False) [(''GET'', ())] ''GET/a'' = {}"
    by (simp add: overriding_keys_def)
  have "map_of [(''p'', [(''GET'', ())])] ''p'' = Some [(''GET'', ())]" by simp
  moreover have "distinct (map fst [(''GET'', ())])" by simp
  ultimately have "\<exists>ks. guard_keys_for_dsl (\<lambda>_. False) ''p'' ''GET/a'' [(''p'', [(''GET'', ())])] Stack =
      (if PROJECT_GUARD_KEY \<in> fst ` set [(''GET'', ())] then [PROJECT_GUARD_KEY] else []) @ ks \<and>
    set ks = {k. k \<in> fst ` set [(''GET'', ())] \<and> k \<noteq> PROJECT_GUARD_KEY \<and> guard_covers ''GET/a'' k}"
    using guard_keys_stack_spec[OF _ _ none] by blast
  then show ?thesis by (simp add: PROJECT_GUARD_KEY_def)
qed

text \<open>
  C20. An override replaces every ancestor: as soon as one covering guard sets
  \<open>override_ancestors\<close>, exactly one guard runs in either mode, the most specific overriding
  one; neither the other ancestors nor the project-level guard runs.
\<close>

theorem guard_keys_override_spec:
  assumes "map_of guards p = Some pg" "k \<in> overriding_keys is_override pg d"
  shows "\<exists>m. guard_keys_for_dsl is_override p d guards mode = [m] \<and>
    m \<in> overriding_keys is_override pg d \<and> m \<noteq> PROJECT_GUARD_KEY \<and> length k \<le> length m"
proof -
  from assms(2) have "overriding_keys is_override pg d \<noteq> {}" by blast
  from guard_keys_override[OF assms(1) this, of mode] obtain m where
    m: "guard_keys_for_dsl is_override p d guards mode = [m]" "m \<in> overriding_keys is_override pg d"
      "\<And>l. l \<in> overriding_keys is_override pg d \<Longrightarrow> length l \<le> length m"
    by blast
  then have "m \<noteq> PROJECT_GUARD_KEY" by (simp add: overriding_keys_def covering_keys_def)
  with m assms(2) show ?thesis by blast
qed

theorem guard_keys_override_spec_witness:
  "\<exists>m. guard_keys_for_dsl id ''p'' ''GET/a/b'' [(''p'', [(''*'', False), (''GET/a'', True)])] Stack = [m] \<and>
     m \<noteq> ''*''"
proof -
  have "''GET/a'' \<in> overriding_keys id [(''*'', False), (''GET/a'', True)] ''GET/a/b''"
    by (simp add: overriding_keys_def covering_keys_def guard_covers_def starts_with_def
        PROJECT_GUARD_KEY_def exI[of _ True])
  from guard_keys_override_spec[OF _ this, of "[(''p'', [(''*'', False), (''GET/a'', True)])]" "''p''" Stack]
  show ?thesis by (auto simp: PROJECT_GUARD_KEY_def)
qed

text \<open>
  The audit tells the truth about enforcement: the guards the audit lists for a route are the
  guards the router and the template step run for it, in order, so a route is reported unguarded
  exactly when no guard runs; and every DSL of an auditable method is in the report.
\<close>

theorem audit_agrees_with_enforcement:
  "(\<forall>r \<in> set (audit_all_routes is_override http guards mode).
      ra_guards r = map fst (applicable_guards is_override (ra_project r) (ra_dsl_key r) guards mode) \<and>
      (is_unguarded r \<longleftrightarrow>
         applicable_guards is_override (ra_project r) (ra_dsl_key r) guards mode = [])) \<and>
   (\<forall>(p, ms) \<in> set http. \<forall>(m, ds) \<in> set ms. is_auditable_method m \<longrightarrow>
      (\<forall>k \<in> fst ` set ds. \<exists>r \<in> set (audit_all_routes is_override http guards mode).
         ra_project r = p \<and> ra_method r = m \<and> ra_dsl_key r = k))"
proof (intro conjI ballI)
  fix r
  assume "r \<in> set (audit_all_routes is_override http guards mode)"
  then show eq: "ra_guards r =
      map fst (applicable_guards is_override (ra_project r) (ra_dsl_key r) guards mode)"
    by (auto simp: set_audit_all_routes applicable_guards_keys)
  show "is_unguarded r \<longleftrightarrow>
      applicable_guards is_override (ra_project r) (ra_dsl_key r) guards mode = []"
    by (simp add: is_unguarded_def eq)
next
  fix x
  assume "x \<in> set http"
  then show "case x of (p, ms) \<Rightarrow> \<forall>(m, ds) \<in> set ms. is_auditable_method m \<longrightarrow>
      (\<forall>k \<in> fst ` set ds. \<exists>r \<in> set (audit_all_routes is_override http guards mode).
         ra_project r = p \<and> ra_method r = m \<and> ra_dsl_key r = k)"
    by (force simp: set_audit_all_routes)
qed

theorem audit_agrees_with_enforcement_witness:
  "\<exists>r \<in> set (audit_all_routes (\<lambda>_. False) [(''p'', [(''GET'', [(''GET/a'', ())])])]
       [(''p'', [(''GET'', ())])] Stack).
     ra_dsl_key r = ''GET/a'' \<and>
     ra_guards r = map fst (applicable_guards (\<lambda>_. False) (ra_project r) (ra_dsl_key r)
       [(''p'', [(''GET'', ())])] Stack)"
  using audit_agrees_with_enforcement[of "\<lambda>_. False" "[(''p'', [(''GET'', [(''GET/a'', ())])])]"
      "[(''p'', [(''GET'', ())])]" Stack]
  by (auto simp: is_auditable_method_def to_uppercase_def ascii_upper_char_def)

end
