(* ===== verification/Dsl_Types.thy ===== *)
theory Dsl_Types
  imports Guards
begin

text \<open>
  The DSL data model (\<open>src/steps/mod.rs\<close>, \<open>src/dsl/mod.rs\<close>): one record per step struct, the
  step enum as the datatype \<open>dsl_step\<close>, the declaration block and the \<open>Dsl\<close> itself. The three
  composite steps (\<open>Iterate\<close>, \<open>Detach\<close>, \<open>SingleFlight\<close>) hold their sub-steps, so their struct
  fields are constructor arguments with selectors. A field whose Rust name clashes with another
  struct's carries a short prefix of its struct.
\<close>

section \<open>Declarations\<close>

datatype dsl_field = DslField
  (field: string) (field_type: "string option") (required: "bool option")
  (format: "string option") (description: "string option")
  (default_value: "json option") (items: "dsl_field option")

record required_one_of =
  roo_body :: "string list list option"
  roo_headers :: "string list list option"
  roo_params :: "string list list option"

record allowlist =
  al_body :: "dsl_field list option"
  al_headers :: "dsl_field list option"
  al_params :: "dsl_field list option"
  al_required_one_of :: "required_one_of option"

record proxy_declaration =
  upstream :: string
  preserve_headers :: bool
  max_body_bytes :: u64
  max_in_flight :: "u32 option"
  inbound_progress_timeout_ms :: "u64 option"
  allowed_encodings :: "string list"
  request_timeout_ms :: "u64 option"

record base_step_fields =
  skip :: "bool option"
  sleep :: "u64 option"
  max_recursions :: "u32 option"
  reload_dsl :: "bool option"

record declaration_step =
  dc_version :: "string option"
  dc_description :: "string option"
  dc_namespace :: "string option"
  allowed_body :: "string list option"
  allowed_header :: "string list option"
  allowed_params :: "string list option"
  dc_allowlist :: "allowlist option"
  dc_returns :: "dsl_field list option"
  strict :: "bool option"
  additive :: "bool option"
  override_ancestors :: "bool option"
  proxy :: "proxy_declaration option"
  internal :: "bool option"
  dc_base :: base_step_fields

section \<open>Steps\<close>

record assign_step =
  as_assign :: "json hmap"
  as_next :: "string option"
  as_base :: base_step_fields

record return_step =
  rs_return_value :: json
  rs_status :: "json option"
  rs_headers :: "json option"
  rs_wrapper :: "bool option"
  rs_next :: "string option"
  rs_base :: base_step_fields

record http_args =
  ha_url :: string
  ha_body :: "json option"
  ha_query :: "json option"
  ha_headers :: "json option"
  ha_content_type :: "string option"

record http_step =
  hs_call :: string
  hs_args :: http_args
  hs_result :: "string option"
  hs_next :: "string option"
  hs_error :: "string option"
  hs_timeout :: "u64 option"
  hs_base :: base_step_fields

record http_mock_args =
  ma_request :: "json option"
  ma_response :: json
  ma_status :: "u16 option"

record http_mock_step =
  hm_call :: string
  hm_args :: http_mock_args
  hm_result :: "string option"
  hm_next :: "string option"
  hm_base :: base_step_fields

record switch_condition =
  sc_condition :: string
  sc_next :: string

record switch_step =
  sw_switch :: "switch_condition list"
  sw_next :: "string option"
  sw_base :: base_step_fields

record log_step =
  lg_log :: json
  lg_next :: "string option"
  lg_base :: base_step_fields

record template_step =
  tp_template :: string
  tp_result :: "string option"
  tp_request_type :: "string option"
  tp_body :: "json option"
  tp_query :: "json option"
  tp_headers :: "json option"
  tp_next :: "string option"
  tp_base :: base_step_fields

datatype state_op = StGet string string | StSet string json | StDelete string

record state_step =
  ss_state :: state_op
  ss_next :: "string option"
  ss_base :: base_step_fields

datatype aggregate_mode = CollectOk | CollectAll | FirstN
datatype remaining_peers_after = Cancel | DrainBg

record early_exit_on =
  status_range :: "(u16 \<times> u16) option"
  body_predicate :: "string option"

record parallel_http_body =
  ph_peers :: string
  ph_call :: string
  ph_args :: http_args
  ph_timeout :: "u64 option"
  ph_max_concurrency :: "u32 option"
  ph_aggregate :: aggregate_mode
  ph_first_n :: "u32 option"
  ph_early_exit_on :: "early_exit_on option"
  ph_remaining_peers_after :: "remaining_peers_after option"
  ph_result :: string

record parallel_http_step =
  ph_body :: parallel_http_body
  ph_next :: "string option"
  ph_base :: base_step_fields

record broadcast_where =
  bw_tag :: json
  bw_equals :: "json option"
  bw_contains :: "json option"

record ws_send_args =
  ws_to :: "json option"
  ws_payload :: json
  ws_broadcast_prefix :: "string option"
  ws_broadcast_where :: "broadcast_where option"

record ws_send_step =
  ws_send_args :: ws_send_args
  ws_send_next :: "string option"
  ws_send_base :: base_step_fields

record ws_tag_step =
  ws_tag_set :: "json hmap"
  ws_tag_next :: "string option"
  ws_tag_base :: base_step_fields

datatype dsl_step =
    Assign assign_step
  | Return return_step
  | HttpCall http_step
  | HttpMock http_mock_step
  | Switch switch_step
  | Log log_step
  | Template template_step
  | State state_step
  | Iterate (it_over: json) (it_as: string) (it_do: "dsl_step list") (it_collect: "json option")
      (it_into: "string option") (it_max_items: "nat option")
      (it_next: "string option") (it_base: base_step_fields)
  | ParallelHttp parallel_http_step
  | Detach (dt_do: "dsl_step list") (dt_timeout_ms: "u64 option")
      (dt_next: "string option") (dt_base: base_step_fields)
  | WsSend ws_send_step
  | WsTag ws_tag_step
  | SingleFlight (sf_key: string) (sf_ttl_ms: u64) (sf_do: "dsl_step list")
      (sf_result: "string option") (sf_next: "string option") (sf_base: base_step_fields)
  | Declaration declaration_step

text \<open>\<open>DslStep::base\<close>: every variant has base fields, the declaration included.\<close>

fun step_base :: "dsl_step \<Rightarrow> base_step_fields option" where
  "step_base (Assign s) = Some (as_base s)"
| "step_base (Return s) = Some (rs_base s)"
| "step_base (HttpCall s) = Some (hs_base s)"
| "step_base (HttpMock s) = Some (hm_base s)"
| "step_base (Switch s) = Some (sw_base s)"
| "step_base (Log s) = Some (lg_base s)"
| "step_base (Template s) = Some (tp_base s)"
| "step_base (State s) = Some (ss_base s)"
| "step_base (Iterate _ _ _ _ _ _ _ b) = Some b"
| "step_base (ParallelHttp s) = Some (ph_base s)"
| "step_base (Detach _ _ _ b) = Some b"
| "step_base (WsSend s) = Some (ws_send_base s)"
| "step_base (WsTag s) = Some (ws_tag_base s)"
| "step_base (SingleFlight _ _ _ _ _ b) = Some b"
| "step_base (Declaration d) = Some (dc_base d)"

fun type_name :: "dsl_step \<Rightarrow> string" where
  "type_name (Assign _) = ''assign''"
| "type_name (Return _) = ''return''"
| "type_name (HttpCall _) = ''http''"
| "type_name (HttpMock _) = ''http_mock''"
| "type_name (Switch _) = ''switch''"
| "type_name (Log _) = ''log''"
| "type_name (Template _) = ''template''"
| "type_name (State _) = ''state''"
| "type_name (Iterate _ _ _ _ _ _ _ _) = ''iterate''"
| "type_name (ParallelHttp _) = ''parallel_http''"
| "type_name (Detach _ _ _ _) = ''detach''"
| "type_name (WsSend _) = ''ws_send''"
| "type_name (WsTag _) = ''ws_tag''"
| "type_name (SingleFlight _ _ _ _ _ _) = ''single_flight''"
| "type_name (Declaration _) = ''declaration''"

fun explicit_next :: "dsl_step \<Rightarrow> string option" where
  "explicit_next (Assign s) = as_next s"
| "explicit_next (Return s) = rs_next s"
| "explicit_next (HttpCall s) = hs_next s"
| "explicit_next (HttpMock s) = hm_next s"
| "explicit_next (Switch s) = sw_next s"
| "explicit_next (Log s) = lg_next s"
| "explicit_next (Template s) = tp_next s"
| "explicit_next (State s) = ss_next s"
| "explicit_next (Iterate _ _ _ _ _ _ n _) = n"
| "explicit_next (ParallelHttp s) = ph_next s"
| "explicit_next (Detach _ _ n _) = n"
| "explicit_next (WsSend s) = ws_send_next s"
| "explicit_next (WsTag s) = ws_tag_next s"
| "explicit_next (SingleFlight _ _ _ _ n _) = n"
| "explicit_next (Declaration _) = None"

definition STEP_KEYS :: "string list" where
  "STEP_KEYS = [''assign'', ''call'', ''declaration'', ''detach'', ''iterate'', ''log'',
     ''parallel_http'', ''return'', ''single_flight'', ''state'', ''switch'', ''template'',
     ''ws_send'', ''ws_tag'']"

definition ACTION_STEP_KEYS :: "string list" where
  "ACTION_STEP_KEYS = [''assign'', ''call'', ''detach'', ''iterate'', ''log'',
     ''parallel_http'', ''return'', ''single_flight'', ''state'', ''switch'', ''template'',
     ''ws_send'', ''ws_tag'']"

section \<open>Step results\<close>

text \<open>\<open>StepResult\<close> without its log attributes, which only reach the log line.\<close>

record step_result =
  next_step :: "string option"
  goto_step :: "string option"
  should_return :: bool
  return_value :: "json option"
  return_status :: "u16 option"
  return_headers :: "string hmap option"
  return_wrapper :: "bool option"

definition step_result_new :: step_result where
  "step_result_new = \<lparr>next_step = None, goto_step = None, should_return = False,
     return_value = None, return_status = None, return_headers = None, return_wrapper = None\<rparr>"

text \<open>\<open>StepResult { next_step: n, ..StepResult::new() }\<close>, the shape most executors return.\<close>

definition step_result_next :: "string option \<Rightarrow> step_result" where
  "step_result_next n = step_result_new\<lparr>next_step := n\<rparr>"

record dsl_execution_result =
  er_value :: "json option"
  er_status :: u16
  er_headers :: "string hmap"
  er_wrapper :: "bool option"

section \<open>DSLs\<close>

record dsl =
  dsl_steps :: "(string \<times> dsl_step) list"
  dsl_declaration :: "declaration_step option"

type_synonym http_dsls = "dsl hmap hmap hmap"
type_synonym guard_dsls = "dsl hmap hmap"

fun find_declaration :: "(string \<times> dsl_step) list \<Rightarrow> declaration_step option" where
  "find_declaration [] = None"
| "find_declaration ((_, s) # rest) =
     (case s of Declaration d \<Rightarrow> Some d | _ \<Rightarrow> find_declaration rest)"

definition dsl_new :: "(string \<times> dsl_step) list \<Rightarrow> dsl" where
  "dsl_new ss = \<lparr>dsl_steps = ss, dsl_declaration = find_declaration ss\<rparr>"

definition get_step :: "dsl \<Rightarrow> string \<Rightarrow> dsl_step option" where
  "get_step d n = map_of (dsl_steps d) n"

definition step_names :: "dsl \<Rightarrow> string list" where
  "step_names d = map fst (dsl_steps d)"

definition effective_internal :: "dsl \<Rightarrow> bool \<Rightarrow> bool" where
  "effective_internal d default_internal =
     opt_or (Option.bind (dsl_declaration d) internal) default_internal"

definition is_override_guard :: "dsl \<Rightarrow> bool" where
  "is_override_guard d = opt_or (Option.bind (dsl_declaration d) override_ancestors) False"

definition effective_allowed_body :: "declaration_step \<Rightarrow> string list option" where
  "effective_allowed_body d = (case allowed_body d of Some xs \<Rightarrow> Some xs
     | None \<Rightarrow> map_option (map field) (Option.bind (dc_allowlist d) al_body))"

definition effective_allowed_header :: "declaration_step \<Rightarrow> string list option" where
  "effective_allowed_header d = (case allowed_header d of Some xs \<Rightarrow> Some xs
     | None \<Rightarrow> map_option (map field) (Option.bind (dc_allowlist d) al_headers))"

definition effective_allowed_params :: "declaration_step \<Rightarrow> string list option" where
  "effective_allowed_params d = (case allowed_params d of Some xs \<Rightarrow> Some xs
     | None \<Rightarrow> map_option (map field) (Option.bind (dc_allowlist d) al_params))"

definition is_strict :: "declaration_step \<Rightarrow> bool" where
  "is_strict d = opt_or (strict d) False"

definition is_additive :: "declaration_step \<Rightarrow> bool" where
  "is_additive d = opt_or (additive d) False"

definition structured_body :: "declaration_step \<Rightarrow> dsl_field list option" where
  "structured_body d = Option.bind (dc_allowlist d) al_body"

definition structured_params :: "declaration_step \<Rightarrow> dsl_field list option" where
  "structured_params d = Option.bind (dc_allowlist d) al_params"

definition structured_headers :: "declaration_step \<Rightarrow> dsl_field list option" where
  "structured_headers d = Option.bind (dc_allowlist d) al_headers"

section \<open>Shared lemmas\<close>

lemma step_base_Some: "\<exists>b. step_base s = Some b"
  by (cases s) simp_all

lemma action_keys_are_step_keys:
  "ACTION_STEP_KEYS = filter (\<lambda>k. k \<noteq> ''declaration'') STEP_KEYS"
  by (simp add: ACTION_STEP_KEYS_def STEP_KEYS_def)

lemma type_name_key:
  "type_name s \<in> set STEP_KEYS \<or> type_name s \<in> {''http'', ''http_mock''}"
  by (cases s) (simp_all add: STEP_KEYS_def)

end
