(* ===== verification/Declaration.thy ===== *)
theory Declaration
  imports Dsl_Types
begin

text \<open>
  Declaration contracts: the parse-time posture check (\<open>DeclarationStep::validate_posture\<close> in
  \<open>src/dsl/mod.rs\<close>) and the request-time enforcement (\<open>apply_declaration\<close>,
  \<open>enforce_guard_declaration\<close> and their helpers in \<open>src/router/mod.rs\<close>). The lemmas show what
  a DSL can rely on once enforcement has succeeded, that filtering never changes a value, that
  every rejection is a client error, and when a declared header contract cannot be met.
\<close>

section \<open>Parse-time posture\<close>

datatype posture_error =
    StrictAndAdditive
  | StrictWithoutAllowlist
  | OneOfUndeclared string string
  | ProxyWithBodyAllowlist
  | ProxyWithAllowedBody
  | ProxyUpstreamEmpty
  | ProxyMaxBodyZero
  | EncodingEmpty
  | EncodingUnknown string

definition KNOWN_CONTENT_ENCODINGS :: "string list" where
  "KNOWN_CONTENT_ENCODINGS = [''identity'', ''gzip'', ''deflate'', ''br'', ''zstd'']"

definition section_check ::
  "string \<Rightarrow> string list list option \<Rightarrow> string list \<Rightarrow> posture_error + unit" where
  "section_check sec groups declared =
     (case groups of
        None \<Rightarrow> Inr ()
      | Some gs \<Rightarrow>
          (case find (\<lambda>name. \<not> (if sec = ''headers''
                     then list_ex (\<lambda>f. eq_ignore_ascii_case f name) declared
                     else list_ex (\<lambda>f. f = name) declared)) (concat gs) of
             None \<Rightarrow> Inr ()
           | Some name \<Rightarrow> Inl (OneOfUndeclared sec name)))"

fun check_encodings :: "string list \<Rightarrow> posture_error + unit" where
  "check_encodings [] = Inr ()"
| "check_encodings (enc # rest) =
     (let normal = to_ascii_lowercase (trim enc) in
      if normal = [] then Inl EncodingEmpty
      else if normal \<notin> set KNOWN_CONTENT_ENCODINGS then Inl (EncodingUnknown enc)
      else check_encodings rest)"

definition opt_fields :: "dsl_field list option \<Rightarrow> string list" where
  "opt_fields fs = (case fs of None \<Rightarrow> [] | Some xs \<Rightarrow> map field xs)"

definition has_allowlist :: "declaration_step \<Rightarrow> bool" where
  "has_allowlist d \<longleftrightarrow>
     (case dc_allowlist d of None \<Rightarrow> False
      | Some a \<Rightarrow> al_body a \<noteq> None \<or> al_params a \<noteq> None \<or> al_headers a \<noteq> None) \<or>
     allowed_body d \<noteq> None \<or> allowed_params d \<noteq> None \<or> allowed_header d \<noteq> None"

definition validate_posture :: "declaration_step \<Rightarrow> posture_error + unit" where
  "validate_posture d =
     bindr (ensure (\<not> (is_strict d \<and> is_additive d)) StrictAndAdditive) (\<lambda>_.
     bindr (ensure (is_strict d \<longrightarrow> has_allowlist d) StrictWithoutAllowlist) (\<lambda>_.
     bindr (case Option.bind (dc_allowlist d) (\<lambda>a. map_option (Pair a) (al_required_one_of a)) of
        None \<Rightarrow> Inr ()
      | Some (a, g) \<Rightarrow>
          bindr (section_check ''body'' (roo_body g) (opt_fields (al_body a))) (\<lambda>_.
          bindr (section_check ''params'' (roo_params g) (opt_fields (al_params a))) (\<lambda>_.
          section_check ''headers'' (roo_headers g) (opt_fields (al_headers a))))) (\<lambda>_.
     case proxy d of
       None \<Rightarrow> Inr ()
     | Some px \<Rightarrow>
         bindr (ensure (Option.bind (dc_allowlist d) al_body = None) ProxyWithBodyAllowlist) (\<lambda>_.
         bindr (ensure (allowed_body d = None) ProxyWithAllowedBody) (\<lambda>_.
         bindr (ensure (trim (upstream px) \<noteq> []) ProxyUpstreamEmpty) (\<lambda>_.
         bindr (ensure (max_body_bytes px \<noteq> 0) ProxyMaxBodyZero) (\<lambda>_.
         check_encodings (allowed_encodings px))))))))"

section \<open>Request-time enforcement\<close>

definition filter_str_keyed :: "'v hmap \<Rightarrow> string list \<Rightarrow> 'v hmap" where
  "filter_str_keyed m allowed = filter (\<lambda>(k, _). k \<in> set allowed) m"

definition reject_unknown_str_keyed :: "'v hmap \<Rightarrow> string list \<Rightarrow> string \<Rightarrow> unit result" where
  "reject_unknown_str_keyed m allowed sec =
     (case find (\<lambda>k. k \<notin> set allowed) (map fst m) of
        None \<Rightarrow> Inr ()
      | Some k \<Rightarrow> Inl (BadRequest (UnexpectedField sec k)))"

definition required_body_field_names :: "declaration_step \<Rightarrow> string list \<Rightarrow> string list" where
  "required_body_field_names d allow =
     (if allowed_body d \<noteq> None then allow
      else case structured_body d of
             Some fs \<Rightarrow> map field (filter (\<lambda>f. opt_or (required f) False) fs)
           | None \<Rightarrow> allow)"

definition check_required :: "string list \<Rightarrow> 'v hmap \<Rightarrow> unit result" where
  "check_required names m =
     (case find (\<lambda>n. \<not> hm_contains m n) names of
        None \<Rightarrow> Inr ()
      | Some n \<Rightarrow> Inl (BadRequest (FieldMissing n)))"

fun json_type_name :: "json \<Rightarrow> string" where
  "json_type_name JNull = ''null''"
| "json_type_name (JBool _) = ''boolean''"
| "json_type_name (JNumber _) = ''number''"
| "json_type_name (JString _) = ''string''"
| "json_type_name (JArray _) = ''array''"
| "json_type_name (JObject _) = ''object''"

definition type_ok :: "string \<Rightarrow> json \<Rightarrow> bool" where
  "type_ok declared v =
     (if declared = ''string'' then (case v of JString _ \<Rightarrow> True | _ \<Rightarrow> False)
      else if declared = ''integer'' then (case v of JNumber n \<Rightarrow> number_integral n | _ \<Rightarrow> False)
      else if declared = ''number'' then (case v of JNumber _ \<Rightarrow> True | _ \<Rightarrow> False)
      else if declared = ''boolean'' then (case v of JBool _ \<Rightarrow> True | _ \<Rightarrow> False)
      else if declared = ''array'' then (case v of JArray _ \<Rightarrow> True | _ \<Rightarrow> False)
      else if declared = ''object'' then (case v of JObject _ \<Rightarrow> True | _ \<Rightarrow> False)
      else True)"

fun check_field_types :: "json hmap \<Rightarrow> dsl_field list \<Rightarrow> string \<Rightarrow> unit result" where
  "check_field_types m [] sec = Inr ()"
| "check_field_types m (f # fs) sec =
     (case field_type f of
        None \<Rightarrow> check_field_types m fs sec
      | Some ty \<Rightarrow>
          (case map_of m (field f) of
             None \<Rightarrow> check_field_types m fs sec
           | Some v \<Rightarrow>
               if v = JNull then check_field_types m fs sec
               else if type_ok ty v then check_field_types m fs sec
               else Inl (BadRequest (FieldTypeMismatch sec (field f) ty (json_type_name v)))))"

definition check_one_of_groups ::
  "string list list option \<Rightarrow> string \<Rightarrow> (string \<Rightarrow> bool) \<Rightarrow> unit result" where
  "check_one_of_groups groups sec present =
     (case groups of
        None \<Rightarrow> Inr ()
      | Some gs \<Rightarrow>
          (case find (\<lambda>g. \<not> list_ex present g) gs of
             None \<Rightarrow> Inr ()
           | Some g \<Rightarrow> Inl (BadRequest (MissingOneOf sec g))))"

definition enforce_required_one_of ::
  "declaration_step \<Rightarrow> json hmap \<Rightarrow> json hmap \<Rightarrow> string hmap \<Rightarrow> unit result" where
  "enforce_required_one_of d body query headers =
     (case Option.bind (dc_allowlist d) al_required_one_of of
        None \<Rightarrow> Inr ()
      | Some one_of \<Rightarrow>
          bindr (check_one_of_groups (roo_body one_of) ''body'' (hm_contains body)) (\<lambda>_.
          bindr (check_one_of_groups (roo_params one_of) ''params'' (hm_contains query)) (\<lambda>_.
          check_one_of_groups (roo_headers one_of) ''headers'' (hm_contains headers))))"

text \<open>The reject-or-filter step shared by the three sections.\<close>

definition restrict_section ::
  "declaration_step \<Rightarrow> string list \<Rightarrow> string list \<Rightarrow> string \<Rightarrow> 'v hmap \<Rightarrow> 'v hmap result" where
  "restrict_section d strict_allow allow sec m =
     (if is_strict d then bindr (reject_unknown_str_keyed m strict_allow sec) (\<lambda>_. Inr m)
      else if \<not> is_additive d then Inr (filter_str_keyed m allow)
      else Inr m)"

type_synonym request_view = "json hmap \<times> json hmap \<times> string hmap"

definition check_body_types :: "declaration_step \<Rightarrow> json hmap \<Rightarrow> unit result" where
  "check_body_types d body =
     (case structured_body d of None \<Rightarrow> Inr () | Some fs \<Rightarrow> check_field_types body fs ''body'')"

definition apply_body :: "declaration_step \<Rightarrow> string \<Rightarrow> json hmap \<Rightarrow> json hmap result" where
  "apply_body d meth body =
     (case effective_allowed_body d of
        None \<Rightarrow> Inr body
      | Some allow \<Rightarrow>
          bindr (restrict_section d allow allow ''body'' body) (\<lambda>b.
          bindr (if meth = ''POST'' then check_required (required_body_field_names d allow) b
                 else Inr ()) (\<lambda>_.
          bindr (check_body_types d b) (\<lambda>_. Inr b))))"

definition apply_params :: "declaration_step \<Rightarrow> string \<Rightarrow> json hmap \<Rightarrow> json hmap result" where
  "apply_params d meth query =
     (case effective_allowed_params d of
        None \<Rightarrow> Inr query
      | Some allow \<Rightarrow>
          bindr (restrict_section d allow allow ''params'' (hm_remove ''pathParams'' query)) (\<lambda>q.
          let q' = (case map_of query ''pathParams'' of
                      None \<Rightarrow> q | Some pp \<Rightarrow> hm_insert ''pathParams'' pp q) in
          bindr (if meth = ''GET'' then
                   (case effective_allowed_body d of
                      None \<Rightarrow> Inr ()
                    | Some allow_body \<Rightarrow>
                        check_required (required_body_field_names d allow_body) q')
                 else Inr ()) (\<lambda>_. Inr q')))"

definition apply_headers :: "declaration_step \<Rightarrow> string \<Rightarrow> string hmap \<Rightarrow> string hmap result" where
  "apply_headers d traceparent headers =
     (case effective_allowed_header d of
        None \<Rightarrow> Inr headers
      | Some allow \<Rightarrow>
          bindr (restrict_section d (allow @ [''traceparent'']) allow ''headers'' headers) (\<lambda>h.
          Inr (if hm_contains h ''traceparent'' then h
               else hm_insert ''traceparent'' traceparent h)))"

definition apply_declaration ::
  "declaration_step \<Rightarrow> json hmap \<Rightarrow> json hmap \<Rightarrow> string hmap \<Rightarrow> string \<Rightarrow> string \<Rightarrow> request_view result"
where
  "apply_declaration d body query headers meth traceparent =
     bindr (apply_body d meth body) (\<lambda>b.
     bindr (enforce_required_one_of d b query headers) (\<lambda>_.
     bindr (apply_params d meth query) (\<lambda>q.
     bindr (apply_headers d traceparent headers) (\<lambda>h. Inr (b, q, h)))))"

definition enforce_guard_declaration ::
  "declaration_step \<Rightarrow> json hmap \<Rightarrow> json hmap \<Rightarrow> string hmap \<Rightarrow> string \<Rightarrow> unit result" where
  "enforce_guard_declaration d body query headers meth =
     bindr (case effective_allowed_body d of
        None \<Rightarrow> Inr ()
      | Some allow \<Rightarrow>
          bindr (if meth = ''POST'' then check_required (required_body_field_names d allow) body
                 else Inr ()) (\<lambda>_. check_body_types d body)) (\<lambda>_.
     bindr (case effective_allowed_params d of
        None \<Rightarrow> Inr ()
      | Some _ \<Rightarrow>
          (if meth = ''GET'' then
             (case effective_allowed_body d of
                None \<Rightarrow> Inr ()
              | Some allow_body \<Rightarrow>
                  check_required (required_body_field_names d allow_body) query)
           else Inr ())) (\<lambda>_.
     enforce_required_one_of d body query headers))"

section \<open>Enforcement lemmas\<close>

lemma find_None_all: "find P xs = None \<longleftrightarrow> (\<forall>x \<in> set xs. \<not> P x)"
  by (auto simp: find_None_iff)

lemma find_Some_in: "find P xs = Some x \<Longrightarrow> x \<in> set xs \<and> P x"
  by (induction xs) (auto split: if_splits)

lemma reject_unknown_ok [decl_simps]:
  "reject_unknown_str_keyed m allowed sec = Inr u \<longleftrightarrow> fst ` set m \<subseteq> set allowed"
  by (auto simp: reject_unknown_str_keyed_def find_None_all image_subset_iff
      split: option.splits dest!: find_Some_in)

lemma reject_unknown_err:
  "reject_unknown_str_keyed m allowed sec = Inl e \<Longrightarrow>
   \<exists>k. k \<in> fst ` set m \<and> k \<notin> set allowed \<and> e = BadRequest (UnexpectedField sec k)"
  by (fastforce simp: reject_unknown_str_keyed_def find_Some_iff split: option.splits
      dest: nth_mem)

lemma check_required_ok [decl_simps]:
  "check_required names m = Inr u \<longleftrightarrow> (\<forall>n \<in> set names. hm_contains m n)"
  by (auto simp: check_required_def find_None_all split: option.splits
      dest!: find_Some_in)

lemma check_one_of_ok [decl_simps]:
  "check_one_of_groups groups sec present = Inr u \<longleftrightarrow>
     (\<forall>gs. groups = Some gs \<longrightarrow> (\<forall>g \<in> set gs. \<exists>n \<in> set g. present n))"
  by (auto simp: check_one_of_groups_def find_None_all list_ex_iff split: option.splits
      dest!: find_Some_in)

lemma check_field_types_ok [decl_simps]:
  "check_field_types m fs sec = Inr u \<longleftrightarrow>
     (\<forall>f \<in> set fs. \<forall>ty v. field_type f = Some ty \<and> map_of m (field f) = Some v \<and> v \<noteq> JNull
        \<longrightarrow> type_ok ty v)"
  by (induction fs) (auto split: option.splits)

lemma filter_str_keyed_get [simp]:
  "map_of (filter_str_keyed m allowed) k = (if k \<in> set allowed then map_of m k else None)"
  by (simp add: filter_str_keyed_def map_of_filter_keys)

lemma hm_contains_filter [simp]:
  "hm_contains (filter_str_keyed m allowed) k \<longleftrightarrow> k \<in> set allowed \<and> hm_contains m k"
  by (simp add: hm_contains_def)

lemma restrict_section_get:
  assumes "restrict_section d sallow allow sec m = Inr m'" "set sallow \<subseteq> set allow \<union> X"
  shows "(\<forall>k v. map_of m' k = Some v \<longrightarrow> map_of m k = Some v) \<and>
    (\<not> is_additive d \<longrightarrow> fst ` set m' \<subseteq> set allow \<union> X) \<and>
    (\<forall>k \<in> set allow. map_of m' k = map_of m k) \<and>
    (is_strict d \<or> is_additive d \<longrightarrow> m' = m)"
  using assms
  by (auto simp: restrict_section_def bindr_Inr_iff reject_unknown_ok filter_str_keyed_def
      map_of_filter_keys split: if_splits)

lemma restrict_section_bad:
  "restrict_section d sallow allow sec m = Inl e \<Longrightarrow> \<exists>r. e = BadRequest r"
  by (auto simp: restrict_section_def bindr_Inl_iff split: if_splits dest: reject_unknown_err)

lemma check_required_bad: "check_required ns m = Inl e \<Longrightarrow> \<exists>r. e = BadRequest r"
  by (auto simp: check_required_def split: option.splits)

lemma check_field_types_bad: "check_field_types m fs sec = Inl e \<Longrightarrow> \<exists>r. e = BadRequest r"
  by (induction fs) (auto split: option.splits if_splits)

lemma check_one_of_bad: "check_one_of_groups gs sec p = Inl e \<Longrightarrow> \<exists>r. e = BadRequest r"
  by (auto simp: check_one_of_groups_def split: option.splits)

lemma enforce_one_of_bad: "enforce_required_one_of d b q h = Inl e \<Longrightarrow> \<exists>r. e = BadRequest r"
  by (auto simp: enforce_required_one_of_def bindr_Inl_iff split: option.splits
      dest: check_one_of_bad)

lemma check_body_types_bad: "check_body_types d b = Inl e \<Longrightarrow> \<exists>r. e = BadRequest r"
  by (auto simp: check_body_types_def split: option.splits dest: check_field_types_bad)

lemmas bad_request_dests = restrict_section_bad check_required_bad check_body_types_bad
  enforce_one_of_bad

lemma apply_body_ok:
  assumes "apply_body d meth body = Inr b" "effective_allowed_body d = Some allow"
  shows "restrict_section d allow allow ''body'' body = Inr b"
    and "meth = ''POST'' \<Longrightarrow> \<forall>n \<in> set (required_body_field_names d allow). hm_contains b n"
    and "check_body_types d b = Inr ()"
  using assms by (auto simp: apply_body_def bindr_Inr_iff check_required_ok split: if_splits)

lemma apply_params_ok:
  assumes "apply_params d meth query = Inr q" "effective_allowed_params d = Some allow"
  obtains q0 where "restrict_section d allow allow ''params'' (hm_remove ''pathParams'' query) = Inr q0"
    and "q = (case map_of query ''pathParams'' of None \<Rightarrow> q0 | Some pp \<Rightarrow> hm_insert ''pathParams'' pp q0)"
  using assms by (auto simp: apply_params_def bindr_Inr_iff Let_def)

lemma apply_headers_ok:
  assumes "apply_headers d tp headers = Inr h" "effective_allowed_header d = Some allow"
  obtains h0 where
    "restrict_section d (allow @ [''traceparent'']) allow ''headers'' headers = Inr h0"
    and "h = (if hm_contains h0 ''traceparent'' then h0 else hm_insert ''traceparent'' tp h0)"
  using assms by (auto simp: apply_headers_def bindr_Inr_iff)

lemma apply_declaration_iff:
  "apply_declaration d body query headers meth tp = Inr (b, q, h) \<longleftrightarrow>
     apply_body d meth body = Inr b \<and> enforce_required_one_of d b query headers = Inr () \<and>
     apply_params d meth query = Inr q \<and> apply_headers d tp headers = Inr h"
  by (auto simp: apply_declaration_def bindr_Inr_iff)

lemma check_encodings_ok:
  "check_encodings es = Inr u \<longleftrightarrow>
     (\<forall>e \<in> set es. to_ascii_lowercase (trim e) \<in> set KNOWN_CONTENT_ENCODINGS)"
  by (induction es) (auto simp: Let_def KNOWN_CONTENT_ENCODINGS_def)

lemma section_check_ok:
  "section_check sec groups declared = Inr u \<longleftrightarrow>
     (\<forall>gs. groups = Some gs \<longrightarrow> (\<forall>n \<in> set (concat gs).
        \<exists>f \<in> set declared. if sec = ''headers'' then eq_ignore_ascii_case f n else f = n))"
  by (auto simp: section_check_def find_None_all list_ex_iff simp del: set_concat
      split: option.splits dest!: find_Some_in)

section \<open>What a DSL can rely on\<close>

lemma hm_remove_get: "map_of (hm_remove k m) j = (if j = k then None else map_of m j)"
  by (simp add: delete_conv')

lemma saved_key_get:
  assumes "\<forall>k v. map_of q0 k = Some v \<longrightarrow> map_of (hm_remove pk m) k = Some v"
    "B \<longrightarrow> fst ` set q0 \<subseteq> A"
    "q = (case map_of m pk of None \<Rightarrow> q0 | Some pp \<Rightarrow> hm_insert pk pp q0)"
  shows "(\<forall>k v. map_of q k = Some v \<longrightarrow> map_of m k = Some v) \<and> (B \<longrightarrow> fst ` set q \<subseteq> A \<union> {pk})"
proof -
  have q0: "k \<noteq> pk \<and> map_of m k = Some v" if "map_of q0 k = Some v" for k v
    using assms(1)[rule_format, OF that] by (simp add: hm_remove_get split: if_splits)
  show ?thesis
  proof (cases "map_of m pk")
    case None
    then show ?thesis using assms(2,3) q0 by auto
  next
    case (Some pp)
    then have "q = hm_insert pk pp q0" using assms(3) by simp
    then show ?thesis using assms(2) q0 Some by (auto simp: update_conv' dom_update split: if_splits)
  qed
qed

lemma apply_params_get:
  assumes "apply_params d meth query = Inr q" "effective_allowed_params d = Some allow"
  shows "(\<forall>k v. map_of q k = Some v \<longrightarrow> map_of query k = Some v) \<and>
    (\<not> is_additive d \<longrightarrow> fst ` set q \<subseteq> set allow \<union> {''pathParams''})"
proof -
  obtain q0 where r: "restrict_section d allow allow ''params'' (hm_remove ''pathParams'' query) = Inr q0"
    and q: "q = (case map_of query ''pathParams'' of None \<Rightarrow> q0
                 | Some pp \<Rightarrow> hm_insert ''pathParams'' pp q0)"
    using assms by (rule apply_params_ok)
  have "\<forall>k v. map_of q0 k = Some v \<longrightarrow> map_of (hm_remove ''pathParams'' query) k = Some v"
    "\<not> is_additive d \<longrightarrow> fst ` set q0 \<subseteq> set allow"
    using restrict_section_get[OF r, of "{}"] by simp_all
  then show ?thesis using q by (rule saved_key_get)
qed

lemma apply_headers_get:
  assumes "apply_headers d tp headers = Inr h" "effective_allowed_header d = Some allow"
  shows "(\<forall>k v. k \<noteq> ''traceparent'' \<longrightarrow> map_of h k = Some v \<longrightarrow> map_of headers k = Some v) \<and>
    (\<not> is_additive d \<longrightarrow> fst ` set h \<subseteq> set allow \<union> {''traceparent''}) \<and>
    hm_contains h ''traceparent''"
proof -
  obtain h0 where
    r: "restrict_section d (allow @ [''traceparent'']) allow ''headers'' headers = Inr h0"
    and h: "h = (if hm_contains h0 ''traceparent'' then h0 else hm_insert ''traceparent'' tp h0)"
    using assms by (rule apply_headers_ok)
  show ?thesis
    using restrict_section_get[OF r, of "{''traceparent''}"] unfolding h
    by (auto simp: update_conv' dom_update)
qed


lemma apply_body_get:
  assumes "apply_body d meth body = Inr b"
  shows "(\<forall>k v. map_of b k = Some v \<longrightarrow> map_of body k = Some v) \<and>
    (\<forall>allow. effective_allowed_body d = Some allow \<and> \<not> is_additive d \<longrightarrow> fst ` set b \<subseteq> set allow) \<and>
    (is_strict d \<or> is_additive d \<longrightarrow> b = body)"
proof (cases "effective_allowed_body d")
  case None
  then show ?thesis using assms by (simp add: apply_body_def)
next
  case (Some allow)
  then show ?thesis
    using restrict_section_get[OF apply_body_ok(1)[OF assms Some], of "{}"] by simp
qed

lemma apply_params_same:
  assumes "apply_params d meth query = Inr q" "is_strict d \<or> is_additive d"
  shows "map_of q = map_of query"
proof (cases "effective_allowed_params d")
  case None
  then show ?thesis using assms by (simp add: apply_params_def)
next
  case (Some allow)
  then obtain q0 where
    "restrict_section d allow allow ''params'' (hm_remove ''pathParams'' query) = Inr q0"
    and q: "q = (case map_of query ''pathParams'' of None \<Rightarrow> q0
                 | Some pp \<Rightarrow> hm_insert ''pathParams'' pp q0)"
    by (rule apply_params_ok[OF assms(1)])
  then have "q0 = hm_remove ''pathParams'' query"
    using restrict_section_get[of d allow allow _ _ q0 "{}"] assms(2) by simp
  then show ?thesis
    unfolding q by (auto simp: update_conv' delete_conv' fun_eq_iff split: option.splits)
qed

lemma apply_body_bad: "apply_body d meth body = Inl e \<Longrightarrow> \<exists>r. e = BadRequest r"
  by (auto simp: apply_body_def bindr_Inl_iff split: option.splits if_splits
      dest: bad_request_dests)

lemma apply_params_bad: "apply_params d meth query = Inl e \<Longrightarrow> \<exists>r. e = BadRequest r"
  by (auto simp: apply_params_def bindr_Inl_iff Let_def split: option.splits if_splits
      dest: bad_request_dests)

lemma apply_headers_bad: "apply_headers d tp headers = Inl e \<Longrightarrow> \<exists>r. e = BadRequest r"
  by (auto simp: apply_headers_def bindr_Inl_iff split: option.splits dest: bad_request_dests)

lemma enforce_guard_bad:
  "enforce_guard_declaration d body query headers meth = Inl e \<Longrightarrow> \<exists>r. e = BadRequest r"
  by (auto simp: enforce_guard_declaration_def bindr_Inl_iff split: option.splits if_splits
      dest: bad_request_dests)

lemma apply_declaration_bad:
  "apply_declaration d body query headers meth tp = Inl e \<Longrightarrow> \<exists>r. e = BadRequest r"
  by (auto simp: apply_declaration_def bindr_Inl_iff
      dest: apply_body_bad apply_params_bad apply_headers_bad enforce_one_of_bad)

section \<open>Properties\<close>

text \<open>A declaration with nothing declared, from which the examples are built.\<close>

definition base_default :: base_step_fields where
  "base_default = \<lparr>skip = None, sleep = None, max_recursions = None, reload_dsl = None\<rparr>"

definition declaration_default :: declaration_step where
  "declaration_default = \<lparr>dc_version = None, dc_description = None, dc_namespace = None,
     allowed_body = None, allowed_header = None, allowed_params = None, dc_allowlist = None,
     dc_returns = None, strict = None, additive = None, override_ancestors = None, proxy = None,
     internal = None, dc_base = base_default\<rparr>"

lemmas example_simps = declaration_default_def base_default_def effective_allowed_body_def
  effective_allowed_params_def effective_allowed_header_def structured_body_def is_strict_def
  is_additive_def apply_declaration_def apply_body_def apply_params_def apply_headers_def
  restrict_section_def filter_str_keyed_def reject_unknown_str_keyed_def
  required_body_field_names_def check_required_def check_body_types_def
  enforce_required_one_of_def check_one_of_groups_def enforce_guard_declaration_def type_ok_def



text \<open>
  A strict declaration never reshapes the request: it is accepted with every body and query
  entry as it was and every header but \<open>traceparent\<close> as it was, or rejected; one undeclared
  body key is enough for a rejection, and that rejection is a client error.
\<close>

theorem strict_accepts_or_rejects:
  assumes "is_strict d"
  shows "(\<forall>b q h. apply_declaration d body query headers meth tp = Inr (b, q, h) \<longrightarrow>
            b = body \<and> map_of q = map_of query \<and>
            (\<forall>k. k \<noteq> ''traceparent'' \<longrightarrow> map_of h k = map_of headers k)) \<and>
    (\<forall>allow k. effective_allowed_body d = Some allow \<and> hm_contains body k \<and> k \<notin> set allow \<longrightarrow>
       (\<exists>k'. apply_declaration d body query headers meth tp
               = Inl (BadRequest (UnexpectedField ''body'' k')) \<and> k' \<notin> set allow))"
proof (intro conjI allI impI)
  fix b q h
  assume ok: "apply_declaration d body query headers meth tp = Inr (b, q, h)"
  then have b: "apply_body d meth body = Inr b" and q: "apply_params d meth query = Inr q"
    and h: "apply_headers d tp headers = Inr h"
    by (simp_all add: apply_declaration_iff)
  show "b = body" using apply_body_get[OF b] assms by simp
  show "map_of q = map_of query" using apply_params_same[OF q] assms by simp
  fix k :: string
  assume "k \<noteq> ''traceparent''"
  then show "map_of h k = map_of headers k"
    using h assms
    by (auto simp: apply_headers_def restrict_section_def bindr_Inr_iff update_conv'
        split: option.splits if_splits)
next
  fix allow k
  assume "effective_allowed_body d = Some allow \<and> hm_contains body k \<and> k \<notin> set allow"
  then have allow: "effective_allowed_body d = Some allow"
    and bad: "\<not> fst ` set body \<subseteq> set allow" by (auto simp: hm_contains_iff)
  have "reject_unknown_str_keyed body allow ''body'' \<noteq> Inr ()"
    using bad by (simp add: reject_unknown_ok)
  then obtain e where e: "reject_unknown_str_keyed body allow ''body'' = Inl e"
    by (cases "reject_unknown_str_keyed body allow ''body''") simp_all
  then show "\<exists>k'. apply_declaration d body query headers meth tp
      = Inl (BadRequest (UnexpectedField ''body'' k')) \<and> k' \<notin> set allow"
    using reject_unknown_err[OF e] assms allow
    by (auto simp: apply_declaration_def apply_body_def restrict_section_def)
qed

theorem strict_accepts_or_rejects_witness:
  "(let d = declaration_default\<lparr>strict := Some True, allowed_body := Some [''id'']\<rparr> in
    is_strict d \<and> (\<exists>k'. apply_declaration d [(''x'', JNull)] [] [] ''POST'' ''tp''
      = Inl (BadRequest (UnexpectedField ''body'' k')) \<and> k' \<notin> {''id''}))"
  using strict_accepts_or_rejects
    [of "declaration_default\<lparr>strict := Some True, allowed_body := Some [''id'']\<rparr>"
        "[(''x'', JNull)]" "[]" "[]" "''POST''" "''tp''"]
  by (simp add: is_strict_def declaration_default_def effective_allowed_body_def Let_def)

text \<open>
  Enforcement, of a guard or of the terminal DSL, fails only with \<open>BadRequest\<close>: a breach of
  the declared contract is always the client's error (400), never a server error.
\<close>

theorem declaration_errors_are_client_errors:
  assumes "apply_declaration d body query headers meth tp = Inl e \<or>
    enforce_guard_declaration d body query headers meth = Inl e"
  shows "\<exists>r. e = BadRequest r"
  using assms apply_declaration_bad enforce_guard_bad by blast

theorem declaration_errors_are_client_errors_witness:
  "(let d = declaration_default\<lparr>allowed_body := Some [''id'']\<rparr> in
    apply_declaration d [] [] [] ''POST'' ''tp'' = Inl (BadRequest (FieldMissing ''id'')) \<and>
    (\<exists>r. BadRequest (FieldMissing ''id'') = BadRequest r))"
  using declaration_errors_are_client_errors
    [of "declaration_default\<lparr>allowed_body := Some [''id'']\<rparr>" "[]" "[]" "[]" "''POST''" "''tp''"
        "BadRequest (FieldMissing ''id'')"]
  by (simp add: example_simps Let_def)

text \<open>
  What an accepted request guarantees: for a POST every required body field is present; every
  body field with a declared type has a value of that type or null; and every
  \<open>required_one_of\<close> group of the three sections has a member in the request.
\<close>

theorem accepted_request_guarantees:
  assumes "apply_declaration d body query headers meth tp = Inr (b, q, h)"
    and "effective_allowed_body d = Some allow"
  shows "(meth = ''POST'' \<longrightarrow> (\<forall>n \<in> set (required_body_field_names d allow). hm_contains b n)) \<and>
    (\<forall>fs f ty v. structured_body d = Some fs \<and> f \<in> set fs \<and> field_type f = Some ty \<and>
        map_of b (field f) = Some v \<longrightarrow> v = JNull \<or> type_ok ty v) \<and>
    (\<forall>a g. dc_allowlist d = Some a \<and> al_required_one_of a = Some g \<longrightarrow>
       (\<forall>gs. roo_body g = Some gs \<longrightarrow> (\<forall>ns \<in> set gs. \<exists>n \<in> set ns. hm_contains b n)) \<and>
       (\<forall>gs. roo_params g = Some gs \<longrightarrow> (\<forall>ns \<in> set gs. \<exists>n \<in> set ns. hm_contains query n)) \<and>
       (\<forall>gs. roo_headers g = Some gs \<longrightarrow> (\<forall>ns \<in> set gs. \<exists>n \<in> set ns. hm_contains headers n)))"
proof -
  have b: "apply_body d meth body = Inr b" and one: "enforce_required_one_of d b query headers = Inr ()"
    using assms(1) by (simp_all add: apply_declaration_iff)
  have "check_body_types d b = Inr ()" by (rule apply_body_ok(3)[OF b assms(2)])
  then have ty: "structured_body d = Some fs \<and> f \<in> set fs \<and> field_type f = Some t \<and>
      map_of b (field f) = Some v \<longrightarrow> v = JNull \<or> type_ok t v" for fs f t v
    using check_field_types_ok[of b fs "''body''" "()"] by (fastforce simp: check_body_types_def)
  have "dc_allowlist d = Some a \<and> al_required_one_of a = Some g \<longrightarrow>
      check_one_of_groups (roo_body g) ''body'' (hm_contains b) = Inr () \<and>
      check_one_of_groups (roo_params g) ''params'' (hm_contains query) = Inr () \<and>
      check_one_of_groups (roo_headers g) ''headers'' (hm_contains headers) = Inr ()" for a g
    using one by (auto simp: enforce_required_one_of_def bindr_Inr_iff)
  then show ?thesis
    using apply_body_ok(2)[OF b assms(2)] ty unfolding check_one_of_ok by blast
qed

theorem accepted_request_guarantees_witness:
  "(let d = declaration_default\<lparr>allowed_body := Some [''id'']\<rparr>; r = [(''id'', JString ''7'')] in
    apply_declaration d r [] [] ''POST'' ''tp'' = Inr (r, [], []) \<and>
    (\<forall>n \<in> {''id''}. hm_contains r n))"
  using accepted_request_guarantees
    [of "declaration_default\<lparr>allowed_body := Some [''id'']\<rparr>" "[(''id'', JString ''7'')]" "[]" "[]"
        "''POST''" "''tp''" "[(''id'', JString ''7'')]" "[]" "[]" "[''id'']"]
  by (simp add: example_simps Let_def)

text \<open>
  Guard enforcement and terminal enforcement are the same contract where neither filters: a
  guard whose declaration is additive (and so not strict) accepts a request exactly when a
  terminal DSL with that declaration would.
\<close>

theorem guard_and_terminal_enforcement_agree:
  assumes "is_additive d" "\<not> is_strict d"
  shows "enforce_guard_declaration d body query headers meth = Inr () \<longleftrightarrow>
    (\<exists>v. apply_declaration d body query headers meth tp = Inr v)"
proof -
  have r: "restrict_section d a a' sec m = Inr m" for a a' sec and m :: "'v hmap"
    using assms by (simp add: restrict_section_def)
  have q: "hm_contains (case map_of query ''pathParams'' of None \<Rightarrow> hm_remove ''pathParams'' query
      | Some pp \<Rightarrow> hm_insert ''pathParams'' pp (hm_remove ''pathParams'' query)) n
      \<longleftrightarrow> hm_contains query n" for n
    by (auto simp: hm_contains_def delete_conv' update_conv' split: option.splits)
  have body: "(\<exists>b. apply_body d meth body = Inr b \<and> P b) \<longleftrightarrow>
      apply_body d meth body = Inr body \<and> P body" for P
    using apply_body_get[of d meth body] assms by auto
  have params: "(\<exists>q. apply_params d meth query = Inr q) \<longleftrightarrow>
      (effective_allowed_params d \<noteq> None \<and> meth = ''GET'' \<longrightarrow>
         (\<forall>allow. effective_allowed_body d = Some allow \<longrightarrow>
            (\<forall>n \<in> set (required_body_field_names d allow). hm_contains query n)))"
    by (auto simp: apply_params_def r bindr_Inr_iff Let_def check_required_ok q
        split: option.splits)
  have headers: "\<exists>h. apply_headers d tp headers = Inr h"
    by (simp add: apply_headers_def r split: option.splits)
  have "(\<exists>v. apply_declaration d body query headers meth tp = Inr v) \<longleftrightarrow>
      apply_body d meth body = Inr body \<and> enforce_required_one_of d body query headers = Inr () \<and>
      (\<exists>q. apply_params d meth query = Inr q)"
    using headers body by (auto simp: apply_declaration_def bindr_Inr_iff)
  then show ?thesis
    unfolding params enforce_guard_declaration_def
    by (auto simp: bindr_Inr_iff apply_body_def r check_required_ok split: option.splits)
qed

theorem guard_and_terminal_enforcement_agree_witness:
  "(let d = declaration_default\<lparr>additive := Some True, allowed_body := Some [''id'']\<rparr> in
    is_additive d \<and> \<not> is_strict d \<and> (enforce_guard_declaration d [] [] [] ''POST'' = Inr () \<longleftrightarrow>
      (\<exists>v. apply_declaration d [] [] [] ''POST'' ''tp'' = Inr v)))"
  using guard_and_terminal_enforcement_agree
    [of "declaration_default\<lparr>additive := Some True, allowed_body := Some [''id'']\<rparr>"
        "[]" "[]" "[]" "''POST''" "''tp''"]
  by (simp add: is_strict_def is_additive_def declaration_default_def Let_def)

text \<open>
  What the parse-time check promises of a declaration it accepts: strict and additive are
  exclusive, a strict declaration has an allowlist to be strict about, every member of a
  \<open>required_one_of\<close> group is declared in its section, and a proxy declaration has no body
  allowlist, an upstream, a positive body limit and only known content encodings.
\<close>

theorem validate_posture_sound:
  assumes "validate_posture d = Inr ()"
  shows "\<not> (is_strict d \<and> is_additive d) \<and>
    (is_strict d \<longrightarrow> effective_allowed_body d \<noteq> None \<or> effective_allowed_params d \<noteq> None \<or>
       effective_allowed_header d \<noteq> None) \<and>
    (\<forall>a g gs n. dc_allowlist d = Some a \<and> al_required_one_of a = Some g \<and> roo_body g = Some gs \<and>
       n \<in> set (concat gs) \<longrightarrow> n \<in> set (opt_fields (al_body a))) \<and>
    (\<forall>px. proxy d = Some px \<longrightarrow>
       effective_allowed_body d = None \<and> trim (upstream px) \<noteq> [] \<and> 0 < max_body_bytes px \<and>
       (\<forall>e \<in> set (allowed_encodings px).
          to_ascii_lowercase (trim e) \<in> set KNOWN_CONTENT_ENCODINGS))"
proof -
  have has: "has_allowlist d \<longleftrightarrow> effective_allowed_body d \<noteq> None \<or>
      effective_allowed_params d \<noteq> None \<or> effective_allowed_header d \<noteq> None"
    by (auto simp: has_allowlist_def effective_allowed_body_def effective_allowed_params_def
        effective_allowed_header_def split: option.splits)
  have "\<not> (is_strict d \<and> is_additive d)" "is_strict d \<longrightarrow> has_allowlist d"
    using assms by (simp_all add: validate_posture_def bindr_Inr_iff)
  moreover have "n \<in> set (opt_fields (al_body a))"
    if "dc_allowlist d = Some a" "al_required_one_of a = Some g" "roo_body g = Some gs"
      "n \<in> set (concat gs)" for a g gs n
    using assms that by (auto simp: validate_posture_def bindr_Inr_iff section_check_ok)
  moreover have "effective_allowed_body d = None \<and> trim (upstream px) \<noteq> [] \<and>
      0 < max_body_bytes px \<and> (\<forall>e \<in> set (allowed_encodings px).
          to_ascii_lowercase (trim e) \<in> set KNOWN_CONTENT_ENCODINGS)"
    if "proxy d = Some px" for px
    using assms that
    by (auto simp: validate_posture_def bindr_Inr_iff check_encodings_ok word_neq_0_conv
        effective_allowed_body_def)
  ultimately show ?thesis unfolding has by blast
qed

theorem validate_posture_sound_witness:
  "(let d = declaration_default\<lparr>strict := Some True, allowed_body := Some []\<rparr> in
    validate_posture d = Inr () \<and> is_strict d \<and> \<not> (is_strict d \<and> is_additive d))"
  using validate_posture_sound
    [of "declaration_default\<lparr>strict := Some True, allowed_body := Some []\<rparr>"]
  by (simp add: validate_posture_def has_allowlist_def is_strict_def is_additive_def
      declaration_default_def ensure_def Let_def)

text \<open>
  A contract no request can meet passes the parse-time check. The check matches
  \<open>required_one_of.headers\<close> against the allowlist ignoring case; enforcement looks the same names
  up exactly in a header map whose names arrive in lower case. So a group whose names all contain
  an upper-case letter rejects every request.
\<close>

theorem one_of_header_case_unsatisfiable:
  assumes "dc_allowlist d = Some a" "al_required_one_of a = Some g" "roo_headers g = Some gs"
    and "ns \<in> set gs" "\<forall>n \<in> set ns. to_ascii_lowercase n \<noteq> n"
    and lower: "\<forall>k. hm_contains headers k \<longrightarrow> to_ascii_lowercase k = k"
  shows "\<exists>r. apply_declaration d body query headers meth tp = Inl (BadRequest r)"
proof -
  have "check_one_of_groups (roo_headers g) ''headers'' (hm_contains headers) \<noteq> Inr ()"
    using assms(3-6) by (auto simp: check_one_of_ok)
  then have "enforce_required_one_of d b query headers \<noteq> Inr ()" for b
    using assms(1,2) by (simp add: enforce_required_one_of_def bindr_Inr_iff)
  then have "apply_declaration d body query headers meth tp \<noteq> Inr v" for v
    by (cases v) (simp add: apply_declaration_iff)
  then show ?thesis
    using apply_declaration_bad by (cases "apply_declaration d body query headers meth tp") blast+
qed

lemma x_key_lower:
  "to_ascii_lowercase ''X-Key'' = ''x-key''" "to_ascii_lowercase ''x-key'' = ''x-key''"
  by code_simp+

theorem one_of_header_case_unsatisfiable_witness:
  "(let d = declaration_default\<lparr>dc_allowlist := Some \<lparr>al_body = None,
          al_headers = Some [DslField ''X-Key'' None None None None None None], al_params = None,
          al_required_one_of = Some \<lparr>roo_body = None, roo_headers = Some [[''X-Key'']],
            roo_params = None\<rparr>\<rparr>\<rparr> in
    validate_posture d = Inr () \<and>
    (\<exists>r. apply_declaration d [] [] [(''x-key'', ''secret'')] ''GET'' ''tp'' = Inl (BadRequest r)))"
  using one_of_header_case_unsatisfiable
    [of "declaration_default\<lparr>dc_allowlist := Some \<lparr>al_body = None,
          al_headers = Some [DslField ''X-Key'' None None None None None None], al_params = None,
          al_required_one_of = Some \<lparr>roo_body = None, roo_headers = Some [[''X-Key'']],
            roo_params = None\<rparr>\<rparr>\<rparr>"
        "\<lparr>al_body = None,
          al_headers = Some [DslField ''X-Key'' None None None None None None], al_params = None,
          al_required_one_of = Some \<lparr>roo_body = None, roo_headers = Some [[''X-Key'']],
            roo_params = None\<rparr>\<rparr>"
        "\<lparr>roo_body = None, roo_headers = Some [[''X-Key'']], roo_params = None\<rparr>"
        "[[''X-Key'']]" "[''X-Key'']" "[(''x-key'', ''secret'')]" "[]" "[]" "''GET''" "''tp''"]
  by (simp add: validate_posture_def section_check_def eq_ignore_ascii_case_def is_strict_def
      is_additive_def declaration_default_def ensure_def opt_fields_def x_key_lower Let_def)

end
