(* ===== verification/Routing.thy ===== *)
theory Routing
  imports Declaration
begin

text \<open>
  Request routing (\<open>src/router/mod.rs\<close>): from a URL to a DSL, the key it was found under and the
  path parameters; the methods a path answers to; the origin of a request behind proxies; the
  trace id; the CSRF origin check. The lemmas show that resolution is a longest-prefix match that
  accounts for every path segment, that the list behind \<open>Allow\<close> agrees with resolution, that an
  internal self-call and an external request for one URL resolve alike, and when forwarded
  headers decide the origin.
\<close>

section \<open>Resolution\<close>

definition dsl_key_for :: "string \<Rightarrow> string list \<Rightarrow> string" where
  "dsl_key_for meth segments = meth @ ''/'' @ join_with ''/'' segments"

function resolve_loop ::
  "'d hmap \<Rightarrow> string \<Rightarrow> string list \<Rightarrow> string list \<Rightarrow> ('d \<times> string \<times> string list) option" where
  "resolve_loop by_method meth segments stripped =
     (if segments = [] then None
      else let candidate = dsl_key_for meth segments in
        (case map_of by_method candidate of
           Some d \<Rightarrow> Some (d, candidate, stripped)
         | None \<Rightarrow> resolve_loop by_method meth (butlast segments) (last segments # stripped)))"
  by pat_completeness auto
termination
  by (relation "measure (\<lambda>(_, _, segments, _). length segments)") auto

definition resolve_dsl_with_path_params ::
  "'d hmap hmap hmap \<Rightarrow> string \<Rightarrow> string \<Rightarrow> string \<Rightarrow> ('d \<times> string \<times> string list) option" where
  "resolve_dsl_with_path_params snapshot project meth path =
     Option.bind (Option.bind (map_of snapshot project) (\<lambda>ms. map_of ms meth))
       (\<lambda>by_method. resolve_loop by_method meth (path_segments path) [])"

function path_registered :: "'d hmap option \<Rightarrow> string \<Rightarrow> string list \<Rightarrow> bool" where
  "path_registered dsls meth segments =
     (if segments = [] then False
      else if (case dsls of None \<Rightarrow> False
               | Some m \<Rightarrow> hm_contains m (dsl_key_for meth segments)) then True
      else path_registered dsls meth (butlast segments))"
  by pat_completeness auto
termination
  by (relation "measure (\<lambda>(_, _, segments). length segments)") auto

definition methods_allowed_for_path :: "'d hmap hmap hmap \<Rightarrow> string \<Rightarrow> string \<Rightarrow> string list" where
  "methods_allowed_for_path snapshot project path =
     (case map_of snapshot project of
        None \<Rightarrow> []
      | Some by_method \<Rightarrow>
          sort (filter (\<lambda>m. path_registered (map_of by_method m) m (path_segments path))
            (map fst by_method)))"

text \<open>The split of \<open>execute_by_url\<close>: leading slashes dropped, then at the first slash.\<close>

definition split_project :: "string \<Rightarrow> string \<times> string" where
  "split_project url_path =
     (let trimmed = dropWhile (\<lambda>c. c = CHR ''/'') url_path;
          project = takeWhile (\<lambda>c. c \<noteq> CHR ''/'') trimmed
      in (project, drop (Suc (length project)) trimmed))"

text \<open>The split of \<open>handle_request\<close>: the first segment, and the rest joined again.\<close>

definition split_request_path :: "string \<Rightarrow> (string \<times> string) option" where
  "split_request_path uri_path =
     (case path_segments uri_path of
        [] \<Rightarrow> None
      | project # rest \<Rightarrow> Some (project, join_with ''/'' rest))"

section \<open>Origins, traces and CSRF\<close>

text \<open>
  \<open>IpAddr\<close> as its bits; \<open>to_ipv4_mapped\<close> recognises \<open>::ffff:a.b.c.d\<close>. Parsing and printing an
  address are the standard library's and are parameters of \<open>resolve_origin\<close>.
\<close>

datatype ip_addr = V4 u32 | V6 "128 word"

definition canonicalise_ip :: "ip_addr \<Rightarrow> ip_addr" where
  "canonicalise_ip ip =
     (case ip of
        V6 v6 \<Rightarrow> if drop_bit 32 v6 = 0xFFFF then V4 (ucast v6) else V6 v6
      | V4 v4 \<Rightarrow> V4 v4)"

definition resolve_origin ::
  "(string \<Rightarrow> ip_addr option) \<Rightarrow> (ip_addr \<Rightarrow> string) \<Rightarrow>
   string hmap \<Rightarrow> ip_addr option \<Rightarrow> string list \<Rightarrow> string" where
  "resolve_origin parse_ip show_ip headers_map peer_addr trusted_proxies =
     (let peer_ip_canon = map_option canonicalise_ip peer_addr;
          trusted_parsed = List.map_filter (\<lambda>t. map_option canonicalise_ip (parse_ip t)) trusted_proxies;
          peer_is_trusted = (case peer_ip_canon of Some ip \<Rightarrow> ip \<in> set trusted_parsed | None \<Rightarrow> False);
          xff = Option.bind (map_of headers_map ''x-forwarded-for'')
            (\<lambda>v. let s = trim (hd (split_on CHR '','' v)) in if s = [] then None else Some s);
          chosen = (case xff of Some s \<Rightarrow> Some s
            | None \<Rightarrow> map_option trim (map_of headers_map ''x-real-ip''));
          candidate = map_option canonicalise_ip (Option.bind chosen parse_ip)
      in case (if peer_is_trusted then candidate else None) of
           Some ip \<Rightarrow> show_ip ip
         | None \<Rightarrow> (case peer_ip_canon of Some ip \<Rightarrow> show_ip ip | None \<Rightarrow> ''unknown''))"

text \<open>\<open>str::splitn\<close>: at most \<open>n\<close> pieces, the last one unsplit.\<close>

fun splitn :: "nat \<Rightarrow> char \<Rightarrow> string \<Rightarrow> string list" where
  "splitn 0 c s = []"
| "splitn (Suc 0) c s = [s]"
| "splitn (Suc (Suc n)) c s =
     (let w = takeWhile (\<lambda>x. x \<noteq> c) s in
      if w = s then [s] else w # splitn (Suc n) c (drop (Suc (length w)) s))"

definition trace_id_from :: "string \<Rightarrow> string option" where
  "trace_id_from traceparent =
     (let parts = splitn 4 CHR ''-'' traceparent in
      if length parts = 4 \<and> length (parts ! 1) = 32 then Some (parts ! 1) else None)"

text \<open>\<open>referer_origin\<close> is the scheme, host and port of a parsed \<open>Referer\<close> (crate \<open>url\<close>).\<close>

definition origin_allowed ::
  "(string \<Rightarrow> string option) \<Rightarrow> string hmap \<Rightarrow> string list \<Rightarrow> bool" where
  "origin_allowed referer_origin headers allowed =
     (case map_of headers ''origin'' of
        Some o' \<Rightarrow> o' \<in> set allowed
      | None \<Rightarrow>
          (case Option.bind (map_of headers ''referer'') referer_origin of
             Some o' \<Rightarrow> o' \<in> set allowed
           | None \<Rightarrow> False))"

section \<open>Path lemmas\<close>

declare resolve_loop.simps [simp del] path_registered.simps [simp del]

lemma butlast_take_prefix:
  "segments \<noteq> [] \<Longrightarrow> n \<le> length (butlast segments) \<Longrightarrow> take n (butlast segments) = take n segments"
  by (simp add: butlast_conv_take)

lemma drop_butlast_snoc:
  assumes "segments \<noteq> []" "n \<le> length (butlast segments)"
  shows "drop n (butlast segments) @ last segments # stripped = drop n segments @ stripped"
proof -
  have "segments = butlast segments @ [last segments]" using assms(1) by simp
  then have "drop n segments = drop n (butlast segments) @ [last segments]"
    using assms(2) by (metis drop_append diff_is_0_eq drop0)
  then show ?thesis by simp
qed

lemma resolve_loop_Some:
  assumes "resolve_loop bm meth segments stripped = Some (d, key, pp)"
  shows "\<exists>n. 0 < n \<and> n \<le> length segments \<and> key = dsl_key_for meth (take n segments) \<and>
    map_of bm key = Some d \<and> pp = drop n segments @ stripped \<and>
    (\<forall>k. n < k \<and> k \<le> length segments \<longrightarrow> map_of bm (dsl_key_for meth (take k segments)) = None)"
  using assms
proof (induction bm meth segments stripped rule: resolve_loop.induct)
  case (1 bm meth segments stripped)
  have ne: "segments \<noteq> []" using "1.prems" by (auto simp: resolve_loop.simps)
  show ?case
  proof (cases "map_of bm (dsl_key_for meth segments)")
    case (Some d')
    then show ?thesis
      using "1.prems" ne by (auto simp: resolve_loop.simps[of bm meth segments] Let_def
        intro!: exI[of _ "length segments"])
  next
    case None
    then obtain n where n: "0 < n" "n \<le> length (butlast segments)"
      "key = dsl_key_for meth (take n (butlast segments))" "map_of bm key = Some d"
      "pp = drop n (butlast segments) @ last segments # stripped"
      "\<And>k. n < k \<and> k \<le> length (butlast segments) \<Longrightarrow>
         map_of bm (dsl_key_for meth (take k (butlast segments))) = None"
      using "1.IH"[OF ne refl None] "1.prems" ne
      by (auto simp: resolve_loop.simps[of bm meth segments] Let_def)
    have "map_of bm (dsl_key_for meth (take k segments)) = None"
      if "n < k" "k \<le> length segments" for k
      using n(6)[of k] None that ne butlast_take_prefix[OF ne, of k]
      by (cases "k = length segments") (simp_all, linarith?)
    then show ?thesis
      using n(1-5) ne by (auto simp: butlast_take_prefix drop_butlast_snoc intro!: exI[of _ n])
  qed
qed

lemma prefixes_snoc:
  "(\<forall>k. 0 < k \<and> k \<le> length (xs @ [x]) \<longrightarrow> P (take k (xs @ [x]))) \<longleftrightarrow>
   P (xs @ [x]) \<and> (\<forall>k. 0 < k \<and> k \<le> length xs \<longrightarrow> P (take k xs))"
proof (intro iffI conjI allI impI)
  assume all: "\<forall>k. 0 < k \<and> k \<le> length (xs @ [x]) \<longrightarrow> P (take k (xs @ [x]))"
  show "P (xs @ [x])" using all[rule_format, of "length (xs @ [x])"] by simp
  fix k
  assume "0 < k \<and> k \<le> length xs"
  then show "P (take k xs)" using all[rule_format, of k] by simp
next
  fix k
  assume "P (xs @ [x]) \<and> (\<forall>k. 0 < k \<and> k \<le> length xs \<longrightarrow> P (take k xs))"
    and "0 < k \<and> k \<le> length (xs @ [x])"
  then show "P (take k (xs @ [x]))" by (cases "k \<le> length xs") (auto simp: not_le)
qed

lemma resolve_loop_None:
  "resolve_loop bm meth segments stripped = None \<longleftrightarrow>
   (\<forall>k. 0 < k \<and> k \<le> length segments \<longrightarrow> map_of bm (dsl_key_for meth (take k segments)) = None)"
proof (induction segments arbitrary: stripped rule: rev_induct)
  case Nil
  then show ?case by (simp add: resolve_loop.simps)
next
  case (snoc x xs)
  show ?case
    unfolding prefixes_snoc[where P = "\<lambda>s. map_of bm (dsl_key_for meth s) = None"]
      snoc.IH[of "x # stripped", symmetric]
    by (auto simp: resolve_loop.simps[of bm meth "xs @ [x]"] Let_def split: option.splits)
qed

lemma path_registered_iff:
  "path_registered (Some bm) meth segments \<longleftrightarrow> resolve_loop bm meth segments [] \<noteq> None"
proof (induction segments rule: rev_induct)
  case Nil
  then show ?case by (simp add: path_registered.simps resolve_loop.simps)
next
  case (snoc x xs)
  then show ?case
    unfolding resolve_loop_None prefixes_snoc[where P = "\<lambda>s. map_of bm (dsl_key_for meth s) = None"]
    by (subst path_registered.simps) (auto simp: hm_contains_def)
qed

lemma resolve_path_segments:
  "path_segments p = path_segments p' \<Longrightarrow>
   resolve_dsl_with_path_params snapshot project meth p =
   resolve_dsl_with_path_params snapshot project meth p'"
  by (simp add: resolve_dsl_with_path_params_def)

lemma split_on_no_sep: "c \<notin> set s \<Longrightarrow> split_on c s = [s]"
  by (induction s) auto

lemma split_on_sep: "c \<notin> set w \<Longrightarrow> split_on c (w @ c # s) = w # split_on c s"
  by (induction w) auto

lemma split_on_pieces: "w \<in> set (split_on c s) \<Longrightarrow> c \<notin> set w"
  by (induction s arbitrary: w) (auto split: if_splits list.splits)

lemma path_segments_slash [simp]: "path_segments (CHR ''/'' # p) = path_segments p"
  by (simp add: path_segments_def)

lemma path_segments_drop: "path_segments (dropWhile (\<lambda>c. c = CHR ''/'') p) = path_segments p"
  by (induction p) auto

lemma path_segments_join:
  "\<forall>w \<in> set ws. w \<noteq> [] \<and> CHR ''/'' \<notin> set w \<Longrightarrow> path_segments (join_with ''/'' ws) = ws"
proof (induction "''/''" ws rule: join_with.induct)
  case (3 w v vs)
  then show ?case by (simp add: path_segments_def split_on_sep)
qed (simp_all add: path_segments_def split_on_no_sep)

lemma path_segments_wf: "w \<in> set (path_segments p) \<Longrightarrow> w \<noteq> [] \<and> CHR ''/'' \<notin> set w"
  by (auto simp: path_segments_def dest: split_on_pieces)

lemma takeWhile_split:
  "takeWhile P t \<noteq> t \<Longrightarrow> \<exists>y z. t = takeWhile P t @ y # z \<and> \<not> P y"
  by (induction t) auto

lemma split_project_segments:
  assumes "split_project p = (project, rest)" "project \<noteq> []"
  shows "path_segments p = project # path_segments rest"
proof -
  define t where "t = dropWhile (\<lambda>c. c = CHR ''/'') p"
  have project: "project = takeWhile (\<lambda>c. c \<noteq> CHR ''/'') t"
    and rest: "rest = drop (Suc (length project)) t"
    using assms(1) by (auto simp: split_project_def t_def Let_def)
  have free: "CHR ''/'' \<notin> set project" unfolding project by (auto dest: set_takeWhileD)
  have "path_segments t = project # path_segments rest"
  proof (cases "project = t")
    case True
    then show ?thesis
      using free assms(2) rest by (simp add: path_segments_def split_on_no_sep)
  next
    case False
    then obtain z where "t = project @ CHR ''/'' # z"
      using takeWhile_split[of "\<lambda>c. c \<noteq> CHR ''/''" t] unfolding project by auto
    then show ?thesis
      using free assms(2) rest by (simp add: path_segments_def split_on_sep)
  qed
  then show ?thesis by (simp add: t_def path_segments_drop)
qed

lemma dropWhile_takeWhile_empty:
  "takeWhile (\<lambda>c. \<not> P c) (dropWhile P xs) = [] \<Longrightarrow> dropWhile P xs = []"
  by (cases "dropWhile P xs") (auto simp: dropWhile_eq_Cons_conv)

lemma split_project_empty:
  assumes "split_project p = ([], rest)"
  shows "path_segments p = []"
proof -
  have "takeWhile (\<lambda>c. c \<noteq> CHR ''/'') (dropWhile (\<lambda>c. c = CHR ''/'') p) = []"
    using assms by (simp add: split_project_def Let_def)
  then have "dropWhile (\<lambda>c. c = CHR ''/'') p = []" by (rule dropWhile_takeWhile_empty)
  then have "path_segments p = path_segments []" using path_segments_drop[of p] by metis
  then show ?thesis by (simp add: path_segments_def)
qed

section \<open>Properties\<close>

text \<open>
  C24. Resolution is a longest-prefix match that loses no segment: a result is the DSL registered
  under the method and the first \<open>n\<close> non-empty segments of the path, no longer prefix is
  registered, and the path parameters are exactly the remaining segments, in URL order; and
  without a result no non-empty prefix of the path is registered.
\<close>

theorem resolve_longest_prefix:
  assumes "map_of snapshot project = Some methods" "map_of methods meth = Some by_method"
  shows "(\<forall>d key pp. resolve_dsl_with_path_params snapshot project meth path = Some (d, key, pp) \<longrightarrow>
      (\<exists>n. 0 < n \<and> n \<le> length (path_segments path) \<and> map_of by_method key = Some d \<and>
         key = dsl_key_for meth (take n (path_segments path)) \<and> pp = drop n (path_segments path) \<and>
         (\<forall>k. n < k \<and> k \<le> length (path_segments path) \<longrightarrow>
            map_of by_method (dsl_key_for meth (take k (path_segments path))) = None))) \<and>
    (resolve_dsl_with_path_params snapshot project meth path = None \<longleftrightarrow>
      (\<forall>k. 0 < k \<and> k \<le> length (path_segments path) \<longrightarrow>
         map_of by_method (dsl_key_for meth (take k (path_segments path))) = None))"
proof -
  have r: "resolve_dsl_with_path_params snapshot project meth path =
      resolve_loop by_method meth (path_segments path) []"
    using assms by (simp add: resolve_dsl_with_path_params_def)
  show ?thesis
    unfolding r
  proof (intro conjI allI impI)
    fix d key pp
    assume "resolve_loop by_method meth (path_segments path) [] = Some (d, key, pp)"
    from resolve_loop_Some[OF this] show "\<exists>n. 0 < n \<and> n \<le> length (path_segments path) \<and>
        map_of by_method key = Some d \<and> key = dsl_key_for meth (take n (path_segments path)) \<and>
        pp = drop n (path_segments path) \<and> (\<forall>k. n < k \<and> k \<le> length (path_segments path) \<longrightarrow>
          map_of by_method (dsl_key_for meth (take k (path_segments path))) = None)"
      by auto
  qed (rule resolve_loop_None)
qed

theorem resolve_longest_prefix_witness:
  "(let snap = [(''p'', [(''GET'', [(''GET/things'', 1 :: nat)])])] in
    resolve_dsl_with_path_params snap ''p'' ''GET'' ''things/7'' = Some (1, ''GET/things'', [''7'']) \<and>
    resolve_dsl_with_path_params snap ''p'' ''GET'' ''other'' = None)"
proof -
  let ?bm = "[(''GET/things'', 1 :: nat)]"
  have seg: "path_segments ''other'' = [''other'']" by (simp add: path_segments_def)
  have "dsl_key_for ''GET'' [''other''] \<noteq> ''GET/things''" by (simp add: dsl_key_for_def)
  then have "resolve_dsl_with_path_params [(''p'', [(''GET'', ?bm)])] ''p'' ''GET'' ''other'' = None"
    using resolve_longest_prefix[of "[(''p'', [(''GET'', ?bm)])]" "''p''" "[(''GET'', ?bm)]" "''GET''" ?bm "''other''"]
    by (simp add: seg)
  moreover have "resolve_dsl_with_path_params [(''p'', [(''GET'', ?bm)])] ''p'' ''GET'' ''things/7''
      = Some (1, ''GET/things'', [''7''])"
    by (simp add: resolve_dsl_with_path_params_def path_segments_def resolve_loop.simps dsl_key_for_def)
  ultimately show ?thesis by simp
qed

text \<open>
  The method list sent in the \<open>Allow\<close> header of a 405 is exactly the set of methods for
  which the path resolves, in sorted order; it is empty exactly when no method resolves.
\<close>

lemma methods_allowed_agrees_with_resolution:
  "set (methods_allowed_for_path snapshot project path) =
     {m. resolve_dsl_with_path_params snapshot project m path \<noteq> None} \<and>
   sorted (methods_allowed_for_path snapshot project path)"
proof (cases "map_of snapshot project")
  case None
  then show ?thesis
    by (simp add: methods_allowed_for_path_def resolve_dsl_with_path_params_def)
next
  case (Some by_method)
  have "m \<in> set (map fst by_method) \<and> path_registered (map_of by_method m) m (path_segments path)
      \<longleftrightarrow> resolve_dsl_with_path_params snapshot project m path \<noteq> None" for m
  proof (cases "map_of by_method m")
    case None
    then have "m \<notin> set (map fst by_method)" by (simp add: map_of_eq_None_iff)
    with None Some show ?thesis by (simp add: resolve_dsl_with_path_params_def)
  next
    case (Some bm)
    then have "m \<in> set (map fst by_method)" by (metis map_of_eq_None_iff option.distinct(1) list.set_map)
    with Some \<open>map_of snapshot project = Some by_method\<close> show ?thesis
      by (simp add: resolve_dsl_with_path_params_def path_registered_iff)
  qed
  then show ?thesis using Some by (auto simp: methods_allowed_for_path_def)
qed

text \<open>
  A self-call and an external request for the same URL path reach the same DSL with the same
  path parameters, whatever repeated or trailing slashes the URL has: the two ways the code
  splits the project off the path agree up to empty segments.
\<close>

theorem self_call_resolves_like_request:
  assumes "split_request_path url = Some (project, path)"
  shows "\<exists>path'. split_project url = (project, path') \<and>
    resolve_dsl_with_path_params snapshot project meth path' =
    resolve_dsl_with_path_params snapshot project meth path"
proof -
  obtain project' path' where s: "split_project url = (project', path')" by (cases "split_project url")
  obtain rest where seg: "path_segments url = project # rest" and path: "path = join_with ''/'' rest"
    using assms by (auto simp: split_request_path_def split: list.splits)
  have "project' \<noteq> []" using s split_project_empty seg by force
  then have p: "project' = project" and rest: "rest = path_segments path'"
    using split_project_segments[OF s] seg by simp_all
  have "path_segments path = rest"
    unfolding path using path_segments_join path_segments_wf rest by metis
  then show ?thesis using s p rest resolve_path_segments by metis
qed

theorem self_call_resolves_like_request_witness:
  "split_request_path ''//p//things/7/'' = Some (''p'', ''things/7'') \<and>
   (\<exists>path'. split_project ''//p//things/7/'' = (''p'', path') \<and>
     resolve_dsl_with_path_params ([] :: nat hmap hmap hmap) ''p'' ''GET'' path' =
     resolve_dsl_with_path_params [] ''p'' ''GET'' ''things/7'')"
proof -
  have "split_request_path ''//p//things/7/'' = Some (''p'', ''things/7'')"
    by (simp add: split_request_path_def path_segments_def)
  then show ?thesis
    using self_call_resolves_like_request[of "''//p//things/7/''" "''p''" "''things/7''"] by blast
qed

text \<open>
  A client cannot choose the recorded origin: unless the socket peer is on the operator's
  list of trusted proxies (compared after collapsing IPv4-mapped IPv6 addresses), the origin is
  the peer address, whatever forwarding headers the request carries.
\<close>

theorem untrusted_peer_origin:
  assumes "\<forall>t ip. t \<in> set trusted \<and> parse_ip t = Some ip \<longrightarrow>
    map_option canonicalise_ip peer \<noteq> Some (canonicalise_ip ip)"
  shows "resolve_origin parse_ip show_ip headers peer trusted =
    (case peer of None \<Rightarrow> ''unknown'' | Some ip \<Rightarrow> show_ip (canonicalise_ip ip))"
proof -
  have "\<not> (case map_option canonicalise_ip peer of
      Some ip \<Rightarrow> ip \<in> set (List.map_filter (\<lambda>t. map_option canonicalise_ip (parse_ip t)) trusted)
    | None \<Rightarrow> False)"
    using assms by (fastforce simp: List.map_filter_def split: option.splits)
  then show ?thesis
    unfolding resolve_origin_def Let_def by (simp split: option.splits)
qed

theorem untrusted_peer_origin_witness:
  "resolve_origin (\<lambda>s. if s = ''10.0.0.1'' then Some (V4 0x0A000001) else None) (\<lambda>_. ''peer'')
     [(''x-forwarded-for'', ''10.0.0.1'')] (Some (V4 7)) [''10.0.0.1''] = ''peer''"
  using untrusted_peer_origin
    [of "[''10.0.0.1'']" "\<lambda>s. if s = ''10.0.0.1'' then Some (V4 0x0A000001) else None" "Some (V4 7)"
        "\<lambda>_. ''peer''" "[(''x-forwarded-for'', ''10.0.0.1'')]"]
  by (simp add: canonicalise_ip_def)

lemma splitn_sep:
  assumes "c \<notin> set w"
  shows "splitn (Suc (Suc n)) c (w @ c # s) = w # splitn (Suc n) c s"
proof -
  have "takeWhile (\<lambda>x. x \<noteq> c) (w @ c # s) = w" using assms by (induction w) auto
  then show ?thesis by simp
qed

lemma splitn_four:
  "c \<notin> set a \<Longrightarrow> c \<notin> set b \<Longrightarrow> c \<notin> set d \<Longrightarrow>
   splitn (Suc (Suc (Suc (Suc 0)))) c (a @ c # b @ c # d @ c # e) = [a, b, d, e]"
  by (simp add: splitn_sep del: splitn.simps(3))

lemma splitn_hd_free: "c \<notin> set (hd (splitn (Suc (Suc n)) c s))"
proof (cases "takeWhile (\<lambda>x. x \<noteq> c) s = s")
  case True
  then have "c \<notin> set s" by (metis (mono_tags) takeWhile_eq_all_conv)
  then show ?thesis using True by simp
next
  case False
  have "c \<notin> set (takeWhile (\<lambda>x. x \<noteq> c) s)" by (metis (mono_tags) set_takeWhileD)
  then show ?thesis using False by (simp add: Let_def)
qed

lemma splitn_second_free:
  assumes "1 < length (splitn (Suc (Suc (Suc n))) c s)"
  shows "c \<notin> set (splitn (Suc (Suc (Suc n))) c s ! 1)"
proof -
  let ?w = "takeWhile (\<lambda>x. x \<noteq> c) s"
  let ?r = "splitn (Suc (Suc n)) c (drop (Suc (length ?w)) s)"
  have e: "splitn (Suc (Suc (Suc n))) c s = (if ?w = s then [s] else ?w # ?r)"
    by (subst splitn.simps(3)) (simp only: Let_def)
  then have "splitn (Suc (Suc (Suc n))) c s = ?w # ?r" and "0 < length ?r"
    using assms by (auto split: if_splits simp del: splitn.simps)
  then have "splitn (Suc (Suc (Suc n))) c s ! 1 = hd ?r"
    by (simp add: hd_conv_nth del: splitn.simps)
  then show ?thesis using splitn_hd_free by metis
qed

text \<open>
  The trace id of a traceparent of the generated shape \<open>00-<trace>-<span>-01\<close> is its trace
  field, whatever the span; and whatever \<open>trace_id_from\<close> returns has 32 characters and no dash.
\<close>

theorem trace_id_roundtrip:
  "(\<forall>tid sid. length tid = 32 \<and> CHR ''-'' \<notin> set tid \<and> CHR ''-'' \<notin> set sid \<longrightarrow>
      trace_id_from (''00-'' @ tid @ ''-'' @ sid @ ''-01'') = Some tid) \<and>
   (\<forall>tp tid. trace_id_from tp = Some tid \<longrightarrow> length tid = 32 \<and> CHR ''-'' \<notin> set tid)"
proof -
  have four: "4 = Suc (Suc (Suc (Suc 0)))" by simp
  have "splitn 4 CHR ''-'' (''00'' @ CHR ''-'' # tid @ CHR ''-'' # sid @ CHR ''-'' # ''01'')
      = [''00'', tid, sid, ''01'']"
    if "CHR ''-'' \<notin> set tid" "CHR ''-'' \<notin> set sid" for tid sid
    unfolding four by (rule splitn_four) (use that in simp_all)
  then have "trace_id_from (''00-'' @ tid @ ''-'' @ sid @ ''-01'') = Some tid"
    if "length tid = 32" "CHR ''-'' \<notin> set tid" "CHR ''-'' \<notin> set sid" for tid sid
    using that by (simp add: trace_id_from_def Let_def)
  moreover have "CHR ''-'' \<notin> set (splitn 4 CHR ''-'' tp ! 1)" if "length (splitn 4 CHR ''-'' tp) = 4" for tp
    using splitn_second_free[of 1 "CHR ''-''" tp] that unfolding four One_nat_def by simp
  ultimately show ?thesis by (auto simp: trace_id_from_def Let_def split: if_splits)
qed

theorem trace_id_roundtrip_witness:
  "length (replicate 32 (CHR ''a'')) = 32 \<and>
   trace_id_from (''00-'' @ replicate 32 (CHR ''a'') @ ''-'' @ ''0123'' @ ''-01'')
     = Some (replicate 32 (CHR ''a''))"
proof -
  have "CHR ''-'' \<notin> set (replicate 32 (CHR ''a''))" "CHR ''-'' \<notin> set ''0123''"
    and len: "length (replicate 32 (CHR ''a'')) = 32"
    by (simp_all only: set_replicate_conv_if length_replicate) simp_all
  then show ?thesis using trace_id_roundtrip by blast
qed

end
