(* ===== verification/Execution_Context.thy ===== *)
theory Execution_Context
  imports Routing
begin

text \<open>
  The execution context of one DSL run (\<open>src/context/mod.rs\<close>): the variables, the request view,
  the project, the trace, and the stack of guards that are running. The state store behind the
  context is process-wide and is kept in the world of the engine; locks are atomic steps and a
  poisoned lock (a panic while holding it) is not modelled. The guard stack is shared between a
  context and the children built from it; the engine threads it through.

  The lemmas show that a stack only ever holds distinct keys and never more than
  \<open>MAX_GUARD_DEPTH\<close>, and that push and pop are a balanced bracket.
\<close>

definition MAX_GUARD_DEPTH :: nat where
  "MAX_GUARD_DEPTH = 32"

record execution_context =
  variables :: "json hmap"
  request_body :: "json hmap"
  request_query :: "json hmap"
  request_headers :: "string hmap"
  request_origin :: string
  ctx_project :: string
  connection_id :: "string option"
  traceparent :: "string option"
  guard_stack :: "string list"

definition ctx_with_state ::
  "json hmap \<Rightarrow> json hmap \<Rightarrow> string hmap \<Rightarrow> string \<Rightarrow> string \<Rightarrow> execution_context" where
  "ctx_with_state body query headers origin project =
     \<lparr>variables = [], request_body = body, request_query = query, request_headers = headers,
      request_origin = origin, ctx_project = project, connection_id = None,
      traceparent = map_of headers ''traceparent'', guard_stack = []\<rparr>"

definition with_connection_id :: "execution_context \<Rightarrow> string \<Rightarrow> execution_context" where
  "with_connection_id c i = c\<lparr>connection_id := Some i\<rparr>"

definition with_traceparent :: "execution_context \<Rightarrow> string \<Rightarrow> execution_context" where
  "with_traceparent c tp = c\<lparr>traceparent := Some tp\<rparr>"

definition trace_id :: "execution_context \<Rightarrow> string option" where
  "trace_id c = Option.bind (traceparent c) (\<lambda>tp.
     let parts = splitn 4 CHR ''-'' tp in
     if length parts = 4 \<and> length (parts ! 1) = 32 then Some (parts ! 1) else None)"

definition set_variable :: "string \<Rightarrow> json \<Rightarrow> execution_context \<Rightarrow> execution_context" where
  "set_variable k v c = c\<lparr>variables := hm_insert k v (variables c)\<rparr>"

definition get_variable :: "execution_context \<Rightarrow> string \<Rightarrow> json option" where
  "get_variable c k = map_of (variables c) k"

text \<open>A detached copy: same variables and request, its own (empty) guard stack.\<close>

definition ctx_snapshot :: "execution_context \<Rightarrow> execution_context" where
  "ctx_snapshot c = c\<lparr>guard_stack := []\<rparr>"

definition replace_request_view ::
  "json hmap \<Rightarrow> json hmap \<Rightarrow> string hmap \<Rightarrow> execution_context \<Rightarrow> execution_context" where
  "replace_request_view body query headers c =
     c\<lparr>request_body := body, request_query := query, request_headers := headers\<rparr>"

definition with_guard_stack_from :: "execution_context \<Rightarrow> execution_context \<Rightarrow> execution_context" where
  "with_guard_stack_from c parent = c\<lparr>guard_stack := guard_stack parent\<rparr>"

definition is_guard_on_stack :: "execution_context \<Rightarrow> string \<Rightarrow> bool" where
  "is_guard_on_stack c k \<longleftrightarrow> k \<in> set (guard_stack c)"

definition push_guard :: "string \<Rightarrow> execution_context \<Rightarrow> execution_context result" where
  "push_guard key c =
     (let stack = guard_stack c in
      if MAX_GUARD_DEPTH \<le> length stack
      then Inl (DslExecution ''guard'' (GuardDepthExceeded MAX_GUARD_DEPTH stack))
      else if key \<in> set stack
      then Inl (DslExecution ''guard'' (GuardCycle key stack))
      else Inr (c\<lparr>guard_stack := stack @ [key]\<rparr>))"

text \<open>\<open>Drop for GuardStackGuard\<close>: \<open>Vec::pop\<close>.\<close>

definition pop_guard :: "execution_context \<Rightarrow> execution_context" where
  "pop_guard c = c\<lparr>guard_stack := butlast (guard_stack c)\<rparr>"

definition guard_stack_depth :: "execution_context \<Rightarrow> nat" where
  "guard_stack_depth c = length (guard_stack c)"

section \<open>Lemmas\<close>

definition guard_stack_ok :: "execution_context \<Rightarrow> bool" where
  "guard_stack_ok c \<longleftrightarrow> distinct (guard_stack c) \<and> guard_stack_depth c \<le> MAX_GUARD_DEPTH"

lemma push_guard_ok_iff:
  "push_guard k c = Inr c' \<longleftrightarrow> length (guard_stack c) < MAX_GUARD_DEPTH \<and>
     k \<notin> set (guard_stack c) \<and> c' = c\<lparr>guard_stack := guard_stack c @ [k]\<rparr>"
  by (auto simp: push_guard_def Let_def)

lemma push_guard_pop: "push_guard k c = Inr c' \<Longrightarrow> pop_guard c' = c"
  by (auto simp: push_guard_ok_iff pop_guard_def)

lemma push_guard_keeps_ok:
  "guard_stack_ok c \<Longrightarrow> push_guard k c = Inr c' \<Longrightarrow> guard_stack_ok c'"
  by (auto simp: push_guard_ok_iff guard_stack_ok_def guard_stack_depth_def)

lemma pop_guard_keeps_ok: "guard_stack_ok c \<Longrightarrow> guard_stack_ok (pop_guard c)"
  by (auto simp: pop_guard_def guard_stack_ok_def guard_stack_depth_def distinct_butlast
      split: if_splits)

lemma get_set_variable [simp]:
  "get_variable (set_variable k v c) j = (if j = k then Some v else get_variable c j)"
  by (simp add: get_variable_def set_variable_def update_conv')

lemma set_variable_fields [simp]:
  "request_body (set_variable k v c) = request_body c"
  "request_query (set_variable k v c) = request_query c"
  "request_headers (set_variable k v c) = request_headers c"
  "request_origin (set_variable k v c) = request_origin c"
  "ctx_project (set_variable k v c) = ctx_project c"
  "connection_id (set_variable k v c) = connection_id c"
  "traceparent (set_variable k v c) = traceparent c"
  "guard_stack (set_variable k v c) = guard_stack c"
  by (simp_all add: set_variable_def)

text \<open>The part of a context that a DSL run may not change.\<close>

definition same_frame :: "execution_context \<Rightarrow> execution_context \<Rightarrow> bool" where
  "same_frame c c' \<longleftrightarrow>
     request_body c' = request_body c \<and> request_query c' = request_query c \<and>
     request_headers c' = request_headers c \<and> request_origin c' = request_origin c \<and>
     ctx_project c' = ctx_project c \<and> connection_id c' = connection_id c \<and>
     traceparent c' = traceparent c \<and> guard_stack c' = guard_stack c"

lemma same_frame_refl [simp]: "same_frame c c"
  by (simp add: same_frame_def)

lemma same_frame_trans: "same_frame a b \<Longrightarrow> same_frame b c \<Longrightarrow> same_frame a c"
  by (simp add: same_frame_def)

lemma same_frame_set [simp]: "same_frame c (set_variable k v c)"
  by (simp add: same_frame_def)

lemma trace_id_agrees: "trace_id c = Option.bind (traceparent c) trace_id_from"
  by (cases "traceparent c") (simp_all add: trace_id_def trace_id_from_def Let_def)

end
