(* ===== verification/Ws_Registry.thy ===== *)
theory Ws_Registry
  imports Execution_Context
begin

text \<open>
  The WebSocket connection registry (\<open>src/ws/mod.rs\<close>). A connection is its bounded outbound queue
  (the frames accepted and not yet written, the capacity, whether the writer is gone) and its tags.
  The lemmas show that queues stay within their capacity whatever is sent, what a send returns on
  every branch, and that a broadcast reaches exactly the matching connections with room.
\<close>

record ws_connection =
  cn_queue :: "json list"
  cn_capacity :: nat
  cn_closed :: bool
  cn_tags :: "string hmap"

type_synonym ws_registry = "ws_connection hmap"

definition DEFAULT_OUTBOUND_QUEUE_CAPACITY :: nat where
  "DEFAULT_OUTBOUND_QUEUE_CAPACITY = 256"

text \<open>\<open>mpsc::channel\<close> of a capacity, seen from the sender.\<close>

definition bounded_sender :: "nat \<Rightarrow> ws_connection" where
  "bounded_sender capacity =
     \<lparr>cn_queue = [], cn_capacity = capacity, cn_closed = False, cn_tags = []\<rparr>"

definition ws_register :: "string \<Rightarrow> ws_connection \<Rightarrow> ws_registry \<Rightarrow> ws_registry" where
  "ws_register cid sender reg = hm_insert cid (sender\<lparr>cn_tags := []\<rparr>) reg"

definition ws_unregister :: "string \<Rightarrow> ws_registry \<Rightarrow> ws_registry" where
  "ws_unregister cid reg = hm_remove cid reg"

datatype try_send_error = QueueFull | QueueClosed

definition try_send :: "json \<Rightarrow> ws_connection \<Rightarrow> try_send_error + ws_connection" where
  "try_send payload c =
     (if cn_closed c then Inl QueueClosed
      else if cn_capacity c \<le> length (cn_queue c) then Inl QueueFull
      else Inr (c\<lparr>cn_queue := cn_queue c @ [payload]\<rparr>))"

definition ws_send :: "string \<Rightarrow> json \<Rightarrow> ws_registry \<Rightarrow> unit result \<times> ws_registry" where
  "ws_send cid payload reg =
     (case map_of reg cid of
        None \<Rightarrow> (Inl (InvalidStep (InWs (WsSendUnknownConnection cid))), reg)
      | Some c \<Rightarrow>
          (case try_send payload c of
             Inl QueueFull \<Rightarrow> (Inl (InvalidStep (InWs (WsSendQueueFull cid))), reg)
           | Inl QueueClosed \<Rightarrow> (Inl (InvalidStep (InWs (WsSendWriterDropped cid))), reg)
           | Inr c' \<Rightarrow> (Inr (), hm_insert cid c' reg)))"

text \<open>One pass over the registry; the count of accepted messages and the new registry.\<close>

fun broadcast_where ::
  "(string \<Rightarrow> string hmap \<Rightarrow> bool) \<Rightarrow> json \<Rightarrow> ws_registry \<Rightarrow> nat \<times> ws_registry" where
  "broadcast_where pred payload [] = (0, [])"
| "broadcast_where pred payload ((cid, c) # reg) =
     (let (n, reg') = broadcast_where pred payload reg in
      if pred cid (cn_tags c) then
        (case try_send payload c of
           Inr c' \<Rightarrow> (Suc n, (cid, c') # reg')
         | Inl _ \<Rightarrow> (n, (cid, c) # reg'))
      else (n, (cid, c) # reg'))"

definition broadcast :: "(string \<Rightarrow> bool) \<Rightarrow> json \<Rightarrow> ws_registry \<Rightarrow> nat \<times> ws_registry" where
  "broadcast pred = broadcast_where (\<lambda>cid _. pred cid)"

fun insert_all :: "(string \<times> 'v) list \<Rightarrow> 'v hmap \<Rightarrow> 'v hmap" where
  "insert_all [] m = m"
| "insert_all ((k, v) # es) m = insert_all es (hm_insert k v m)"

definition set_tags :: "string \<Rightarrow> string hmap \<Rightarrow> ws_registry \<Rightarrow> unit result \<times> ws_registry" where
  "set_tags cid entries reg =
     (case map_of reg cid of
        None \<Rightarrow> (Inl (InvalidStep (InWs (WsTagUnknownConnection cid))), reg)
      | Some c \<Rightarrow> (Inr (), hm_insert cid (c\<lparr>cn_tags := insert_all entries (cn_tags c)\<rparr>) reg))"

definition tags_of :: "ws_registry \<Rightarrow> string \<Rightarrow> string hmap option" where
  "tags_of reg cid = map_option cn_tags (map_of reg cid)"

definition connection_count :: "ws_registry \<Rightarrow> nat" where
  "connection_count reg = length reg"

definition ws_ids :: "ws_registry \<Rightarrow> string list" where
  "ws_ids reg = map fst reg"

definition source_id :: "string \<Rightarrow> string \<Rightarrow> string" where
  "source_id project source_name = ''source:'' @ project @ '':'' @ source_name"

text \<open>The writer task takes the oldest frame off the queue and writes it to the socket.\<close>

definition writer_recv :: "string \<Rightarrow> ws_registry \<Rightarrow> json option \<times> ws_registry" where
  "writer_recv cid reg =
     (case map_of reg cid of
        None \<Rightarrow> (None, reg)
      | Some c \<Rightarrow>
          (case cn_queue c of
             [] \<Rightarrow> (None, reg)
           | v # q \<Rightarrow> (Some v, hm_insert cid (c\<lparr>cn_queue := q\<rparr>) reg)))"

section \<open>Invariant\<close>

definition ws_wf :: "ws_registry \<Rightarrow> bool" where
  "ws_wf reg \<longleftrightarrow> distinct (map fst reg) \<and>
     (\<forall>cid c. map_of reg cid = Some c \<longrightarrow> length (cn_queue c) \<le> cn_capacity c)"

lemma ws_wf_insert:
  "ws_wf reg \<Longrightarrow> length (cn_queue c) \<le> cn_capacity c \<Longrightarrow> ws_wf (hm_insert cid c reg)"
  by (auto simp: ws_wf_def distinct_update update_conv' split: if_splits)

lemma try_send_ok:
  "try_send v c = Inr c' \<longleftrightarrow> \<not> cn_closed c \<and> length (cn_queue c) < cn_capacity c \<and>
     c' = c\<lparr>cn_queue := cn_queue c @ [v]\<rparr>"
  by (auto simp: try_send_def)

lemma ws_wfD: "ws_wf reg \<Longrightarrow> map_of reg cid = Some c \<Longrightarrow> length (cn_queue c) \<le> cn_capacity c"
  by (simp add: ws_wf_def)

lemma ws_wf_register: "ws_wf reg \<Longrightarrow> length (cn_queue c) \<le> cn_capacity c \<Longrightarrow> ws_wf (ws_register cid c reg)"
  by (simp add: ws_register_def ws_wf_insert)

lemma ws_wf_unregister: "ws_wf reg \<Longrightarrow> ws_wf (ws_unregister cid reg)"
  by (auto simp: ws_wf_def ws_unregister_def distinct_delete delete_conv' split: if_splits)

lemma ws_wf_send: "ws_wf reg \<Longrightarrow> ws_wf (snd (ws_send cid v reg))"
  by (auto simp: ws_send_def try_send_ok split: option.splits sum.splits try_send_error.splits
      intro!: ws_wf_insert)

lemma ws_wf_set_tags: "ws_wf reg \<Longrightarrow> ws_wf (snd (set_tags cid es reg))"
  by (auto simp: set_tags_def split: option.splits intro!: ws_wf_insert dest: ws_wfD)

lemma ws_wf_recv: "ws_wf reg \<Longrightarrow> ws_wf (snd (writer_recv cid reg))"
  by (auto simp: writer_recv_def split: option.splits list.splits intro!: ws_wf_insert dest: ws_wfD)

lemma broadcast_keys: "map fst (snd (broadcast_where p v reg)) = map fst reg"
  by (induction p v reg rule: broadcast_where.induct)
     (auto simp: Let_def split: prod.splits sum.splits)

text \<open>What a broadcast does to one connection.\<close>

definition after_broadcast :: "(string \<Rightarrow> string hmap \<Rightarrow> bool) \<Rightarrow> json \<Rightarrow> string \<Rightarrow> ws_connection \<Rightarrow> ws_connection" where
  "after_broadcast p v cid c =
     (if p cid (cn_tags c) \<and> \<not> cn_closed c \<and> length (cn_queue c) < cn_capacity c
      then c\<lparr>cn_queue := cn_queue c @ [v]\<rparr> else c)"

lemma broadcast_map:
  "snd (broadcast_where p v reg) = map (\<lambda>(cid, c). (cid, after_broadcast p v cid c)) reg \<and>
   fst (broadcast_where p v reg) =
     length (filter (\<lambda>(cid, c). p cid (cn_tags c) \<and> \<not> cn_closed c \<and>
       length (cn_queue c) < cn_capacity c) reg)"
proof (induction reg)
  case (Cons x reg)
  obtain cid c n reg' where "x = (cid, c)" "broadcast_where p v reg = (n, reg')" by fastforce
  then show ?case using Cons by (auto simp: after_broadcast_def try_send_def)
qed simp

lemma map_of_map_snd: "map_of (map (\<lambda>(k, x). (k, f k x)) m) k = map_option (f k) (map_of m k)"
  by (induction m) auto

lemma ws_wf_broadcast: "ws_wf reg \<Longrightarrow> ws_wf (snd (broadcast_where p v reg))"
  unfolding ws_wf_def broadcast_keys
  by (auto simp: broadcast_map map_of_map_snd after_broadcast_def split: if_splits)

lemma map_of_insert_all:
  "distinct (map fst es) \<Longrightarrow>
   map_of (insert_all es m) k = (case map_of es k of Some v \<Rightarrow> Some v | None \<Rightarrow> map_of m k)"
proof (induction es m rule: insert_all.induct)
  case (2 k' v es m)
  then have "map_of es k' = None" by (auto simp: map_of_eq_None_iff)
  then show ?case using 2 by (auto simp: update_conv' split: option.splits)
qed simp

section \<open>Properties\<close>

text \<open>
  No outbound queue ever outgrows its capacity: registering an empty queue, unregistering,
  sending, broadcasting, tagging and the writer's reads all keep every queue within its bound
  and every connection id unique.
\<close>

theorem ws_queues_bounded:
  assumes "ws_wf reg"
  shows "ws_wf (ws_register cid (bounded_sender cap) reg) \<and> ws_wf (ws_unregister cid reg) \<and>
    ws_wf (snd (ws_send cid v reg)) \<and> ws_wf (snd (broadcast_where p v reg)) \<and>
    ws_wf (snd (set_tags cid es reg)) \<and> ws_wf (snd (writer_recv cid reg))"
  using assms
  by (simp add: ws_wf_register bounded_sender_def ws_wf_unregister ws_wf_send ws_wf_broadcast
      ws_wf_set_tags ws_wf_recv)

theorem ws_queues_bounded_witness:
  "ws_wf [] \<and> ws_wf (snd (ws_send ''client:a'' JNull []))"
  using ws_queues_bounded[of "[]" "''client:a''" 1 JNull "\<lambda>_ _. True" "[]"]
  by (simp add: ws_wf_def)

text \<open>
  A broadcast reaches exactly its audience: every connection that matches, is open and has
  room gets the payload appended once, every other connection is untouched, none appears or
  disappears, and the returned count is the number of connections that got it. A slow or dead
  reader never stops the delivery to the others.
\<close>

theorem broadcast_reaches_audience:
  "(\<forall>cid. map_of (snd (broadcast_where p v reg)) cid =
      map_option (\<lambda>c. if p cid (cn_tags c) \<and> \<not> cn_closed c \<and> length (cn_queue c) < cn_capacity c
                      then c\<lparr>cn_queue := cn_queue c @ [v]\<rparr> else c) (map_of reg cid)) \<and>
   fst (broadcast_where p v reg) =
     length (filter (\<lambda>(cid, c). p cid (cn_tags c) \<and> \<not> cn_closed c \<and>
       length (cn_queue c) < cn_capacity c) reg)"
  by (simp add: broadcast_map map_of_map_snd after_broadcast_def)

text \<open>
  Sending and tagging one connection: a send succeeds exactly when the connection is
  registered, open and below capacity, appends the payload to that queue and changes nothing
  else; otherwise it fails and changes nothing. Tagging merges: given keys are overwritten, other
  keys and other connections stay.
\<close>

theorem ws_send_and_tag_spec:
  assumes "distinct (map fst es)"
  shows "(fst (ws_send cid v reg) = Inr () \<longleftrightarrow>
       (\<exists>c. map_of reg cid = Some c \<and> \<not> cn_closed c \<and> length (cn_queue c) < cn_capacity c)) \<and>
    (\<forall>e. fst (ws_send cid v reg) = Inl e \<longrightarrow> snd (ws_send cid v reg) = reg) \<and>
    (fst (ws_send cid v reg) = Inr () \<longrightarrow> (\<forall>c. map_of reg cid = Some c \<longrightarrow>
       map_of (snd (ws_send cid v reg)) = (map_of reg)(cid \<mapsto> c\<lparr>cn_queue := cn_queue c @ [v]\<rparr>))) \<and>
    (\<forall>c. map_of reg cid = Some c \<longrightarrow> (\<exists>tags. tags_of (snd (set_tags cid es reg)) cid = Some tags \<and>
       (\<forall>k. map_of tags k = (case map_of es k of Some t \<Rightarrow> Some t | None \<Rightarrow> map_of (cn_tags c) k))))"
proof (cases "map_of reg cid")
  case None
  then show ?thesis by (simp add: ws_send_def)
next
  case (Some c)
  then show ?thesis
    using assms
    by (auto simp: ws_send_def try_send_def set_tags_def tags_of_def update_conv' map_of_insert_all)
qed

theorem ws_send_and_tag_spec_witness:
  "(let reg = ws_register ''client:a'' (bounded_sender 1) [] in
    fst (ws_send ''client:a'' JNull reg) = Inr () \<and>
    map_of (snd (ws_send ''client:a'' JNull reg)) ''client:a'' = Some ((bounded_sender 1)\<lparr>cn_queue := [JNull]\<rparr>))"
  using ws_send_and_tag_spec[of "[]" "''client:a''" JNull "ws_register ''client:a'' (bounded_sender 1) []"]
  by (simp add: ws_register_def bounded_sender_def)

end
