(* ===== verification/Js_Values.thy ===== *)
theory Js_Values
  imports Execution_Context
begin

text \<open>
  What a script gives back (\<open>js_value_to_json\<close> of \<open>src/scripting/boa.rs\<close> and \<open>src/scripting/quickjs.rs\<close>) and what an error
  message says about an undeclared name (\<open>extract_undeclared_identifier\<close> of \<open>src/scripting/mod.rs\<close>).

  A JavaScript value is what the two backends can observe of it: its kind, the number as a double, the text of
  a string (escaped, and as UTF-8 where it has no lone surrogate), the elements of an array (reading one may
  throw) and what \<open>JSON.stringify\<close> makes of an array or an object: a text, \<open>undefined\<close>, or an exception.

  The lemmas show that the backends agree on null, booleans, strings and numbers below \<open>2^63\<close>, and where they
  do not.
\<close>

section \<open>Undeclared identifiers\<close>

text \<open>The character classes \<open>[A-Za-z_$]\<close>, \<open>[A-Za-z0-9_$]\<close> and the quotes of the patterns.\<close>

definition ident_start :: "char \<Rightarrow> bool" where
  "ident_start c = (let n = (of_char c :: nat) in
     65 \<le> n \<and> n \<le> 90 \<or> 97 \<le> n \<and> n \<le> 122 \<or> c = CHR ''_'' \<or> c = CHR ''$'')"

definition ident_char :: "char \<Rightarrow> bool" where
  "ident_char c = (let n = (of_char c :: nat) in ident_start c \<or> 48 \<le> n \<and> n \<le> 57)"

fun skip_quote :: "string \<Rightarrow> string" where
  "skip_quote (c # cs) = (if c = CHR 0x22 \<or> c = CHR 0x27 \<or> c = CHR 0x60 then cs else c # cs)"
| "skip_quote [] = []"

text \<open>
  An identifier at the head of the text and what follows it. The repetition is greedy, and what the patterns
  want after it is never a character of an identifier, so a shorter match cannot succeed.
\<close>

fun read_ident :: "string \<Rightarrow> (string \<times> string) option" where
  "read_ident (c # cs) =
     (if ident_start c then Some (takeWhile ident_char (c # cs), dropWhile ident_char (c # cs)) else None)"
| "read_ident [] = None"

definition not_defined_at :: "string \<Rightarrow> string option" where
  "not_defined_at s =
     (case read_ident (skip_quote s) of
        Some (x, rest) \<Rightarrow> if starts_with (skip_quote rest) '' is not defined'' then Some x else None
      | None \<Rightarrow> None)"

definition identifier_at :: "string \<Rightarrow> string option" where
  "identifier_at s =
     (if starts_with s ''identifier '' then map_option fst (read_ident (skip_quote (drop 11 s))) else None)"

definition missing_binding_at :: "string \<Rightarrow> string option" where
  "missing_binding_at s =
     (if starts_with s ''missing binding for '' then map_option fst (read_ident (drop 20 s)) else None)"

text \<open>The leftmost match of a pattern.\<close>

fun first_match :: "(string \<Rightarrow> string option) \<Rightarrow> string \<Rightarrow> string option" where
  "first_match f [] = f []"
| "first_match f (c # cs) = (case f (c # cs) of Some x \<Rightarrow> Some x | None \<Rightarrow> first_match f cs)"

definition extract_undeclared_identifier :: "string \<Rightarrow> string option" where
  "extract_undeclared_identifier msg =
     (if \<not> contains_str (to_ascii_lowercase msg) ''reference'' then None
      else case first_match not_defined_at msg of
          Some x \<Rightarrow> Some x
        | None \<Rightarrow>
            (case first_match identifier_at msg of
               Some x \<Rightarrow> Some x
             | None \<Rightarrow> first_match missing_binding_at msg))"

section \<open>Numbers\<close>

text \<open>A double: \<open>m * 2^e\<close>, an infinity, or not a number.\<close>

datatype f64 = F64 int int | F64Inf bool | F64NaN

definition f64_trunc :: "int \<Rightarrow> int \<Rightarrow> int" where
  "f64_trunc m e = (if 0 \<le> e then m * 2 ^ nat e else m div 2 ^ nat (- e))"

text \<open>\<open>n as i64\<close> saturates.\<close>

definition saturate_i64 :: "int \<Rightarrow> int" where
  "saturate_i64 i = max (- (2 ^ 63)) (min (2 ^ 63 - 1) i)"

definition number_from_i64 :: "int \<Rightarrow> number" where
  "number_from_i64 i = (if 0 \<le> i then PosInt (word_of_int i) else NegInt i)"

definition invalid_number :: "'a result" where
  "invalid_number = Inl (ScriptEvaluation (Text ''Invalid number''))"

fun number_to_json :: "f64 \<Rightarrow> json result" where
  "number_to_json (F64 m e) =
     (if number_integral (Float m e) then Inr (JNumber (number_from_i64 (saturate_i64 (f64_trunc m e))))
      else Inr (JNumber (Float m e)))"
| "number_to_json _ = invalid_number"

text \<open>QuickJS: only a value below \<open>i64::MAX as f64\<close>, which is \<open>2^63\<close>, becomes an integer.\<close>

fun qjs_number_to_json :: "f64 \<Rightarrow> json result" where
  "qjs_number_to_json (F64 m e) =
     (if number_integral (Float m e) \<and> \<bar>f64_trunc m e\<bar> < 2 ^ 63
      then Inr (JNumber (number_from_i64 (saturate_i64 (f64_trunc m e)))) else Inr (JNumber (Float m e)))"
| "qjs_number_to_json _ = invalid_number"

section \<open>Values\<close>

type_synonym stringified = "string + string option"

datatype js_value =
    JsNull
  | JsUndefined
  | JsBoolean bool
  | JsNumber f64
  | JsString string "string + string"
  | JsArray js_items stringified
  | JsObject stringified
and js_items = BadLength string | Items "js_item list"
and js_item = Unreadable string | Item js_value

definition script_failed :: "string \<Rightarrow> 'a result" where
  "script_failed e = Inl (ScriptEvaluation (ScriptFailed e))"

definition read_json :: "(string \<Rightarrow> string + json) \<Rightarrow> string \<Rightarrow> json result" where
  "read_json parse t = (case parse t of Inl e \<Rightarrow> script_failed e | Inr v \<Rightarrow> Inr v)"

text \<open>Boa: arrays element by element, any other object by \<open>JSON.stringify\<close>, where \<open>undefined\<close> is null.\<close>

fun js_value_to_json :: "(string \<Rightarrow> string + json) \<Rightarrow> js_value \<Rightarrow> json result"
and js_items_to_json :: "(string \<Rightarrow> string + json) \<Rightarrow> js_item list \<Rightarrow> json list result" where
  "js_value_to_json parse JsNull = Inr JNull"
| "js_value_to_json parse JsUndefined = Inr JNull"
| "js_value_to_json parse (JsBoolean b) = Inr (JBool b)"
| "js_value_to_json parse (JsNumber n) = number_to_json n"
| "js_value_to_json parse (JsString escaped _) = Inr (JString escaped)"
| "js_value_to_json parse (JsArray (BadLength e) _) = script_failed e"
| "js_value_to_json parse (JsArray (Items vs) _) = bindr (js_items_to_json parse vs) (\<lambda>js. Inr (JArray js))"
| "js_value_to_json parse (JsObject t) =
     (case t of Inl e \<Rightarrow> script_failed e | Inr None \<Rightarrow> Inr JNull | Inr (Some s) \<Rightarrow> read_json parse s)"
| "js_items_to_json parse [] = Inr []"
| "js_items_to_json parse (Unreadable e # vs) = script_failed e"
| "js_items_to_json parse (Item v # vs) =
     bindr (js_value_to_json parse v) (\<lambda>j. bindr (js_items_to_json parse vs) (\<lambda>js. Inr (j # js)))"

text \<open>QuickJS: arrays and objects by \<open>JSON.stringify\<close>, whose result has to be a string.\<close>

definition qjs_stringify :: "(string \<Rightarrow> string + json) \<Rightarrow> stringified \<Rightarrow> json result" where
  "qjs_stringify parse t =
     (case t of Inl e \<Rightarrow> script_failed e
      | Inr None \<Rightarrow> script_failed ''Error converting from js undefined into type string''
      | Inr (Some s) \<Rightarrow> read_json parse s)"

fun qjs_value_to_json :: "(string \<Rightarrow> string + json) \<Rightarrow> js_value \<Rightarrow> json result" where
  "qjs_value_to_json parse JsNull = Inr JNull"
| "qjs_value_to_json parse JsUndefined = Inr JNull"
| "qjs_value_to_json parse (JsBoolean b) = Inr (JBool b)"
| "qjs_value_to_json parse (JsNumber n) = qjs_number_to_json n"
| "qjs_value_to_json parse (JsString _ utf8) = (case utf8 of Inl e \<Rightarrow> script_failed e | Inr s \<Rightarrow> Inr (JString s))"
| "qjs_value_to_json parse (JsArray _ t) = qjs_stringify parse t"
| "qjs_value_to_json parse (JsObject t) = qjs_stringify parse t"

section \<open>Lemmas\<close>

lemma ident_start_char: "ident_start c \<Longrightarrow> ident_char c"
  by (simp add: ident_char_def)

lemma read_ident_ok: "read_ident s = Some (x, rest) \<Longrightarrow> s = x @ rest \<and> x \<noteq> [] \<and> ident_start (hd x) \<and> list_all ident_char x"
  by (cases s) (auto simp: ident_start_char list_all_iff dest: set_takeWhileD split: if_splits)

lemma first_match_ok: "first_match f s = Some x \<Longrightarrow> \<exists>t. f t = Some x"
  by (induction s) (auto split: option.splits)

text \<open>
  Only a message about a reference gives a name, and the name is an identifier: what is declared on a retry is
  never an arbitrary piece of the message.
\<close>

lemma extracted_identifier:
  assumes "extract_undeclared_identifier msg = Some x"
  shows "contains_str (to_ascii_lowercase msg) ''reference'' \<and> x \<noteq> [] \<and> ident_start (hd x) \<and> list_all ident_char x"
proof -
  have "\<exists>t. not_defined_at t = Some x \<or> identifier_at t = Some x \<or> missing_binding_at t = Some x"
    using assms by (auto simp: extract_undeclared_identifier_def split: if_splits option.splits dest!: first_match_ok)
  then obtain t rest where "read_ident t = Some (x, rest)"
    by (auto simp: not_defined_at_def identifier_at_def missing_binding_at_def split: if_splits option.splits)
  then show ?thesis
    using assms read_ident_ok by (auto simp: extract_undeclared_identifier_def split: if_splits)
qed

lemma extract_examples:
  "extract_undeclared_identifier ''ReferenceError: platform is not defined'' = Some ''platform''"
  "extract_undeclared_identifier (''ReferenceError: '' @ [CHR 0x27] @ ''missing_var'' @ [CHR 0x27] @ '' is not defined'') = Some ''missing_var''"
  "extract_undeclared_identifier (''ReferenceError: identifier '' @ [CHR 0x60] @ ''foo'' @ [CHR 0x60] @ '' does not exist'') = Some ''foo''"
  "extract_undeclared_identifier ''TypeError: null has no properties'' = None"
  by code_simp+

text \<open>Numbers: the backends agree below \<open>2^63\<close> and keep the value; above, Boa gives the largest \<open>i64\<close>.\<close>

lemma saturate_small: "\<bar>i\<bar> < 2 ^ 63 \<Longrightarrow> saturate_i64 i = i"
  by (auto simp: saturate_i64_def)

lemma numbers_agree: "\<bar>f64_trunc m e\<bar> < 2 ^ 63 \<Longrightarrow> number_to_json (F64 m e) = qjs_number_to_json (F64 m e)"
  by simp

lemma number_value_kept:
  assumes "number_integral (Float m e)" "\<bar>f64_trunc m e\<bar> < 2 ^ 63"
  shows "number_to_json (F64 m e) = Inr (JNumber (if 0 \<le> f64_trunc m e then PosInt (word_of_int (f64_trunc m e)) else NegInt (f64_trunc m e)))
    \<and> (0 \<le> f64_trunc m e \<longrightarrow> uint (word_of_int (f64_trunc m e) :: u64) = f64_trunc m e)"
  using assms by (simp add: number_from_i64_def saturate_small uint_word_of_int)

lemma large_numbers_differ:
  "number_to_json (F64 1 64) = Inr (JNumber (PosInt (2 ^ 63 - 1)))"
  "qjs_number_to_json (F64 1 64) = Inr (JNumber (Float 1 64))"
  by code_simp+

text \<open>A function, whose text \<open>JSON.stringify\<close> leaves undefined, is null for Boa and an error for QuickJS.\<close>

lemma functions_differ:
  "js_value_to_json parse (JsObject (Inr None)) = Inr JNull"
  "\<exists>e. qjs_value_to_json parse (JsObject (Inr None)) = Inl e"
  by (simp_all add: qjs_stringify_def script_failed_def)

end
