(* ===== verification/Scripting.thy ===== *)
theory Scripting
  imports Js_Values
begin

text \<open>
  Evaluation of \<open>${expr}\<close> and \<open>$=expr=\<close> inside DSL values: the scanner and the fast path of
  \<open>src/scripting/mod.rs\<close> and the evaluator of the default backend \<open>src/scripting/boa.rs\<close>.

  The JavaScript engine (crate \<open>boa\<close>) is a parameter: a JS context is determined by the sources
  it has evaluated, so \<open>js_eval history source\<close> is the outcome of one more source, a JavaScript
  value or an error message. Rendering and reading JSON text (crate \<open>serde_json\<close>) are parameters too.
  The walk over a value and its strings is the same in both backends; it takes the way a script is
  run as the argument \<open>run\<close>, with the state of the backend threaded through.

  The lemmas show that the scanner's segments are exact, ordered and disjoint pieces of the
  string, and that the fast path is sound: a value without expressions evaluates to itself on the
  slow path too.
\<close>

record script_params =
  js_eval :: "string list \<Rightarrow> string \<Rightarrow> string + js_value"
  json_text :: "json \<Rightarrow> string"
  json_read :: "string \<Rightarrow> string + json"

section \<open>Scanning\<close>

text \<open>
  The inner loop of \<open>find_script_segments\<close>: from index \<open>j\<close> at brace depth \<open>depth\<close>, inside a string
  literal with quote \<open>in_str\<close> or not, find the index of the brace that closes depth 1.
\<close>

fun find_close :: "string \<Rightarrow> nat \<Rightarrow> nat \<Rightarrow> char option \<Rightarrow> bool \<Rightarrow> nat option" where
  "find_close [] j depth in_str escape = None"
| "find_close (b # bs) j depth in_str escape =
     (case in_str of
        Some q \<Rightarrow>
          if escape then find_close bs (Suc j) depth in_str False
          else if b = CHR 0x5C then find_close bs (Suc j) depth in_str True
          else if b = q then find_close bs (Suc j) depth None False
          else find_close bs (Suc j) depth in_str False
      | None \<Rightarrow>
          if b = CHR 0x22 \<or> b = CHR 0x27 \<or> b = CHR 0x60
          then find_close bs (Suc j) depth (Some b) escape
          else if b = CHR ''{'' then find_close bs (Suc j) (Suc depth) None escape
          else if b = CHR ''}'' then
            (if depth = 1 then Some j else find_close bs (Suc j) (depth - 1) None escape)
          else find_close bs (Suc j) depth None escape)"

lemma find_close_bounds:
  "find_close bs j depth in_str escape = Some k \<Longrightarrow> j \<le> k \<and> k < j + length bs"
  by (induction bs j depth in_str escape rule: find_close.induct)
     (auto split: option.splits if_splits)

function find_segments_from :: "string \<Rightarrow> nat \<Rightarrow> (nat \<times> nat \<times> string) list" where
  "find_segments_from s i =
     (if Suc i < length s then
        if s ! i = CHR ''$'' \<and> s ! Suc i = CHR ''{'' then
          (case find_close (drop (i + 2) s) (i + 2) 1 None False of
             Some j \<Rightarrow>
               (i, Suc j, take (j - (i + 2)) (drop (i + 2) s)) # find_segments_from s (Suc j)
           | None \<Rightarrow> find_segments_from s (Suc i))
        else find_segments_from s (Suc i)
      else [])"
  by pat_completeness auto
termination
  by (relation "measure (\<lambda>(s, i). length s - i)") (auto dest: find_close_bounds)

definition find_script_segments :: "string \<Rightarrow> (nat \<times> nat \<times> string) list" where
  "find_script_segments s = find_segments_from s 0"

text \<open>The whole-string match of the regex \<open>\$=(.+)=$\<close>; \<open>.\<close> excludes the newline.\<close>

definition line_expression :: "string \<Rightarrow> string option" where
  "line_expression s =
     (let inner = take (length s - 3) (drop 2 s) in
      if starts_with s ''$='' \<and> 4 \<le> length s \<and> last s = CHR ''='' \<and> CHR 0x0A \<notin> set inner
      then Some inner else None)"

definition string_has_expressions :: "string \<Rightarrow> bool" where
  "string_has_expressions s \<longleftrightarrow>
     contains_str s ''${'' \<or> (starts_with s ''$='' \<and> line_expression s \<noteq> None)"

fun has_expressions :: "json \<Rightarrow> bool" where
  "has_expressions (JString s) \<longleftrightarrow> string_has_expressions s"
| "has_expressions (JObject m) \<longleftrightarrow> list_ex (\<lambda>(_, v). has_expressions v) m"
| "has_expressions (JArray a) \<longleftrightarrow> list_ex has_expressions a"
| "has_expressions _ \<longleftrightarrow> False"

section \<open>Evaluation\<close>

definition MAX_UNDECLARED_RETRIES :: nat where
  "MAX_UNDECLARED_RETRIES = 16"

definition wrap_script :: "string \<Rightarrow> string" where
  "wrap_script script = ''(function(){ return ('' @ script @ ''); }).call(globalThis)''"

text \<open>\<open>format!("{:04x}", n)\<close> for a control character.\<close>

definition hex_digit :: "nat \<Rightarrow> char" where
  "hex_digit n = (if n < 10 then char_of (48 + n) else char_of (87 + n))"

definition escape_js_char :: "char \<Rightarrow> string" where
  "escape_js_char c =
     (if c = CHR 0x5C then [CHR 0x5C, CHR 0x5C]
      else if c = CHR 0x22 then [CHR 0x5C, CHR 0x22]
      else if c = CHR 0x0A then [CHR 0x5C, CHR ''n'']
      else if c = CHR 0x0D then [CHR 0x5C, CHR ''r'']
      else if c = CHR 0x09 then [CHR 0x5C, CHR ''t'']
      else if (of_char c :: nat) < 0x20
      then [CHR 0x5C, CHR ''u'', CHR ''0'', CHR ''0'',
            hex_digit (of_char c div 16), hex_digit (of_char c mod 16)]
      else [c])"

definition js_string_literal :: "string \<Rightarrow> string" where
  "js_string_literal s = [CHR 0x22] @ concat (map escape_js_char s) @ [CHR 0x22]"

definition declare_undefined :: "string \<Rightarrow> string" where
  "declare_undefined ident = ''globalThis['' @ js_string_literal ident @ ''] = undefined;''"

text \<open>
  The bounded retry loop: \<open>n\<close> attempts are left. The history grows by every source evaluated,
  so a failed attempt and the declaration it led to are visible to the next one.
\<close>

fun execute_js :: "script_params \<Rightarrow> nat \<Rightarrow> string \<Rightarrow> string list \<Rightarrow> json result \<times> string list" where
  "execute_js P 0 script h = (Inl (ScriptEvaluation (RetryCapExceeded script)), h)"
| "execute_js P (Suc n) script h =
     (let src = wrap_script script; h1 = h @ [src] in
      case js_eval P h src of
        Inr v \<Rightarrow> (js_value_to_json (json_read P) v, h1)
      | Inl msg \<Rightarrow>
          (case extract_undeclared_identifier msg of
             None \<Rightarrow> (Inl (ScriptEvaluation (ScriptFailed msg)), h1)
           | Some ident \<Rightarrow>
               (let decl = declare_undefined ident; h2 = h1 @ [decl] in
                case js_eval P h1 decl of
                  Inl e \<Rightarrow> (Inl (ScriptEvaluation (ScriptFailed e)), h2)
                | Inr _ \<Rightarrow> execute_js P n script h2)))"

definition run_script :: "script_params \<Rightarrow> string \<Rightarrow> string list \<Rightarrow> json result \<times> string list" where
  "run_script P = execute_js P (Suc MAX_UNDECLARED_RETRIES)"

definition maybe_suppress_optional_null :: "json \<Rightarrow> string \<Rightarrow> json" where
  "maybe_suppress_optional_null v expr =
     (if v = JNull \<and> (contains_str expr ''.optional.'' \<or> contains_str expr ''.optional_'')
      then JString [] else v)"

text \<open>
  The mixed-string loop over the segments: the output so far, the cursor, the first error. A
  failing segment does not stop the others from being evaluated.
\<close>

fun interpolate_segments ::
  "(json \<Rightarrow> string) \<Rightarrow> (string \<Rightarrow> 'h \<Rightarrow> json result \<times> 'h) \<Rightarrow> string \<Rightarrow> (nat \<times> nat \<times> string) list \<Rightarrow> nat \<Rightarrow>
   string \<Rightarrow> ruuter_error option \<Rightarrow> 'h \<Rightarrow> json result \<times> 'h" where
  "interpolate_segments render run s [] cursor out last_err h =
     (case last_err of
        Some e \<Rightarrow> (Inl e, h)
      | None \<Rightarrow> (Inr (JString (out @ drop cursor s)), h))"
| "interpolate_segments render run s ((start, end', inner) # segs) cursor out last_err h =
     (let lead = take (start - cursor) (drop cursor s); (r, h1) = run inner h in
      case r of
        Inr v \<Rightarrow>
          (let piece = (case maybe_suppress_optional_null v inner of
                 JString t \<Rightarrow> t | JNull \<Rightarrow> [] | other \<Rightarrow> render other)
           in interpolate_segments render run s segs end' (out @ lead @ piece) last_err h1)
      | Inl e \<Rightarrow>
          interpolate_segments render run s segs end' (out @ lead @ take (end' - start) (drop start s))
            (case last_err of None \<Rightarrow> Some e | Some e0 \<Rightarrow> Some e0) h1)"

text \<open>The script that is the whole string, as \<open>${...}\<close> or as \<open>$=...=\<close>.\<close>

definition whole_script :: "string \<Rightarrow> string option" where
  "whole_script s =
     (case (case find_script_segments s of [(start, end', inner)] \<Rightarrow>
              if start = 0 \<and> end' = length s then Some inner else None | _ \<Rightarrow> None) of
        Some e \<Rightarrow> Some e | None \<Rightarrow> line_expression s)"

definition evaluate_string ::
  "(json \<Rightarrow> string) \<Rightarrow> (string \<Rightarrow> 'h \<Rightarrow> json result \<times> 'h) \<Rightarrow> string \<Rightarrow> 'h \<Rightarrow> json result \<times> 'h" where
  "evaluate_string render run s h =
     (case whole_script s of
        Some inner \<Rightarrow>
          (case run inner h of
             (Inr v, h1) \<Rightarrow> (Inr (maybe_suppress_optional_null v inner), h1)
           | (Inl e, h1) \<Rightarrow> (Inl e, h1))
      | None \<Rightarrow> interpolate_segments render run s (find_script_segments s) 0 [] None h)"

fun evaluate_with ::
  "(json \<Rightarrow> string) \<Rightarrow> (string \<Rightarrow> 'h \<Rightarrow> json result \<times> 'h) \<Rightarrow> json \<Rightarrow> 'h \<Rightarrow> json result \<times> 'h"
and evaluate_entries ::
  "(json \<Rightarrow> string) \<Rightarrow> (string \<Rightarrow> 'h \<Rightarrow> json result \<times> 'h) \<Rightarrow> (string \<times> json) list \<Rightarrow> 'h \<Rightarrow>
   (string \<times> json) list result \<times> 'h"
and evaluate_items ::
  "(json \<Rightarrow> string) \<Rightarrow> (string \<Rightarrow> 'h \<Rightarrow> json result \<times> 'h) \<Rightarrow> json list \<Rightarrow> 'h \<Rightarrow> json list result \<times> 'h"
where
  "evaluate_with render run (JString s) h = evaluate_string render run s h"
| "evaluate_with render run (JObject m) h =
     (case evaluate_entries render run m h of
        (Inr m', h1) \<Rightarrow> (Inr (JObject m'), h1) | (Inl e, h1) \<Rightarrow> (Inl e, h1))"
| "evaluate_with render run (JArray a) h =
     (case evaluate_items render run a h of
        (Inr a', h1) \<Rightarrow> (Inr (JArray a'), h1) | (Inl e, h1) \<Rightarrow> (Inl e, h1))"
| "evaluate_with render run JNull h = (Inr JNull, h)"
| "evaluate_with render run (JBool b) h = (Inr (JBool b), h)"
| "evaluate_with render run (JNumber n) h = (Inr (JNumber n), h)"
| "evaluate_entries render run [] h = (Inr [], h)"
| "evaluate_entries render run ((k, v) # m) h =
     (case evaluate_with render run v h of
        (Inl e, h1) \<Rightarrow> (Inl e, h1)
      | (Inr v', h1) \<Rightarrow>
          (case evaluate_entries render run m h1 of
             (Inl e, h2) \<Rightarrow> (Inl e, h2) | (Inr m', h2) \<Rightarrow> (Inr ((k, v') # m'), h2)))"
| "evaluate_items render run [] h = (Inr [], h)"
| "evaluate_items render run (v # a) h =
     (case evaluate_with render run v h of
        (Inl e, h1) \<Rightarrow> (Inl e, h1)
      | (Inr v', h1) \<Rightarrow>
          (case evaluate_items render run a h1 of
             (Inl e, h2) \<Rightarrow> (Inl e, h2) | (Inr a', h2) \<Rightarrow> (Inr (v' # a'), h2)))"

definition incoming_json :: "execution_context \<Rightarrow> json" where
  "incoming_json c = JObject
     [(''params'', JObject (request_query c)), (''body'', JObject (request_body c)),
      (''headers'', JObject (map (\<lambda>(k, v). (k, JString v)) (request_headers c))),
      (''connection_id'', (case connection_id c of Some i \<Rightarrow> JString i | None \<Rightarrow> JNull)),
      (''origin'', JString (request_origin c))]"

text \<open>The sources that bind the request and the variables in a fresh JS context.\<close>

definition binding_sources :: "script_params \<Rightarrow> execution_context \<Rightarrow> string list" where
  "binding_sources P c =
     (''var incoming = '' @ json_text P (incoming_json c) @ '';'') #
     map (\<lambda>(k, v). ''globalThis['' @ js_string_literal k @ ''] = '' @ json_text P v @ '';'')
       (variables c)"

fun setup_bindings :: "script_params \<Rightarrow> string list \<Rightarrow> string list \<Rightarrow> string list result" where
  "setup_bindings P [] h = Inr h"
| "setup_bindings P (src # rest) h =
     (case js_eval P h src of
        Inl e \<Rightarrow> Inl (ScriptEvaluation (ScriptFailed e))
      | Inr _ \<Rightarrow> setup_bindings P rest (h @ [src]))"

definition evaluate_tracked ::
  "script_params \<Rightarrow> json \<Rightarrow> execution_context \<Rightarrow> (json \<times> bool) result" where
  "evaluate_tracked P input c =
     (if \<not> has_expressions input then Inr (input, False)
      else bindr (setup_bindings P (binding_sources P c) [])
        (\<lambda>h. bindr (fst (evaluate_with (json_text P) (run_script P) input h)) (\<lambda>v. Inr (v, True))))"

definition evaluate :: "script_params \<Rightarrow> execution_context \<Rightarrow> json \<Rightarrow> json result" where
  "evaluate P c input = bindr (evaluate_tracked P input c) (\<lambda>(v, _). Inr v)"

section \<open>Lemmas\<close>

declare find_segments_from.simps [simp del]

lemma contains_str_pair:
  "contains_str s [a, b] \<longleftrightarrow> (\<exists>i. Suc i < length s \<and> s ! i = a \<and> s ! Suc i = b)"
proof (induction s)
  case (Cons x xs)
  have "starts_with (x # xs) [a, b] \<longleftrightarrow> x = a \<and> xs \<noteq> [] \<and> hd xs = b"
    by (cases xs) (auto simp: starts_with_def)
  then have "contains_str (x # xs) [a, b] \<longleftrightarrow> (x = a \<and> xs \<noteq> [] \<and> hd xs = b) \<or>
      (\<exists>i. Suc i < length xs \<and> xs ! i = a \<and> xs ! Suc i = b)"
    using Cons.IH by simp
  also have "\<dots> \<longleftrightarrow> (\<exists>i. Suc i < length (x # xs) \<and> (x # xs) ! i = a \<and> (x # xs) ! Suc i = b)"
  proof
    assume "(x = a \<and> xs \<noteq> [] \<and> hd xs = b) \<or> (\<exists>i. Suc i < length xs \<and> xs ! i = a \<and> xs ! Suc i = b)"
    then show "\<exists>i. Suc i < length (x # xs) \<and> (x # xs) ! i = a \<and> (x # xs) ! Suc i = b"
    proof (elim disjE exE conjE)
      assume "x = a" "xs \<noteq> []" "hd xs = b"
      then show ?thesis by (intro exI[of _ 0]) (simp add: hd_conv_nth)
    next
      fix i assume "Suc i < length xs" "xs ! i = a" "xs ! Suc i = b"
      then show ?thesis by (intro exI[of _ "Suc i"]) simp
    qed
  next
    assume "\<exists>i. Suc i < length (x # xs) \<and> (x # xs) ! i = a \<and> (x # xs) ! Suc i = b"
    then obtain i where i: "Suc i < length (x # xs)" "(x # xs) ! i = a" "(x # xs) ! Suc i = b" by blast
    show "(x = a \<and> xs \<noteq> [] \<and> hd xs = b) \<or> (\<exists>i. Suc i < length xs \<and> xs ! i = a \<and> xs ! Suc i = b)"
      using i by (cases i) (auto simp: hd_conv_nth)
  qed
  finally show ?case .
qed simp

lemma no_opener_no_segments:
  "\<not> contains_str s ''${'' \<Longrightarrow> find_segments_from s i = []"
proof (induction s i rule: find_segments_from.induct)
  case (1 s i)
  then show ?case
    by (subst find_segments_from.simps) (auto simp: contains_str_pair)
qed

lemma evaluate_literal_string:
  "\<not> string_has_expressions s \<Longrightarrow> evaluate_string render run s h = (Inr (JString s), h)"
  by (auto simp: whole_script_def string_has_expressions_def evaluate_string_def find_script_segments_def
      no_opener_no_segments line_expression_def Let_def)

lemma evaluate_literal:
  "\<not> has_expressions v \<Longrightarrow> evaluate_with render run v h = (Inr v, h)"
  "\<not> list_ex (\<lambda>(_, v). has_expressions v) m \<Longrightarrow> evaluate_entries render run m h = (Inr m, h)"
  "\<not> list_ex has_expressions a \<Longrightarrow> evaluate_items render run a h = (Inr a, h)"
  by (induction render run v h and render run m h and render run a h rule: evaluate_with_evaluate_entries_evaluate_items.induct)
     (auto simp: evaluate_literal_string)

text \<open>Every segment is a piece \<open>${inner}\<close> of the string, and starts where the previous one ended or later.\<close>

fun segments_ok :: "string \<Rightarrow> nat \<Rightarrow> (nat \<times> nat \<times> string) list \<Rightarrow> bool" where
  "segments_ok s i [] \<longleftrightarrow> True"
| "segments_ok s i ((a, b, inner) # segs) \<longleftrightarrow>
     i \<le> a \<and> b \<le> length s \<and> take (b - a) (drop a s) = ''${'' @ inner @ ''}'' \<and> segments_ok s b segs"

lemma segments_ok_mono: "segments_ok s i segs \<Longrightarrow> i' \<le> i \<Longrightarrow> segments_ok s i' segs"
  by (cases segs) auto

lemma find_close_brace:
  "find_close bs j depth in_str escape = Some k \<Longrightarrow> bs ! (k - j) = CHR ''}''"
proof (induction bs j depth in_str escape rule: find_close.induct)
  case (2 b bs j depth in_str escape)
  show ?case
  proof (cases "in_str = None \<and> b = CHR ''}'' \<and> depth = 1")
    case True
    then show ?thesis using "2.prems" by simp
  next
    case False
    then obtain d' i' e' where rec: "find_close bs (Suc j) d' i' e' = Some k"
      and ih: "bs ! (k - Suc j) = CHR ''}''"
      using "2.prems" "2.IH" by (auto split: option.splits if_splits)
    have "Suc j \<le> k" using find_close_bounds[OF rec] by simp
    then have "k - j = Suc (k - Suc j)" by simp
    then show ?thesis using ih by simp
  qed
qed simp

lemma segment_text:
  assumes "Suc i < length s" "s ! i = CHR ''$''" "s ! Suc i = CHR ''{''"
    and "i + 2 \<le> j" "j < length s" "s ! j = CHR ''}''"
  shows "take (Suc j - i) (drop i s) = ''${'' @ take (j - (i + 2)) (drop (i + 2) s) @ ''}''"
proof -
  have d: "drop i s = CHR ''$'' # CHR ''{'' # drop (i + 2) s"
    using assms(1-3) by (metis Cons_nth_drop_Suc Suc_lessD add_2_eq_Suc')
  have "Suc j - i = Suc (Suc (Suc (j - (i + 2))))" using assms(4) by simp
  moreover have "take (Suc (j - (i + 2))) (drop (i + 2) s) =
      take (j - (i + 2)) (drop (i + 2) s) @ [CHR ''}'']"
    using assms(4-6) by (simp add: take_Suc_conv_app_nth del: add_2_eq_Suc')
  ultimately show ?thesis by (simp only: d take_Suc_Cons append_Cons append_Nil)
qed

lemma find_segments_ok: "segments_ok s i (find_segments_from s i)"
proof (induction s i rule: find_segments_from.induct)
  case (1 s i)
  show ?case
  proof (cases "Suc i < length s \<and> s ! i = CHR ''$'' \<and> s ! Suc i = CHR ''{''")
    case True
    show ?thesis
    proof (cases "find_close (drop (i + 2) s) (i + 2) 1 None False")
      case None
      have "segments_ok s (Suc i) (find_segments_from s (Suc i))"
        using "1.IH"(1) True None by blast
      then have "segments_ok s i (find_segments_from s (Suc i))" by (rule segments_ok_mono) simp
      then show ?thesis
        using True None by (subst find_segments_from.simps) simp
    next
      case (Some j)
      have rest: "segments_ok s (Suc j) (find_segments_from s (Suc j))"
        using "1.IH"(2) True Some by blast
      have j: "i + 2 \<le> j" "j < length s" using find_close_bounds[OF Some] True by auto
      have "s ! j = CHR ''}''" using find_close_brace[OF Some] j by (simp del: add_2_eq_Suc')
      then show ?thesis
        using Some True rest j segment_text[of i s j] by (subst find_segments_from.simps) simp
    qed
  next
    case False
    have "segments_ok s (Suc i) (find_segments_from s (Suc i))" if "Suc i < length s"
      using "1.IH"(3) that False by blast
    then have "segments_ok s i (find_segments_from s (Suc i))" if "Suc i < length s"
      using that segments_ok_mono by (metis le_SucI order_refl)
    then show ?thesis
      using False by (subst find_segments_from.simps) auto
  qed
qed

section \<open>Properties\<close>

text \<open>
  C35. The literal fast path is sound: a value that \<open>has_expressions\<close> calls literal evaluates to
  itself also by the full evaluator of either backend, without running a single script (the state of
  the backend does not change), so skipping the engine never changes a result.
\<close>

theorem fast_path_sound:
  assumes "\<not> has_expressions v"
  shows "evaluate_with render run v h = (Inr v, h) \<and> evaluate P c v = Inr v"
  using assms by (simp add: evaluate_literal evaluate_def evaluate_tracked_def)

theorem fast_path_sound_witness:
  "(let v = JArray [JString ''a$b'', JNull];
        P = \<lparr>js_eval = \<lambda>_ _. Inl ''boom'', json_text = \<lambda>_. [], json_read = \<lambda>_. Inl ''boom''\<rparr> in
    \<not> has_expressions v \<and> evaluate_with (json_text P) (run_script P) v [] = (Inr v, []) \<and>
    evaluate P (ctx_with_state [] [] [] [] []) v = Inr v)"
proof -
  have lit: "\<not> has_expressions (JArray [JString ''a$b'', JNull])"
    by (simp add: string_has_expressions_def starts_with_def)
  show ?thesis unfolding Let_def
    by (intro conjI lit fast_path_sound[OF lit, THEN conjunct1] fast_path_sound[OF lit, THEN conjunct2])
qed

text \<open>
  The scanner returns exact pieces: each segment \<open>(a, b, inner)\<close> covers the text
  \<open>${inner}\<close> of the string, and the segments are in order and do not overlap.
\<close>

theorem script_segments_exact:
  "segments_ok s 0 (find_script_segments s)"
  unfolding find_script_segments_def by (rule find_segments_ok)

text \<open>A reader of JS string literals with the escapes the encoder uses.\<close>

definition hex_value :: "char \<Rightarrow> nat" where
  "hex_value c = (let n = of_char c in if n < 58 then n - 48 else n - 87)"

fun read_js_body :: "string \<Rightarrow> (string \<times> string) option" where
  "read_js_body [] = None"
| "read_js_body (b # bs) =
     (if b = CHR 0x22 then Some ([], bs)
      else if b = CHR 0x0A \<or> b = CHR 0x0D then None
      else if b \<noteq> CHR 0x5C then map_option (\<lambda>(t, r). (b # t, r)) (read_js_body bs)
      else (case bs of
          [] \<Rightarrow> None
        | e # rest \<Rightarrow>
            if e = CHR ''u'' then
              (case rest of
                 z1 # z2 # h1 # h2 # rest' \<Rightarrow>
                   map_option (\<lambda>(t, r). (char_of (hex_value h1 * 16 + hex_value h2) # t, r))
                     (read_js_body rest')
               | _ \<Rightarrow> None)
            else map_option (\<lambda>(t, r). ((if e = CHR ''n'' then CHR 0x0A else if e = CHR ''r'' then CHR 0x0D
                else if e = CHR ''t'' then CHR 0x09 else e) # t, r)) (read_js_body rest)))"

lemma hex_value_digit: "n < 16 \<Longrightarrow> hex_value (hex_digit n) = n"
  by (auto simp: hex_value_def hex_digit_def Let_def of_char_of)

lemma control_char_hex:
  "(of_char c :: nat) < 0x20 \<Longrightarrow>
   char_of (hex_value (hex_digit (of_char c div 16)) * 16 + hex_value (hex_digit (of_char c mod 16))) = c"
  by (simp add: hex_value_digit)

lemma read_escaped_char:
  "read_js_body (escape_js_char c @ rest) = map_option (\<lambda>(t, r). (c # t, r)) (read_js_body rest)"
proof (cases "(of_char c :: nat) < 0x20 \<and> c \<notin> {CHR 0x0A, CHR 0x0D, CHR 0x09}")
  case True
  then have "c \<noteq> CHR 0x5C" "c \<noteq> CHR 0x22" by auto
  then show ?thesis using True control_char_hex[of c] by (simp add: escape_js_char_def)
next
  case False
  then show ?thesis by (auto simp: escape_js_char_def)
qed

text \<open>
  Variable names cannot inject script: the JS literal written for a name reads back as
  exactly that name and ends exactly where the encoder ended it, whatever quotes, backslashes,
  newlines or control characters the name has and whatever text follows.
\<close>

theorem js_literal_roundtrip:
  "\<exists>body. js_string_literal s @ rest = CHR 0x22 # body \<and> read_js_body body = Some (s, rest)"
proof -
  have "read_js_body (concat (map escape_js_char s) @ CHR 0x22 # rest) = Some (s, rest)"
  proof (induction s)
    case (Cons c s)
    then show ?case using read_escaped_char[of c "concat (map escape_js_char s) @ CHR 0x22 # rest"] by simp
  qed simp
  then show ?thesis by (simp add: js_string_literal_def)
qed

end
