(* ===== verification/Http_Client.thy ===== *)
theory Http_Client
  imports Scripting
begin

text \<open>
  The outbound HTTP client (\<open>src/http_client/mod.rs\<close>): the order of its dispatch (offline switch,
  outbound switch, self-call, Unix sockets, SSRF check, TCP), the SSRF policy, the encoding of a
  request for the wire, the self-call into the router, and the decoding of a response.

  Parameters (\<open>net_params\<close>): URL parsing (crate \<open>url\<close>), IP parsing, DNS, JSON parsing and printing,
  lossy UTF-8 decoding, and the two transports (crate \<open>reqwest\<close> over TCP, \<open>hyper\<close> over a Unix
  socket), which get the number of calls made before so that equal requests may be answered
  differently. The router behind a self-call is the trait \<open>SelfCallHandler\<close>, a function on the
  client's world; \<open>None\<close> stands for a handler that has not finished within the fuel given to it.
  The debug-only URL rewriting is left out: a release build compiles it to nothing.
\<close>

section \<open>Types\<close>

record parsed_url =
  pu_scheme :: string
  pu_host :: "string option"
  pu_port :: "u16 option"
  pu_path :: string
  pu_query :: "string option"
  pu_query_pairs :: "(string \<times> string) list"

datatype ssrf_resolution = NoPinning | Pinned string "ip_addr list"

datatype wire_body =
    NoBody
  | PlainText string
  | Multipart "(string \<times> string option \<times> string) list"
  | FormUrlEncoded "(string \<times> string) list"
  | JsonBody json

record wire_request =
  wr_method :: string
  wr_url :: string
  wr_query :: "(string \<times> string) list"
  wr_headers :: "(string \<times> string) list"
  wr_body :: wire_body
  wr_timeout :: "u64 option"

datatype body_chunk = Chunk string | ReadError string string

datatype tcp_outcome =
    TransportFailed string string
  | Replied u16 "string hmap" "body_chunk list"

text \<open>What goes to a Unix socket: the socket, the \<open>Host\<close>, the request target, the header list and the bytes.\<close>

record uds_request =
  uw_socket :: string
  uw_host :: string
  uw_target :: string
  uw_method :: string
  uw_headers :: "(string \<times> string) list"
  uw_body :: string

datatype uds_outcome =
    UdsTimedOut
  | UdsFailed string
  | UdsReplied u16 "string hmap" "body_chunk list"

record http_request =
  rq_method :: string
  rq_url :: string
  rq_body :: "json option"
  rq_query :: "json hmap option"
  rq_headers :: "json hmap option"
  rq_timeout :: "u64 option"
  rq_content_type :: "string option"

record http_response =
  hr_status :: u16
  hr_body :: "json option"
  hr_headers :: "string hmap"
  hr_error :: "string option"

record net_params =
  parse_url :: "string \<Rightarrow> parsed_url option"
  parse_ip :: "string \<Rightarrow> ip_addr option"
  lookup_host :: "string \<Rightarrow> u16 \<Rightarrow> ip_addr list option"
  parse_json :: "string \<Rightarrow> json option"
  parse_usize :: "string \<Rightarrow> nat option"
  show_port :: "u16 \<Rightarrow> string"
  utf8_lossy :: "string \<Rightarrow> string"
  show_value :: "json \<Rightarrow> string"
  tcp_send :: "nat \<Rightarrow> ssrf_resolution \<Rightarrow> wire_request \<Rightarrow> tcp_outcome"
  uds_send :: "nat \<Rightarrow> uds_request \<Rightarrow> uds_outcome"

record http_client =
  response_size_limit :: "nat option"
  status_allow_list :: "u16 list"
  outbound_disabled :: bool
  allowed_url_prefixes :: "string list"
  allowed_ip_hosts :: "string list"
  block_private_networks :: bool
  unix_socket_map :: "string hmap"
  self_tcp :: "(string \<times> u16) list"
  offline :: bool

type_synonym 'w self_call_handler =
  "string \<Rightarrow> string \<Rightarrow> json hmap \<Rightarrow> string hmap \<Rightarrow> json hmap \<Rightarrow> 'w \<Rightarrow>
   (http_response result \<times> 'w) option"

section \<open>Addresses and origins\<close>

text \<open>\<open>Url::port_or_known_default\<close> of the schemes the client accepts.\<close>

definition port_or_known_default :: "parsed_url \<Rightarrow> u16 option" where
  "port_or_known_default u =
     (case pu_port u of
        Some p \<Rightarrow> Some p
      | None \<Rightarrow>
          if pu_scheme u \<in> {''http'', ''ws''} then Some 80
          else if pu_scheme u \<in> {''https'', ''wss''} then Some 443
          else if pu_scheme u = ''ftp'' then Some 21 else None)"

definition self_origins_matches :: "net_params \<Rightarrow> http_client \<Rightarrow> string \<Rightarrow> bool" where
  "self_origins_matches N C url =
     (case parse_url N url of
        None \<Rightarrow> False
      | Some u \<Rightarrow>
          if pu_scheme u \<noteq> ''http'' \<and> pu_scheme u \<noteq> ''https'' then False
          else case pu_host u of
            None \<Rightarrow> False
          | Some host \<Rightarrow>
              (host, (case pu_port u of Some p \<Rightarrow> p
                      | None \<Rightarrow> if pu_scheme u = ''http'' then 80 else 443)) \<in> set (self_tcp C))"

definition v4_private :: "u32 \<Rightarrow> bool" where
  "v4_private ip =
     (let a = unat (drop_bit 24 ip); b = unat (drop_bit 16 ip) mod 256 in
      a = 127 \<or> (a = 169 \<and> b = 254) \<or> ip = 0 \<or> ip = 0xFFFFFFFF \<or>
      a = 10 \<or> (a = 172 \<and> 16 \<le> b \<and> b \<le> 31) \<or> (a = 192 \<and> b = 168) \<or>
      (a = 100 \<and> 64 \<le> b \<and> b \<le> 127))"

definition is_private_or_local :: "ip_addr \<Rightarrow> bool" where
  "is_private_or_local ip =
     (case ip of
        V4 v4 \<Rightarrow> v4_private v4
      | V6 v6 \<Rightarrow>
          if v6 = 1 \<or> v6 = 0 then True
          else if drop_bit 32 v6 = 0xFFFF then v4_private (ucast v6)
          else let seg = unat (drop_bit 112 v6) in seg div 64 = 0x3FA \<or> seg div 512 = 0x7E)"

definition url_origin :: "net_params \<Rightarrow> parsed_url \<Rightarrow> string option" where
  "url_origin N u =
     (if pu_scheme u \<noteq> ''http'' \<and> pu_scheme u \<noteq> ''https'' then None
      else Option.bind (pu_host u) (\<lambda>host.
           map_option (\<lambda>port. pu_scheme u @ ''://'' @ host @ '':'' @ show_port N port)
             (port_or_known_default u)))"

text \<open>\<open>str::find\<close> of a substring and of the first URL delimiter.\<close>

fun find_str :: "string \<Rightarrow> string \<Rightarrow> nat option" where
  "find_str [] p = (if p = [] then Some 0 else None)"
| "find_str (x # xs) p =
     (if starts_with (x # xs) p then Some 0 else map_option Suc (find_str xs p))"

definition is_delimiter :: "char \<Rightarrow> bool" where
  "is_delimiter c \<longleftrightarrow> c = CHR ''/'' \<or> c = CHR ''?'' \<or> c = CHR ''#''"

definition has_path_component :: "string \<Rightarrow> bool" where
  "has_path_component entry =
     (case find_str entry ''://'' of
        None \<Rightarrow> False
      | Some idx \<Rightarrow> list_ex is_delimiter (drop (idx + 3) entry))"

definition entry_scheme_authority_len :: "string \<Rightarrow> nat" where
  "entry_scheme_authority_len entry =
     (case find_str entry ''://'' of
        None \<Rightarrow> length entry
      | Some idx \<Rightarrow> idx + 3 + length (takeWhile (\<lambda>c. \<not> is_delimiter c) (drop (idx + 3) entry)))"

definition req_url_path_query :: "parsed_url \<Rightarrow> string" where
  "req_url_path_query u = pu_path u @ (case pu_query u of None \<Rightarrow> [] | Some q \<Rightarrow> ''?'' @ q)"

definition allow_entry_matches :: "net_params \<Rightarrow> string \<Rightarrow> string \<Rightarrow> parsed_url \<Rightarrow> bool" where
  "allow_entry_matches N entry req_origin req_url =
     (case Option.bind (parse_url N entry) (url_origin N) of
        None \<Rightarrow> False
      | Some entry_origin \<Rightarrow>
          if has_path_component entry then
            entry_origin = req_origin \<and>
            (let req_full = req_origin @ req_url_path_query req_url;
                 entry_full = entry_origin @ drop (entry_scheme_authority_len entry) entry
             in starts_with req_full entry_full \<and>
                ((entry_full \<noteq> [] \<and> is_delimiter (last entry_full)) \<or>
                 (let tail = drop (length entry_full) req_full in
                  tail = [] \<or> is_delimiter (hd tail) \<or> hd tail = CHR ''&'')))
          else entry_origin = req_origin)"

section \<open>The SSRF check\<close>

definition net_error :: "net_reason \<Rightarrow> 'a result" where
  "net_error r = Inl (HttpRequest (InNet r))"

definition check_allowed_urls :: "net_params \<Rightarrow> http_client \<Rightarrow> string \<Rightarrow> unit result" where
  "check_allowed_urls N C url =
     (if allowed_url_prefixes C = [] then Inr ()
      else case parse_url N url of
        None \<Rightarrow> net_error (UrlNotAllowed url)
      | Some u \<Rightarrow>
          (case url_origin N u of
             None \<Rightarrow> net_error (UrlNotAllowed url)
           | Some req_origin \<Rightarrow>
               if list_ex (\<lambda>entry. allow_entry_matches N entry req_origin u) (allowed_url_prefixes C)
               then Inr () else net_error (UrlNotAllowed url)))"

definition url_host :: "net_params \<Rightarrow> string \<Rightarrow> (parsed_url \<times> string) result" where
  "url_host N url =
     (case parse_url N url of
        None \<Rightarrow> net_error (UrlInvalid url)
      | Some u \<Rightarrow> (case pu_host u of None \<Rightarrow> net_error (UrlNoHost url) | Some h \<Rightarrow> Inr (u, h)))"

definition check_allowed_ips :: "net_params \<Rightarrow> http_client \<Rightarrow> string \<Rightarrow> unit result" where
  "check_allowed_ips N C url =
     (if allowed_ip_hosts C = [] then Inr ()
      else bindr (url_host N url) (\<lambda>(_, host).
        if host \<in> set (allowed_ip_hosts C) then Inr () else net_error (HostNotAllowed host)))"

definition check_private :: "net_params \<Rightarrow> string \<Rightarrow> ssrf_resolution result" where
  "check_private N url =
     bindr (url_host N url) (\<lambda>(u, host).
       case parse_ip N host of
         Some ip \<Rightarrow> if is_private_or_local ip then net_error (PrivateTarget host) else Inr NoPinning
       | None \<Rightarrow>
           (case lookup_host N host (opt_or (port_or_known_default u) 0) of
              None \<Rightarrow> net_error (DnsFailed host)
            | Some addrs \<Rightarrow>
                if list_ex is_private_or_local addrs then net_error (PrivateTarget host)
                else if addrs = [] then net_error (DnsEmpty host)
                else Inr (Pinned host addrs)))"

definition check_ssrf :: "net_params \<Rightarrow> http_client \<Rightarrow> string \<Rightarrow> ssrf_resolution result" where
  "check_ssrf N C url =
     (if outbound_disabled C then net_error OutboundDisabled
      else bindr (check_allowed_urls N C url) (\<lambda>_.
           bindr (check_allowed_ips N C url) (\<lambda>_.
           if block_private_networks C \<and> allowed_url_prefixes C = [] \<and> allowed_ip_hosts C = []
           then check_private N url else Inr NoPinning)))"

section \<open>The wire\<close>

definition value_text :: "net_params \<Rightarrow> json \<Rightarrow> string" where
  "value_text N v = (case v of JString s \<Rightarrow> s | _ \<Rightarrow> show_value N v)"

text \<open>Query parameters and headers: null values are dropped, strings go as they are.\<close>

definition wire_pairs :: "net_params \<Rightarrow> json hmap option \<Rightarrow> (string \<times> string) list" where
  "wire_pairs N m =
     (case m of None \<Rightarrow> []
      | Some kvs \<Rightarrow> map (\<lambda>(k, v). (k, value_text N v)) (filter (\<lambda>(_, v). v \<noteq> JNull) kvs))"

definition plaintext_body :: "net_params \<Rightarrow> json \<Rightarrow> string" where
  "plaintext_body N b =
     (case b of
        JObject m \<Rightarrow>
          (case (case map_of m ''text'' of Some v \<Rightarrow> Some v | None \<Rightarrow> map_of m ''plaintext'') of
             Some (JString s) \<Rightarrow> s
           | _ \<Rightarrow> show_value N b)
      | JString s \<Rightarrow> s
      | JNull \<Rightarrow> []
      | _ \<Rightarrow> show_value N b)"

definition form_part :: "net_params \<Rightarrow> string \<times> json \<Rightarrow> string \<times> string option \<times> string" where
  "form_part N kv =
     (case kv of (k, v) \<Rightarrow>
        (case strip_prefix ''file:'' k of
           Some rest \<Rightarrow>
             (let w = takeWhile (\<lambda>c. c \<noteq> CHR '':'') rest in
              (w, Some (if w = rest then rest else drop (Suc (length w)) rest), opt_or (as_str v) []))
         | None \<Rightarrow> (k, None, value_text N v)))"

definition wire_body_of :: "net_params \<Rightarrow> string option \<Rightarrow> json option \<Rightarrow> wire_body result" where
  "wire_body_of N ct body =
     (case body of
        None \<Rightarrow> Inr NoBody
      | Some b \<Rightarrow>
          if ct = Some ''plaintext'' then Inr (PlainText (plaintext_body N b))
          else if ct = Some ''formdata'' then
            (case b of
               JObject m \<Rightarrow>
                 if list_ex (\<lambda>(k, _). starts_with k ''file:'') m
                 then Inr (Multipart (map (form_part N) m))
                 else Inr (FormUrlEncoded (map (\<lambda>(k, v). (k, value_text N v)) m))
             | _ \<Rightarrow> Inl (HttpRequest (Text ''content_type: formdata requires body to be an object'')))
          else if ct = Some ''dynamicBody'' then
            Inr (JsonBody (case b of JObject m \<Rightarrow> opt_or (map_of m ''dynamicBody'') JNull | _ \<Rightarrow> b))
          else Inr (JsonBody b))"

definition content_type_is_json :: "string \<Rightarrow> bool" where
  "content_type_is_json ct =
     (let mime = to_ascii_lowercase (trim (hd (split_on CHR '';'' ct))) in
      mime = ''application/json'' \<or>
      (case strip_prefix ''application/'' mime of
         None \<Rightarrow> False
       | Some subtype \<Rightarrow> 5 \<le> length subtype \<and> drop (length subtype - 5) subtype = ''+json''))"

definition decode_response_body :: "net_params \<Rightarrow> string \<Rightarrow> string hmap \<Rightarrow> json option" where
  "decode_response_body N bytes headers =
     (if bytes = [] then Some (JString [])
      else
        let content_type = (case find (\<lambda>(k, _). eq_ignore_ascii_case k ''content-type'') headers of
              Some (_, v) \<Rightarrow> v | None \<Rightarrow> []) in
        if content_type_is_json content_type then
          (case parse_json N bytes of
             Some v \<Rightarrow> Some v
           | None \<Rightarrow> Some (JString (utf8_lossy N bytes)))
        else Some (JString (utf8_lossy N bytes)))"

definition stub_response :: "string \<Rightarrow> string \<Rightarrow> http_response" where
  "stub_response kind message =
     \<lparr>hr_status = 0, hr_body = Some (JObject [(''error'', JString kind), (''message'', JString message)]),
      hr_headers = [], hr_error = Some kind\<rparr>"

definition offline_stub_response :: http_response where
  "offline_stub_response =
     stub_response ''offline'' ''outbound HTTP is disabled by RUUTER_OFFLINE (h2ck.me v1 T-14)''"

text \<open>The streaming read: stop at the first read error, or as soon as the cap would be passed.\<close>

fun read_body :: "nat option \<Rightarrow> body_chunk list \<Rightarrow> string \<Rightarrow> (string \<times> string) + string result" where
  "read_body cap [] buf = Inr (Inr buf)"
| "read_body cap (ReadError kind msg # cs) buf = Inl (kind, msg)"
| "read_body cap (Chunk b # cs) buf =
     (case cap of
        Some n \<Rightarrow> if n < length buf + length b then Inr (Inl (HttpRequest (InNet (BodyTooLarge n))))
                  else read_body cap cs (buf @ b)
      | None \<Rightarrow> read_body cap cs (buf @ b))"

definition read_response ::
  "net_params \<Rightarrow> http_client \<Rightarrow> bool \<Rightarrow> u16 \<Rightarrow> string hmap \<Rightarrow> body_chunk list \<Rightarrow> http_response result" where
  "read_response N C force_json status headers chunks =
     (let rh = (if force_json then hm_insert ''content-type'' ''application/json'' headers else headers);
          cap = response_size_limit C
      in case (case cap of None \<Rightarrow> None
               | Some n \<Rightarrow> Option.bind (Option.bind (map_of rh ''content-length'') (parse_usize N))
                   (\<lambda>declared. if n < declared then Some n else None)) of
           Some n \<Rightarrow> Inl (HttpRequest (InNet (BodyTooLarge n)))
         | None \<Rightarrow>
             (case read_body cap chunks [] of
                Inl (kind, msg) \<Rightarrow> Inr (stub_response kind msg)
              | Inr (Inl e) \<Rightarrow> Inl e
              | Inr (Inr bytes) \<Rightarrow>
                  Inr \<lparr>hr_status = status, hr_body = decode_response_body N bytes rh,
                       hr_headers = rh, hr_error = None\<rparr>))"

definition tcp_request :: "net_params \<Rightarrow> http_client \<Rightarrow> nat \<Rightarrow> http_request \<Rightarrow> http_response result" where
  "tcp_request N C n rq =
     bindr (check_ssrf N C (rq_url rq)) (\<lambda>ssrf.
     bindr (wire_body_of N (rq_content_type rq) (rq_body rq)) (\<lambda>body.
       case tcp_send N n ssrf \<lparr>wr_method = rq_method rq, wr_url = rq_url rq,
              wr_query = wire_pairs N (rq_query rq), wr_headers = wire_pairs N (rq_headers rq),
              wr_body = body, wr_timeout = rq_timeout rq\<rparr> of
         TransportFailed kind msg \<Rightarrow> Inr (stub_response kind msg)
       | Replied status headers chunks \<Rightarrow>
           read_response N C (rq_content_type rq = Some ''json_override'') status headers chunks))"

section \<open>Self-calls and dispatch\<close>

definition self_call_query :: "parsed_url \<Rightarrow> json hmap option \<Rightarrow> json hmap" where
  "self_call_query u query =
     fold (\<lambda>(k, v) m. hm_insert k v m) (opt_or query [])
       (fold (\<lambda>(k, v) m. hm_insert k (JString v) m) (pu_query_pairs u) [])"

definition self_call_headers :: "net_params \<Rightarrow> json hmap option \<Rightarrow> string hmap" where
  "self_call_headers N headers =
     fold (\<lambda>(k, v) m. hm_insert (to_ascii_lowercase k) (value_text N v) m) (opt_or headers []) []"

definition self_call_body :: "json option \<Rightarrow> json hmap" where
  "self_call_body body =
     (case body of
        Some (JObject m) \<Rightarrow> m
      | Some other \<Rightarrow> [(''_body'', other)]
      | None \<Rightarrow> [])"

definition self_call_dispatch ::
  "net_params \<Rightarrow> 'w self_call_handler \<Rightarrow> http_request \<Rightarrow> 'w \<Rightarrow> (http_response result \<times> 'w) option" where
  "self_call_dispatch N handler rq w =
     (case parse_url N (rq_url rq) of
        None \<Rightarrow> Some (net_error (UrlInvalid (rq_url rq)), w)
      | Some u \<Rightarrow> handler (rq_method rq) (pu_path u) (self_call_query u (rq_query rq))
          (self_call_headers N (rq_headers rq)) (self_call_body (rq_body rq)) w)"

definition host_alias_lookup :: "net_params \<Rightarrow> http_client \<Rightarrow> string \<Rightarrow> string option" where
  "host_alias_lookup N C url =
     (if unix_socket_map C = [] then None
      else Option.bind (Option.bind (parse_url N url) pu_host) (map_of (unix_socket_map C)))"

section \<open>Unix sockets\<close>

definition at_marker :: "string \<Rightarrow> string \<Rightarrow> (string \<times> string) option" where
  "at_marker marker rest = map_option (\<lambda>pos.
     let e = pos + length marker; tail = drop e rest
     in (take e rest, if tail = [] then ''/'' else tail)) (find_str rest marker)"

definition parse_unix_url :: "string \<Rightarrow> (string \<times> string) result" where
  "parse_unix_url url =
     (case strip_prefix ''unix://'' url of
        None \<Rightarrow> net_error (UrlInvalid url)
      | Some rest \<Rightarrow>
          if \<not> starts_with rest ''/'' then net_error (UrlInvalid url)
          else (case at_marker ''.socket'' rest of
              Some r \<Rightarrow> Inr r
            | None \<Rightarrow>
                (case at_marker ''.sock'' rest of
                   Some r \<Rightarrow> Inr r
                 | None \<Rightarrow>
                     let after_leading = tl rest in
                     if CHR ''/'' \<in> set after_leading
                     then Inr (''/'' @ takeWhile (\<lambda>c. c \<noteq> CHR ''/'') after_leading,
                               dropWhile (\<lambda>c. c \<noteq> CHR ''/'') after_leading)
                     else Inr (rest, ''/''))))"

definition unreserved :: "char \<Rightarrow> bool" where
  "unreserved c \<longleftrightarrow> (let n = (of_char c :: nat) in
     65 \<le> n \<and> n \<le> 90 \<or> 97 \<le> n \<and> n \<le> 122 \<or> 48 \<le> n \<and> n \<le> 57 \<or>
     c = CHR ''-'' \<or> c = CHR ''_'' \<or> c = CHR ''.'' \<or> c = CHR ''~'')"

definition pct_digit :: "nat \<Rightarrow> char" where
  "pct_digit n = ''0123456789ABCDEF'' ! n"

definition urlencoding_encode :: "string \<Rightarrow> string" where
  "urlencoding_encode s = concat (map (\<lambda>c.
     if unreserved c then [c]
     else let n = of_char c in [CHR ''%'', pct_digit (n div 16), pct_digit (n mod 16)]) s)"

definition merge_query_params :: "net_params \<Rightarrow> string \<Rightarrow> json hmap option \<Rightarrow> string" where
  "merge_query_params N path_and_query extra =
     (case extra of
        None \<Rightarrow> path_and_query
      | Some q \<Rightarrow>
          if q = [] then path_and_query
          else path_and_query @ (if CHR ''?'' \<in> set path_and_query then ''&'' else ''?'') @
            join_with ''&'' (map (\<lambda>(k, v). urlencoding_encode k @ ''='' @ urlencoding_encode (value_text N v)) q))"

definition has_header :: "(string \<times> 'v) list \<Rightarrow> string \<Rightarrow> bool" where
  "has_header h name \<longleftrightarrow> list_ex (\<lambda>(k, _). eq_ignore_ascii_case k name) h"

text \<open>The default body headers, unless \<open>given\<close> (the header names that count as present) has them.\<close>

definition body_headers :: "net_params \<Rightarrow> (string \<times> 'v) list \<Rightarrow> string \<Rightarrow> (string \<times> string) list" where
  "body_headers N given bytes =
     (if bytes \<noteq> [] \<and> \<not> has_header given ''content-length'' then [(''content-length'', show_value N (JNumber (PosInt (of_nat (length bytes)))))] else []) @
     (if bytes \<noteq> [] \<and> \<not> has_header given ''content-type'' then [(''content-type'', ''application/json'')] else [])"

definition uds_body_bytes :: "net_params \<Rightarrow> json option \<Rightarrow> string" where
  "uds_body_bytes N body = (case body of Some v \<Rightarrow> show_value N v | None \<Rightarrow> [])"

text \<open>
  The header lists of the pooled client and of the single-shot one. The first looks for the two
  defaults among all header names, the second among those that are left without the null values.
\<close>

definition pooled_headers :: "net_params \<Rightarrow> json hmap option \<Rightarrow> string \<Rightarrow> (string \<times> string) list" where
  "pooled_headers N headers bytes = wire_pairs N headers @ body_headers N (opt_or headers []) bytes"

definition single_headers :: "net_params \<Rightarrow> json hmap option \<Rightarrow> string \<Rightarrow> (string \<times> string) list" where
  "single_headers N headers bytes = wire_pairs N headers @ body_headers N (wire_pairs N headers) bytes"

definition declared_too_large :: "net_params \<Rightarrow> nat option \<Rightarrow> string hmap \<Rightarrow> nat option" where
  "declared_too_large N cap headers = Option.bind cap (\<lambda>n.
     Option.bind (Option.bind (map_of headers ''content-length'') (parse_usize N)) (\<lambda>declared.
       if n < declared then Some n else None))"

definition uds_response :: "net_params \<Rightarrow> http_client \<Rightarrow> uds_outcome \<Rightarrow> http_response result" where
  "uds_response N C outcome =
     (case outcome of
        UdsTimedOut \<Rightarrow> Inl (Timeout (Text ''uds request''))
      | UdsFailed msg \<Rightarrow> Inl (HttpRequest (Text msg))
      | UdsReplied status headers chunks \<Rightarrow>
          (case declared_too_large N (response_size_limit C) headers of
             Some n \<Rightarrow> net_error (BodyTooLarge n)
           | None \<Rightarrow>
               (case read_body (response_size_limit C) chunks [] of
                  Inl (kind, msg) \<Rightarrow> Inl (if kind = ''timeout'' then Timeout (Text msg) else HttpRequest (Text msg))
                | Inr (Inl e) \<Rightarrow> Inl e
                | Inr (Inr bytes) \<Rightarrow>
                    Inr \<lparr>hr_status = status, hr_body = decode_response_body N bytes headers,
                         hr_headers = headers, hr_error = None\<rparr>)))"

definition request_over_unix_pooled ::
  "net_params \<Rightarrow> http_client \<Rightarrow> nat \<Rightarrow> string \<Rightarrow> string \<Rightarrow> string \<Rightarrow> http_request \<Rightarrow> http_response result" where
  "request_over_unix_pooled N C n socket host target rq =
     (let bytes = uds_body_bytes N (rq_body rq)
      in uds_response N C (uds_send N n \<lparr>uw_socket = socket, uw_host = host, uw_target = target, uw_method = rq_method rq,
           uw_headers = pooled_headers N (rq_headers rq) bytes, uw_body = bytes\<rparr>))"

definition request_over_unix ::
  "net_params \<Rightarrow> http_client \<Rightarrow> nat \<Rightarrow> string \<Rightarrow> string \<Rightarrow> string \<Rightarrow> http_request \<Rightarrow> http_response result" where
  "request_over_unix N C n socket host target rq =
     (let bytes = uds_body_bytes N (rq_body rq)
      in uds_response N C (uds_send N n \<lparr>uw_socket = socket, uw_host = host, uw_target = target, uw_method = rq_method rq,
           uw_headers = single_headers N (rq_headers rq) bytes, uw_body = bytes\<rparr>))"

definition uds_request_from_unix_url :: "net_params \<Rightarrow> http_client \<Rightarrow> nat \<Rightarrow> http_request \<Rightarrow> http_response result" where
  "uds_request_from_unix_url N C n rq =
     bindr (parse_unix_url (rq_url rq)) (\<lambda>(socket, target).
       request_over_unix_pooled N C n socket ''localhost'' (merge_query_params N target (rq_query rq)) rq)"

definition uds_request_from_alias :: "net_params \<Rightarrow> http_client \<Rightarrow> nat \<Rightarrow> string \<Rightarrow> http_request \<Rightarrow> http_response result" where
  "uds_request_from_alias N C n socket rq =
     (case parse_url N (rq_url rq) of
        None \<Rightarrow> net_error (UrlInvalid (rq_url rq))
      | Some parsed \<Rightarrow>
          let base = pu_path parsed @ (case pu_query parsed of Some q \<Rightarrow> ''?'' @ q | None \<Rightarrow> [])
          in request_over_unix_pooled N C n socket (opt_or (pu_host parsed) ''localhost'')
               (merge_query_params N base (rq_query rq)) rq)"

definition request_with_ct ::
  "net_params \<Rightarrow> http_client \<Rightarrow> 'w self_call_handler option \<Rightarrow> nat \<Rightarrow> http_request \<Rightarrow> 'w \<Rightarrow>
   (http_response result \<times> 'w) option" where
  "request_with_ct N C handler n rq w =
     (if offline C then Some (Inr offline_stub_response, w)
      else if outbound_disabled C then Some (net_error OutboundDisabled, w)
      else case (if self_origins_matches N C (rq_url rq) then handler else None) of
        Some h \<Rightarrow> self_call_dispatch N h rq w
      | None \<Rightarrow>
          if starts_with (rq_url rq) ''unix://'' then Some (uds_request_from_unix_url N C n rq, w)
          else case host_alias_lookup N C (rq_url rq) of
            Some sock \<Rightarrow> Some (uds_request_from_alias N C n sock rq, w)
          | None \<Rightarrow> Some (tcp_request N C n rq, w))"

definition is_status_allowed :: "http_client \<Rightarrow> u16 \<Rightarrow> bool" where
  "is_status_allowed C status \<longleftrightarrow> status_allow_list C = [] \<or> status \<in> set (status_allow_list C)"

section \<open>Lemmas\<close>

text \<open>The targets the check lets a permissive configuration connect to.\<close>

definition public_target :: "net_params \<Rightarrow> string \<Rightarrow> ssrf_resolution \<Rightarrow> bool" where
  "public_target N url r \<longleftrightarrow>
     (\<exists>u host. parse_url N url = Some u \<and> pu_host u = Some host \<and>
        (case r of
           NoPinning \<Rightarrow> (case parse_ip N host of None \<Rightarrow> False | Some ip \<Rightarrow> \<not> is_private_or_local ip)
         | Pinned h addrs \<Rightarrow> h = host \<and> addrs \<noteq> [] \<and> (\<forall>a \<in> set addrs. \<not> is_private_or_local a)))"

lemma net_error_simps [simp]:
  "net_error r \<noteq> Inr x" "bindr (net_error r) f = net_error r"
  by (simp_all add: net_error_def)

lemma url_host_ok: "url_host N url = Inr (u, h) \<longleftrightarrow> parse_url N url = Some u \<and> pu_host u = Some h"
  by (auto simp: url_host_def split: option.splits)

lemma check_private_public:
  assumes "check_private N url = Inr r"
  shows "public_target N url r"
proof -
  obtain u host where u: "parse_url N url = Some u" "pu_host u = Some host"
    and r: "(case parse_ip N host of
         Some ip \<Rightarrow> if is_private_or_local ip then net_error (PrivateTarget host) else Inr NoPinning
       | None \<Rightarrow>
           (case lookup_host N host (opt_or (port_or_known_default u) 0) of
              None \<Rightarrow> net_error (DnsFailed host)
            | Some addrs \<Rightarrow>
                if list_ex is_private_or_local addrs then net_error (PrivateTarget host)
                else if addrs = [] then net_error (DnsEmpty host)
                else Inr (Pinned host addrs))) = Inr r"
    using assms by (auto simp: check_private_def bindr_Inr_iff url_host_ok)
  show ?thesis
    using u r by (cases "parse_ip N host")
      (auto simp: public_target_def list_ex_iff split: option.splits if_splits)
qed

lemma check_ssrf_public:
  assumes "check_ssrf N C url = Inr r" "block_private_networks C"
    "allowed_url_prefixes C = []" "allowed_ip_hosts C = []"
  shows "public_target N url r"
  using assms check_private_public
  by (simp add: check_ssrf_def check_allowed_urls_def check_allowed_ips_def split: if_splits)

lemma tcp_upd_sel:
  "parse_url (N\<lparr>tcp_send := f\<rparr>) = parse_url N" "parse_ip (N\<lparr>tcp_send := f\<rparr>) = parse_ip N"
  "lookup_host (N\<lparr>tcp_send := f\<rparr>) = lookup_host N" "parse_json (N\<lparr>tcp_send := f\<rparr>) = parse_json N"
  "parse_usize (N\<lparr>tcp_send := f\<rparr>) = parse_usize N" "show_port (N\<lparr>tcp_send := f\<rparr>) = show_port N"
  "utf8_lossy (N\<lparr>tcp_send := f\<rparr>) = utf8_lossy N" "show_value (N\<lparr>tcp_send := f\<rparr>) = show_value N"
  by simp_all

lemma tcp_upd_policy:
  "url_origin (N\<lparr>tcp_send := f\<rparr>) = url_origin N"
  "url_host (N\<lparr>tcp_send := f\<rparr>) = url_host N"
  "value_text (N\<lparr>tcp_send := f\<rparr>) = value_text N"
  "plaintext_body (N\<lparr>tcp_send := f\<rparr>) = plaintext_body N"
  "decode_response_body (N\<lparr>tcp_send := f\<rparr>) = decode_response_body N"
  unfolding fun_eq_iff url_origin_def url_host_def value_text_def plaintext_body_def
    decode_response_body_def tcp_upd_sel by (rule allI refl)+

lemma tcp_upd_checks:
  "allow_entry_matches (N\<lparr>tcp_send := f\<rparr>) = allow_entry_matches N"
  "form_part (N\<lparr>tcp_send := f\<rparr>) = form_part N"
  "check_allowed_ips (N\<lparr>tcp_send := f\<rparr>) = check_allowed_ips N"
  "check_private (N\<lparr>tcp_send := f\<rparr>) = check_private N"
  "wire_pairs (N\<lparr>tcp_send := f\<rparr>) = wire_pairs N"
  "read_response (N\<lparr>tcp_send := f\<rparr>) = read_response N"
  unfolding fun_eq_iff allow_entry_matches_def form_part_def check_allowed_ips_def check_private_def
    wire_pairs_def read_response_def tcp_upd_policy tcp_upd_sel by (rule allI refl)+

lemma tcp_upd_allowed_urls: "check_allowed_urls (N\<lparr>tcp_send := f\<rparr>) = check_allowed_urls N"
  unfolding fun_eq_iff check_allowed_urls_def tcp_upd_checks tcp_upd_policy tcp_upd_sel
  by (rule allI refl)+

lemma tcp_params_upd [simp]:
  "check_ssrf (N\<lparr>tcp_send := f\<rparr>) = check_ssrf N"
  "wire_body_of (N\<lparr>tcp_send := f\<rparr>) = wire_body_of N"
  "wire_pairs (N\<lparr>tcp_send := f\<rparr>) = wire_pairs N"
  "read_response (N\<lparr>tcp_send := f\<rparr>) = read_response N"
  unfolding fun_eq_iff check_ssrf_def wire_body_of_def tcp_upd_allowed_urls tcp_upd_checks
    tcp_upd_policy by (rule allI refl)+

lemma mapped_v4_private:
  "is_private_or_local (canonicalise_ip ip) = is_private_or_local ip"
proof (cases ip)
  case (V6 v6)
  have "drop_bit 32 (1 :: 128 word) \<noteq> 0xFFFF" "drop_bit 32 (0 :: 128 word) \<noteq> 0xFFFF" by simp_all
  then show ?thesis using V6 by (auto simp: is_private_or_local_def canonicalise_ip_def)
qed (simp add: is_private_or_local_def canonicalise_ip_def)

fun chunk_bytes :: "body_chunk list \<Rightarrow> string" where
  "chunk_bytes [] = []"
| "chunk_bytes (Chunk b # cs) = b @ chunk_bytes cs"
| "chunk_bytes (ReadError _ _ # cs) = chunk_bytes cs"

lemma read_body_ok:
  "read_body cap cs buf = Inr (Inr bytes) \<Longrightarrow> bytes = buf @ chunk_bytes cs \<and>
     (\<forall>n. cap = Some n \<and> length buf \<le> n \<longrightarrow> length bytes \<le> n)"
  by (induction cap cs buf rule: read_body.induct) (auto split: option.splits if_splits)

section \<open>Properties\<close>

text \<open>
  C10. SSRF: with private networks blocked and no allowlist configured, the TCP transport is only
  ever used towards public addresses, an IP literal that is public or a host pinned to addresses
  that were all checked: whatever the transport would do for any other target is irrelevant to
  the outcome, since replacing it there changes nothing.
\<close>

theorem ssrf_only_public_targets:
  assumes "block_private_networks C" "allowed_url_prefixes C = []" "allowed_ip_hosts C = []"
    and agree: "\<forall>n r wr. public_target N (wr_url wr) r \<longrightarrow> tcp_send N n r wr = f n r wr"
  shows "tcp_request (N\<lparr>tcp_send := f\<rparr>) C n rq = tcp_request N C n rq"
proof (cases "check_ssrf N C (rq_url rq)")
  case (Inl e)
  then show ?thesis by (simp add: tcp_request_def)
next
  case (Inr r)
  then have "public_target N (rq_url rq) r" using check_ssrf_public assms(1-3) by simp
  then have "tcp_send N n r wr = f n r wr" if "wr_url wr = rq_url rq" for wr
    using agree that by simp
  then show ?thesis using Inr by (simp add: tcp_request_def cong: tcp_outcome.case_cong)
qed

definition example_net :: net_params where
  "example_net = \<lparr>parse_url = \<lambda>_. Some \<lparr>pu_scheme = ''http'', pu_host = Some ''h'', pu_port = None,
       pu_path = ''/'', pu_query = None, pu_query_pairs = []\<rparr>,
     parse_ip = \<lambda>_. Some (V4 0x7F000001), lookup_host = \<lambda>_ _. None, parse_json = \<lambda>_. None,
     parse_usize = \<lambda>_. None, show_port = \<lambda>_. [], utf8_lossy = id, show_value = \<lambda>_. ''null'',
     tcp_send = \<lambda>_ _ _. Replied 200 [] [], uds_send = \<lambda>_ _. UdsTimedOut\<rparr>"

definition example_client :: http_client where
  "example_client = \<lparr>response_size_limit = Some 4, status_allow_list = [], outbound_disabled = False,
     allowed_url_prefixes = [], allowed_ip_hosts = [], block_private_networks = True,
     unix_socket_map = [], self_tcp = [], offline = False\<rparr>"

definition example_get :: "string \<Rightarrow> http_request" where
  "example_get url = \<lparr>rq_method = ''GET'', rq_url = url, rq_body = None, rq_query = None,
     rq_headers = None, rq_timeout = None, rq_content_type = None\<rparr>"

theorem ssrf_only_public_targets_witness:
  "(let f = (\<lambda>_ r _. case r of NoPinning \<Rightarrow> TransportFailed ''leak'' ''leak'' | Pinned _ _ \<Rightarrow> Replied 200 [] []) in
    block_private_networks example_client \<and>
    tcp_request (example_net\<lparr>tcp_send := f\<rparr>) example_client 0 (example_get ''http://h/'')
      = tcp_request example_net example_client 0 (example_get ''http://h/''))"
proof -
  let ?f = "\<lambda>_ r _. case r of NoPinning \<Rightarrow> TransportFailed ''leak'' ''leak'' | Pinned _ _ \<Rightarrow> Replied 200 [] []"
  have "\<not> public_target example_net url NoPinning" for url
    by (simp add: public_target_def example_net_def is_private_or_local_def v4_private_def Let_def)
  then have "public_target example_net (wr_url wr) r \<longrightarrow> tcp_send example_net n r wr = ?f n r wr" for n r wr
    by (cases r) (simp_all add: example_net_def)
  then show ?thesis
    using ssrf_only_public_targets[of example_client example_net ?f 0 "example_get ''http://h/''"]
    by (simp add: example_client_def)
qed

text \<open>
  An allowlist entry never matches by accident: a match means the same scheme, host and port,
  and for an entry with a path the request continues the entry exactly, and either the entry ends
  at a URL delimiter, or the request ends there, or a delimiter follows. So \<open>/v1\<close> admits
  \<open>/v1/x\<close> and not \<open>/v1x\<close>, and no look-alike host is admitted.
\<close>

theorem allow_entry_boundary:
  assumes "allow_entry_matches N entry origin u"
  shows "Option.bind (parse_url N entry) (url_origin N) = Some origin \<and>
    (has_path_component entry \<longrightarrow>
      (let e = origin @ drop (entry_scheme_authority_len entry) entry in
       \<exists>tail. origin @ req_url_path_query u = e @ tail \<and>
         (tail = [] \<or> (e \<noteq> [] \<and> is_delimiter (last e)) \<or> is_delimiter (hd tail) \<or> hd tail = CHR ''&'')))"
  using assms
  by (auto simp: allow_entry_matches_def starts_with_iff Let_def split: option.splits if_splits)

theorem allow_entry_boundary_witness:
  "(let N = example_net in allow_entry_matches N ''http://h'' ''http://h:'' (the (parse_url N [])) \<and>
    Option.bind (parse_url N ''http://h'') (url_origin N) = Some ''http://h:'')"
  using allow_entry_boundary[of example_net "''http://h''" "''http://h:''" "the (parse_url example_net [])"]
  by (simp add: example_net_def allow_entry_matches_def url_origin_def port_or_known_default_def
      has_path_component_def starts_with_def is_delimiter_def Let_def)

text \<open>
  The response cap holds whatever the upstream declares: a real (non-stub) response is
  accepted only when its whole body is within \<open>http_response_size_limit\<close>, and then the status is
  the upstream's and the body is decoded from exactly the bytes received.
\<close>

theorem response_within_cap:
  assumes "read_response N C fj status headers chunks = Inr r" "hr_error r = None"
    "response_size_limit C = Some n"
  shows "length (chunk_bytes chunks) \<le> n \<and> hr_status r = status \<and>
    hr_body r = decode_response_body N (chunk_bytes chunks) (hr_headers r)"
proof -
  obtain bytes where b: "read_body (Some n) chunks [] = Inr (Inr bytes)" and
    r: "hr_status r = status" "hr_body r = decode_response_body N bytes (hr_headers r)"
    using assms
    by (auto simp: read_response_def stub_response_def Let_def split: option.splits sum.splits prod.splits)
  show ?thesis using read_body_ok[OF b] r by auto
qed

theorem response_within_cap_witness:
  "(let r = \<lparr>hr_status = 200, hr_body = Some (JString ''ok''), hr_headers = [], hr_error = None\<rparr> in
    read_response example_net example_client False 200 [] [Chunk ''o'', Chunk ''k''] = Inr r \<and>
    length (chunk_bytes [Chunk ''o'', Chunk ''k'']) \<le> 4)"
proof -
  let ?r = "\<lparr>hr_status = 200, hr_body = Some (JString ''ok''), hr_headers = [], hr_error = None\<rparr>"
  have "read_response example_net example_client False 200 [] [Chunk ''o'', Chunk ''k''] = Inr ?r"
    by (simp add: read_response_def example_net_def example_client_def decode_response_body_def
        content_type_is_json_def trim_def to_ascii_lowercase_def strip_prefix_def starts_with_def)
  then show ?thesis
    using response_within_cap[of example_net example_client False 200 "[]" "[Chunk ''o'', Chunk ''k'']" ?r 4]
    by (simp add: example_client_def)
qed

text \<open>
  A null header value reaches a self-called DSL as text although no other transport sends it:
  on the wire a null value is dropped, in a self-call the header is present with the JSON text of
  null.
\<close>

theorem self_call_null_header_divergence:
  "wire_pairs N (Some [(k, JNull)]) = [] \<and>
   self_call_headers N (Some [(k, JNull)]) = [(to_ascii_lowercase k, show_value N JNull)]"
  by (simp add: wire_pairs_def self_call_headers_def value_text_def)

end
