(* ===== verification/Flights.thy ===== *)
theory Flights
  imports Execution_Context
begin

text \<open>
  The two process-wide registries of work in flight: the single-flight registry
  (\<open>src/steps/single_flight.rs\<close>) and the registry of detached tasks (\<open>src/steps/detach.rs\<close>).

  A single-flight entry (an \<open>Arc<Entry>\<close>) is its identity, here called its window, and the flag
  \<open>is_leader_slot\<close>. The list order of the registry is the iteration order of the \<open>DashMap\<close>.
  A detached task is the context snapshot and the steps it runs; a task that has finished stays in
  the \<open>JoinSet\<close>, marked as finished, until the drain joins it.

  The lemmas show that each window gets exactly one leader, that a live key is never led twice,
  and that neither registry outgrows its bound, whatever the order of the operations.
\<close>

section \<open>Single flight\<close>

record sf_entry =
  sf_window :: nat
  is_leader_slot :: bool

record sf_registry =
  sf_inner :: "sf_entry hmap"
  sf_max_entries :: nat
  sf_fresh :: nat

definition sf_with_capacity :: "nat \<Rightarrow> sf_registry" where
  "sf_with_capacity n = \<lparr>sf_inner = [], sf_max_entries = n, sf_fresh = 0\<rparr>"

definition sf_new :: sf_registry where
  "sf_new = sf_with_capacity 10000"

definition sf_evict :: "string \<Rightarrow> sf_registry \<Rightarrow> sf_registry" where
  "sf_evict key r =
     (if \<not> hm_contains (sf_inner r) key \<and> sf_max_entries r \<le> length (sf_inner r)
      then r\<lparr>sf_inner := take (sf_max_entries r) (sf_inner r)\<rparr> else r)"

text \<open>\<open>entry(key).or_insert_with(Entry::new)\<close>, then \<open>is_leader_slot.swap(false)\<close>.\<close>

definition sf_claim :: "string \<Rightarrow> sf_registry \<Rightarrow> (nat \<times> bool) \<times> sf_registry" where
  "sf_claim key r =
     (let r1 = sf_evict key r;
          (entry, r2) = (case map_of (sf_inner r1) key of
             Some e \<Rightarrow> (e, r1)
           | None \<Rightarrow> (\<lparr>sf_window = sf_fresh r1, is_leader_slot = True\<rparr>,
                      r1\<lparr>sf_fresh := Suc (sf_fresh r1)\<rparr>))
      in ((sf_window entry, is_leader_slot entry),
          r2\<lparr>sf_inner := hm_insert key (entry\<lparr>is_leader_slot := False\<rparr>) (sf_inner r2)\<rparr>))"

definition sf_remove :: "string \<Rightarrow> sf_registry \<Rightarrow> sf_registry" where
  "sf_remove key r = r\<lparr>sf_inner := hm_remove key (sf_inner r)\<rparr>"

definition sf_len :: "sf_registry \<Rightarrow> nat" where
  "sf_len r = length (sf_inner r)"

definition sf_is_empty :: "sf_registry \<Rightarrow> bool" where
  "sf_is_empty r \<longleftrightarrow> sf_inner r = []"

text \<open>What a leader publishes: its result variable, if one is configured, or its error text.\<close>

type_synonym sf_outcome = "string + json option"

text \<open>What a waiting follower receives: an outcome, a closed channel, or nothing before the time-out.\<close>

datatype sf_recv = Received sf_outcome | ChannelClosed | RecvTimeout

subsection \<open>Invariant\<close>

definition sf_wf :: "sf_registry \<Rightarrow> bool" where
  "sf_wf r \<longleftrightarrow> distinct (map fst (sf_inner r)) \<and> length (sf_inner r) \<le> Suc (sf_max_entries r) \<and>
     (\<forall>k e. map_of (sf_inner r) k = Some e \<longrightarrow> \<not> is_leader_slot e \<and> sf_window e < sf_fresh r)"

lemma length_hm_insert: "length (hm_insert k v m) = (if hm_contains m k then length m else Suc (length m))"
  by (induction m) (auto simp: hm_contains_def)

lemma map_of_take: "distinct (map fst m) \<Longrightarrow> map_of (take n m) k = Some v \<Longrightarrow> map_of m k = Some v"
  by (metis append_take_drop_id map_of_SomeD in_set_takeD map_of_is_SomeI)

lemma sf_evict_wf:
  assumes "sf_wf r"
  shows "sf_wf (sf_evict k r)"
proof -
  have d: "distinct (map fst (sf_inner r))" using assms by (simp add: sf_wf_def)
  then have "distinct (map fst (take n (sf_inner r)))" for n by (simp add: take_map[symmetric])
  then show ?thesis
    using assms unfolding sf_wf_def sf_evict_def
    by (auto simp del: map_of_eq_Some_iff dest!: map_of_take[OF d])
qed

lemma sf_evict_contains [simp]:
  "\<not> hm_contains (sf_inner r) k \<Longrightarrow> \<not> hm_contains (sf_inner (sf_evict k r)) k"
  by (auto simp: sf_evict_def hm_contains_iff dest: in_set_takeD)

lemma sf_evict_present: "hm_contains (sf_inner r) k \<Longrightarrow> sf_evict k r = r"
  by (simp add: sf_evict_def)

lemma sf_evict_len: "sf_wf r \<Longrightarrow> \<not> hm_contains (sf_inner r) k \<Longrightarrow>
    length (sf_inner (sf_evict k r)) \<le> sf_max_entries r"
  by (simp add: sf_evict_def)

lemma sf_fields_evict [simp]:
  "sf_max_entries (sf_evict k r) = sf_max_entries r" "sf_fresh (sf_evict k r) = sf_fresh r"
  by (simp_all add: sf_evict_def)

lemma sf_claim_present:
  "map_of (sf_inner r) k = Some e \<Longrightarrow> sf_claim k r = ((sf_window e, is_leader_slot e),
     r\<lparr>sf_inner := hm_insert k (e\<lparr>is_leader_slot := False\<rparr>) (sf_inner r)\<rparr>)"
  by (simp add: sf_claim_def sf_evict_present hm_contains_def)

lemma sf_claim_absent:
  assumes "map_of (sf_inner r) k = None"
  shows "sf_claim k r = ((sf_fresh r, True), (sf_evict k r)\<lparr>sf_fresh := Suc (sf_fresh r),
     sf_inner := hm_insert k \<lparr>sf_window = sf_fresh r, is_leader_slot = False\<rparr> (sf_inner (sf_evict k r))\<rparr>)"
proof -
  have "map_of (sf_inner (sf_evict k r)) k = None"
    using assms sf_evict_contains[of r k] by (simp add: hm_contains_def)
  then show ?thesis by (simp add: sf_claim_def Let_def)
qed

lemma sf_claim_wf: "sf_wf r \<Longrightarrow> sf_wf (snd (sf_claim k r))"
proof (cases "map_of (sf_inner r) k")
  case (Some e)
  assume "sf_wf r"
  then show ?thesis
    using Some by (auto simp: sf_claim_present sf_wf_def distinct_update length_hm_insert
        hm_contains_def update_conv' split: if_splits)
next
  case None
  assume wf: "sf_wf r"
  have "sf_wf (sf_evict k r)" "length (sf_inner (sf_evict k r)) \<le> sf_max_entries r"
    using wf None sf_evict_wf sf_evict_len by (auto simp: hm_contains_def)
  then show ?thesis
    using None by (fastforce simp: sf_claim_absent sf_wf_def distinct_update length_hm_insert
        update_conv' split: if_splits)
qed

lemma length_delete_le: "length (hm_remove k m) \<le> length m"
  by (simp add: AList.delete_eq)

lemma sf_remove_wf: "sf_wf r \<Longrightarrow> sf_wf (sf_remove k r)"
  using length_delete_le[of k "sf_inner r"]
  by (auto simp: sf_wf_def sf_remove_def distinct_delete delete_conv' split: if_splits)

lemma sf_new_wf: "sf_wf (sf_with_capacity n)"
  by (simp add: sf_wf_def sf_with_capacity_def)

text \<open>Any number of callers, in any order: claims by key, removals by leaders and by time-outs.\<close>

datatype sf_op = SfClaim string | SfRemove string

fun sf_step :: "sf_registry \<Rightarrow> sf_op \<Rightarrow> sf_registry" where
  "sf_step r (SfClaim k) = snd (sf_claim k r)"
| "sf_step r (SfRemove k) = sf_remove k r"

text \<open>The windows that got a leader in a run, in order.\<close>

fun sf_leaders :: "sf_registry \<Rightarrow> sf_op list \<Rightarrow> nat list" where
  "sf_leaders r [] = []"
| "sf_leaders r (op # ops) =
     (case op of
        SfClaim k \<Rightarrow> (let ((w, leader), r') = sf_claim k r in
          (if leader then [w] else []) @ sf_leaders r' ops)
      | SfRemove k \<Rightarrow> sf_leaders (sf_remove k r) ops)"

lemma sf_run_wf: "sf_wf r \<Longrightarrow> sf_wf (fold (\<lambda>op r. sf_step r op) ops r)"
proof (induction ops arbitrary: r)
  case (Cons op ops)
  then have "sf_wf (sf_step r op)" by (cases op) (simp_all add: sf_claim_wf sf_remove_wf)
  then show ?case using Cons.IH by simp
qed simp

lemma sf_leaders_fresh:
  "sf_wf r \<Longrightarrow> distinct (sf_leaders r ops) \<and> (\<forall>w \<in> set (sf_leaders r ops). sf_fresh r \<le> w)"
proof (induction r ops rule: sf_leaders.induct)
  case (2 r op ops)
  show ?case
  proof (cases op)
    case (SfRemove k)
    then show ?thesis
      using "2.IH"(2)[OF SfRemove sf_remove_wf[OF "2.prems"]] by (simp add: sf_remove_def)
  next
    case (SfClaim k)
    define r' where "r' = snd (sf_claim k r)"
    have wf': "sf_wf r'" unfolding r'_def using "2.prems" by (rule sf_claim_wf)
    show ?thesis
    proof (cases "map_of (sf_inner r) k")
      case (Some e)
      then have c: "sf_claim k r = ((sf_window e, False), r')" "sf_fresh r' = sf_fresh r"
        using "2.prems" by (auto simp: sf_claim_present r'_def sf_wf_def)
      then show ?thesis using "2.IH"(1)[OF SfClaim c(1)[symmetric] refl refl wf'] SfClaim c by simp
    next
      case None
      then have c: "sf_claim k r = ((sf_fresh r, True), r')" "sf_fresh r' = Suc (sf_fresh r)"
        by (simp_all add: sf_claim_absent r'_def)
      then show ?thesis
        using "2.IH"(1)[OF SfClaim c(1)[symmetric] refl refl wf'] SfClaim c by fastforce
    qed
  qed
qed simp

section \<open>Detached tasks\<close>

type_synonym detached_task = "execution_context \<times> dsl_step list \<times> u64 option"

record detach_registry =
  dr_cap :: "u32 option"
  dr_tasks :: "(detached_task \<times> bool) list"
  shutdown_grace_secs :: u64

definition detach_new :: "u32 option \<Rightarrow> u64 \<Rightarrow> detach_registry" where
  "detach_new max_inflight grace = \<lparr>dr_cap = max_inflight, dr_tasks = [], shutdown_grace_secs = grace\<rparr>"

text \<open>\<open>JoinSet::len\<close> counts the tasks not yet joined, finished or not.\<close>

definition detach_inflight :: "detach_registry \<Rightarrow> nat" where
  "detach_inflight d = length (dr_tasks d)"

text \<open>A permit is held from the spawn until the task ends.\<close>

definition permits_held :: "detach_registry \<Rightarrow> nat" where
  "permits_held d = length (filter (\<lambda>(_, finished). \<not> finished) (dr_tasks d))"

definition try_acquire :: "detach_registry \<Rightarrow> bool" where
  "try_acquire d =
     (case dr_cap d of None \<Rightarrow> True | Some cap \<Rightarrow> permits_held d < unat cap)"

definition try_spawn :: "detached_task \<Rightarrow> detach_registry \<Rightarrow> (u32 + unit) \<times> detach_registry" where
  "try_spawn t d =
     (if try_acquire d then (Inr (), d\<lparr>dr_tasks := dr_tasks d @ [(t, False)]\<rparr>)
      else (Inl (opt_or (dr_cap d) 0), d))"

definition task_exit :: "nat \<Rightarrow> detach_registry \<Rightarrow> detach_registry" where
  "task_exit i d =
     (if i < length (dr_tasks d)
      then d\<lparr>dr_tasks := (dr_tasks d)[i := (fst (dr_tasks d ! i), True)]\<rparr> else d)"

text \<open>
  The drain joins every task that finishes within the grace period (\<open>in_time\<close> says which of the
  running ones do) and aborts the rest; it returns how many there were and how many it aborted.
\<close>

definition detach_drain :: "(nat \<Rightarrow> bool) \<Rightarrow> detach_registry \<Rightarrow> (nat \<times> nat) \<times> detach_registry" where
  "detach_drain in_time d =
     (let starting = length (dr_tasks d);
          still = length (filter (\<lambda>i. \<not> snd (dr_tasks d ! i) \<and> \<not> in_time i) [0..<starting])
      in ((starting, still), d\<lparr>dr_tasks := []\<rparr>))"

definition detach_wf :: "detach_registry \<Rightarrow> bool" where
  "detach_wf d \<longleftrightarrow> (\<forall>cap. dr_cap d = Some cap \<longrightarrow> permits_held d \<le> unat cap)"

lemma try_spawn_wf: "detach_wf d \<Longrightarrow> detach_wf (snd (try_spawn t d))"
  by (auto simp: detach_wf_def try_spawn_def try_acquire_def permits_held_def split: option.splits)

lemma filter_mark_le:
  "length (filter (\<lambda>(_, b). \<not> b) (xs[i := (y, True)])) \<le> length (filter (\<lambda>(_, b). \<not> b) xs)"
  by (induction xs arbitrary: i) (auto split: nat.splits intro: le_SucI)

lemma task_exit_wf: "detach_wf d \<Longrightarrow> detach_wf (task_exit i d)"
  using filter_mark_le[of "dr_tasks d" i "fst (dr_tasks d ! i)"]
  by (auto simp: detach_wf_def task_exit_def permits_held_def intro: order_trans)

lemma detach_drain_wf: "detach_wf (snd (detach_drain p d))"
  by (simp add: detach_wf_def detach_drain_def permits_held_def Let_def)

section \<open>Properties\<close>

text \<open>
  Single flight, whatever callers come in whatever order: every window is led exactly once
  (no window number occurs twice among the leaders), a caller that finds the key in the registry
  is never a leader, and the registry never holds more than one slot above its capacity.
\<close>

theorem single_flight_one_leader:
  "distinct (sf_leaders (sf_with_capacity n) ops) \<and>
   (let r = fold (\<lambda>op r. sf_step r op) ops (sf_with_capacity n) in
    sf_len r \<le> Suc (sf_max_entries r) \<and>
    (\<forall>k. snd (fst (sf_claim k r)) \<longleftrightarrow> \<not> hm_contains (sf_inner r) k))"
proof -
  define r where "r = fold (\<lambda>op r. sf_step r op) ops (sf_with_capacity n)"
  have wf: "sf_wf r" unfolding r_def by (rule sf_run_wf) (rule sf_new_wf)
  have "snd (fst (sf_claim k r)) \<longleftrightarrow> \<not> hm_contains (sf_inner r) k" for k
    using wf
    by (cases "map_of (sf_inner r) k")
       (auto simp: sf_claim_present sf_claim_absent hm_contains_def sf_wf_def)
  then show ?thesis
    using wf sf_leaders_fresh[OF sf_new_wf] by (simp add: r_def sf_len_def sf_wf_def Let_def)
qed

text \<open>
  Detached tasks: with a cap configured, the number of running tasks stays within it, over
  spawns, task exits and drains; a spawn is refused exactly when the cap is reached and then
  changes nothing. A task that has finished is still counted by \<open>inflight\<close> until the drain.
\<close>

theorem detach_bounded:
  assumes "detach_wf d"
  shows "detach_wf (snd (try_spawn t d)) \<and> detach_wf (task_exit i d) \<and>
    detach_wf (snd (detach_drain p d)) \<and>
    (fst (try_spawn t d) = Inr () \<longleftrightarrow>
       (case dr_cap d of None \<Rightarrow> True | Some cap \<Rightarrow> permits_held d < unat cap)) \<and>
    (\<forall>cap. fst (try_spawn t d) = Inl cap \<longrightarrow> snd (try_spawn t d) = d) \<and>
    detach_inflight (task_exit i d) = detach_inflight d"
proof -
  have "fst (try_spawn t d) = Inr () \<longleftrightarrow> try_acquire d"
    "\<forall>cap. fst (try_spawn t d) = Inl cap \<longrightarrow> snd (try_spawn t d) = d"
    "detach_inflight (task_exit i d) = detach_inflight d"
    by (auto simp: try_spawn_def detach_inflight_def task_exit_def)
  then show ?thesis
    using try_spawn_wf[OF assms] task_exit_wf[OF assms] detach_drain_wf
    by (simp add: try_acquire_def)
qed

theorem detach_bounded_witness:
  "(let d = detach_new (Some 1) 15; t = (ctx_with_state [] [] [] [] [], [], None) in
    detach_wf d \<and> detach_wf (snd (try_spawn t d)) \<and> fst (try_spawn t d) = Inr ())"
  using detach_bounded[of "detach_new (Some 1) 15" "(ctx_with_state [] [] [] [] [], [], None)" 0 "\<lambda>_. True"]
  by (simp add: detach_wf_def detach_new_def permits_held_def)

end
