(* ===== verification/Engine_State.thy ===== *)
theory Engine_State
  imports State_Store Ws_Registry Http_Client Flights
begin

text \<open>
  What the step engine (\<open>src/steps/engine.rs\<close>) works on.

  \<^item> \<open>engine\<close>: the fixed part of \<open>StepEngine\<close> and of the router, with what lies outside the
    program as functions: the script engine, the network, the DSL tree the \<open>n\<close>-th reload reads from
    disk, what a single-flight follower receives, the completion order of parallel calls, the
    generated trace ids, the text of an error.
  \<^item> \<open>world\<close>: the process-wide mutable state, the log of the outbound requests included.
  \<^item> \<open>'a comp\<close>: a fallible computation on a context and the world. An error keeps the changes made
    before it, as in the source. The value \<open>None\<close> means that the DSL runs nest deeper than the
    fuel allows.
\<close>

record default_http_dsl =
  dh_dsl :: string
  dh_request_type :: string
  dh_project :: string
  dh_body :: "json hmap"
  dh_query :: "json hmap"
  dh_headers :: "string hmap"

record engine =
  script_engine :: script_params
  net :: net_params
  http_client :: http_client
  max_iterations :: u32
  guards_mode :: guard_mode
  default_exception_dsl :: "default_http_dsl option"
  reload_handler :: "(nat \<Rightarrow> (http_dsls \<times> guard_dsls) option) option"
  self_call_wired :: bool
  recv_outcome :: "nat \<Rightarrow> string \<Rightarrow> sf_recv"
  join_order :: "nat \<Rightarrow> nat \<Rightarrow> nat list"
  generate_traceparent :: "nat \<Rightarrow> string"
  error_text :: "ruuter_error \<Rightarrow> string"

record world =
  w_state :: state_store
  ws_reg :: ws_registry
  single_flight :: sf_registry
  detached :: "detach_registry option"
  dsls :: "http_dsls option"
  guards :: guard_dsls
  sent :: "http_request list"
  reloads :: nat
  waits :: nat
  published :: "(string \<times> sf_outcome) list"

type_synonym 'a comp = "execution_context \<Rightarrow> world \<Rightarrow> ('a result \<times> execution_context \<times> world) option"
type_synonym runner = "dsl \<Rightarrow> dsl_execution_result comp"

section \<open>Computations\<close>

definition ret :: "'a \<Rightarrow> 'a comp" where
  "ret x c w = Some (Inr x, c, w)"

definition raise :: "ruuter_error \<Rightarrow> 'a comp" where
  "raise e c w = Some (Inl e, c, w)"

definition bindc :: "'a comp \<Rightarrow> ('a \<Rightarrow> 'b comp) \<Rightarrow> 'b comp" where
  "bindc m f c w =
     (case m c w of
        None \<Rightarrow> None
      | Some (Inl e, c', w') \<Rightarrow> Some (Inl e, c', w')
      | Some (Inr x, c', w') \<Rightarrow> f x c' w')"

definition lift_result :: "'a result \<Rightarrow> 'a comp" where
  "lift_result r c w = Some (r, c, w)"

definition asks :: "(execution_context \<Rightarrow> 'a result) \<Rightarrow> 'a comp" where
  "asks f c w = Some (f c, c, w)"

definition get_world :: "(world \<Rightarrow> 'a) \<Rightarrow> 'a comp" where
  "get_world f c w = Some (Inr (f w), c, w)"

definition set_var :: "string \<Rightarrow> json \<Rightarrow> unit comp" where
  "set_var k v c w = Some (Inr (), set_variable k v c, w)"

definition set_var_opt :: "string option \<Rightarrow> json \<Rightarrow> unit comp" where
  "set_var_opt name v = (case name of None \<Rightarrow> ret () | Some k \<Rightarrow> set_var k v)"

text \<open>An operation on one part of the world, under the project of the context.\<close>

definition on_world :: "(execution_context \<Rightarrow> world \<Rightarrow> 'a result \<times> world) \<Rightarrow> 'a comp" where
  "on_world f c w = (case f c w of (r, w') \<Rightarrow> Some (r, c, w'))"

text \<open>The outcome of a computation as a value, so that the code can look at an error.\<close>

definition attempt :: "'a comp \<Rightarrow> 'a result comp" where
  "attempt m c w = (case m c w of None \<Rightarrow> None | Some (r, c', w') \<Rightarrow> Some (Inr r, c', w'))"

definition map_error :: "(execution_context \<Rightarrow> ruuter_error \<Rightarrow> ruuter_error) \<Rightarrow> 'a comp \<Rightarrow> 'a comp" where
  "map_error g m c w =
     (case m c w of
        Some (Inl e, c', w') \<Rightarrow> Some (Inl (g c' e), c', w')
      | other \<Rightarrow> other)"

text \<open>
  Run under a child context that shares the guard stack of the parent; the parent's variables and
  request view are its own.
\<close>

definition in_child :: "execution_context \<Rightarrow> 'a comp \<Rightarrow> 'a comp" where
  "in_child child m c w =
     (case m (with_guard_stack_from child c) w of
        None \<Rightarrow> None
      | Some (r, child', w') \<Rightarrow> Some (r, c\<lparr>guard_stack := guard_stack child'\<rparr>, w'))"

text \<open>Run under an unrelated context; nothing of it remains.\<close>

definition in_fresh :: "execution_context \<Rightarrow> 'a comp \<Rightarrow> 'a comp" where
  "in_fresh child m c w =
     (case m child w of None \<Rightarrow> None | Some (r, _, w') \<Rightarrow> Some (r, c, w'))"

text \<open>\<open>let _guard_frame = context.push_guard(key)?;\<close> around a run: popped on every way out.\<close>

definition guarded :: "string \<Rightarrow> 'a comp \<Rightarrow> 'a comp" where
  "guarded key m c w =
     (case push_guard key c of
        Inl e \<Rightarrow> Some (Inl e, c, w)
      | Inr c1 \<Rightarrow>
          (case m c1 w of None \<Rightarrow> None | Some (r, c2, w2) \<Rightarrow> Some (r, pop_guard c2, w2)))"

definition eval_expr :: "engine \<Rightarrow> json \<Rightarrow> json comp" where
  "eval_expr E v = asks (\<lambda>c. evaluate (script_engine E) c v)"

definition to_text :: "engine \<Rightarrow> json \<Rightarrow> string" where
  "to_text E v = json_text (script_engine E) v"

definition text_of :: "engine \<Rightarrow> json \<Rightarrow> string" where
  "text_of E v = (case v of JString s \<Rightarrow> s | _ \<Rightarrow> to_text E v)"

section \<open>Routing a request to DSL runs\<close>

definition trigger_reload :: "engine \<Rightarrow> unit comp" where
  "trigger_reload E = on_world (\<lambda>_ w.
     case reload_handler E of
       None \<Rightarrow> (Inr (), w)
     | Some load \<Rightarrow>
         (case load (reloads w) of
            None \<Rightarrow> (Inr (), w\<lparr>reloads := Suc (reloads w)\<rparr>)
          | Some (new_dsls, new_guards) \<Rightarrow>
              (Inr (), w\<lparr>reloads := Suc (reloads w), dsls := Some new_dsls, guards := new_guards\<rparr>)))"

definition applicable_guards_for :: "engine \<Rightarrow> world \<Rightarrow> string \<Rightarrow> string \<Rightarrow> (string \<times> dsl) list" where
  "applicable_guards_for E w project dsl_key =
     applicable_guards is_override_guard project dsl_key (guards w) (guards_mode E)"

text \<open>
  The guard loop of the request path: declaration, then the guard itself on the stack; a status of
  400 or more ends the chain with the guard's response.
\<close>

fun run_guards :: "runner \<Rightarrow> string \<Rightarrow> (string \<times> dsl) list \<Rightarrow> dsl_execution_result option comp" where
  "run_guards run meth [] = ret None"
| "run_guards run meth ((guard_key, guard) # rest) =
     bindc (case dsl_declaration guard of
              None \<Rightarrow> ret ()
            | Some decl \<Rightarrow> asks (\<lambda>c. enforce_guard_declaration decl (request_body c)
                (request_query c) (request_headers c) meth)) (\<lambda>_.
     bindc (guarded guard_key (run guard)) (\<lambda>guard_result.
       if 400 \<le> er_status guard_result then ret (Some guard_result)
       else run_guards run meth rest))"

definition filter_request :: "declaration_step option \<Rightarrow> string \<Rightarrow> string \<Rightarrow> unit comp" where
  "filter_request decl meth tp c w =
     (case decl of
        None \<Rightarrow> Some (Inr (), c, w)
      | Some d \<Rightarrow>
          (case apply_declaration d (request_body c) (request_query c) (request_headers c) meth tp of
             Inl e \<Rightarrow> Some (Inl e, c, w)
           | Inr (b, q, h) \<Rightarrow> Some (Inr (), replace_request_view b q h c, w)))"

text \<open>The context of a request after resolution: path parameters and traceparent injected.\<close>

definition request_context ::
  "string \<Rightarrow> json hmap \<Rightarrow> json hmap \<Rightarrow> string hmap \<Rightarrow> string \<Rightarrow> string list \<Rightarrow> string \<Rightarrow> execution_context" where
  "request_context project body query headers origin path_params tp =
     with_traceparent (ctx_with_state body
       (hm_insert ''pathParams'' (JArray (map JString path_params)) query)
       (hm_insert ''traceparent'' tp headers) origin project) tp"

text \<open>The guards, the terminal declaration, then the terminal DSL.\<close>

definition guarded_run ::
  "runner \<Rightarrow> string \<Rightarrow> (string \<times> dsl) list \<Rightarrow> dsl \<Rightarrow> string \<Rightarrow> dsl_execution_result comp" where
  "guarded_run run meth gs d tp =
     bindc (run_guards run meth gs) (\<lambda>denied. case denied of
         Some r \<Rightarrow> ret r
       | None \<Rightarrow> bindc (filter_request (dsl_declaration d) meth tp) (\<lambda>_. run d))"

definition execute_dsl ::
  "engine \<Rightarrow> runner \<Rightarrow> string \<Rightarrow> string \<Rightarrow> string \<Rightarrow> json hmap \<Rightarrow> json hmap \<Rightarrow> string hmap \<Rightarrow> string \<Rightarrow>
   world \<Rightarrow> (dsl_execution_result result \<times> world) option" where
  "execute_dsl E run project meth path body query headers origin w =
     (let uppercase_method = to_uppercase meth in
      case resolve_dsl_with_path_params (opt_or (dsls w) []) project uppercase_method path of
        None \<Rightarrow> Some (Inl (FileNotFound (DslNotFound uppercase_method path)), w)
      | Some (d, matched_key, path_params) \<Rightarrow>
          (let tp = opt_or (map_of headers ''traceparent'') (generate_traceparent E (length (sent w)))
           in map_option (\<lambda>(r, _, w'). (r, w'))
             (guarded_run run uppercase_method (applicable_guards_for E w project matched_key) d tp
               (request_context project body query headers origin path_params tp) w)))"

definition execute_by_url ::
  "engine \<Rightarrow> runner \<Rightarrow> world self_call_handler" where
  "execute_by_url E run meth url_path query headers body w =
     (case split_project url_path of
        (project, path) \<Rightarrow>
          map_option (\<lambda>(r, w'). (bindr r (\<lambda>res. Inr \<lparr>hr_status = er_status res, hr_body = er_value res,
              hr_headers = er_headers res, hr_error = None\<rparr>), w'))
            (execute_dsl E run project meth path body query headers ''self-call'' w))"

text \<open>One outbound call of a step: recorded, then handed to the client.\<close>

definition http_call :: "engine \<Rightarrow> runner \<Rightarrow> http_request \<Rightarrow> http_response comp" where
  "http_call E run rq c w =
     (let n = length (sent w); w1 = w\<lparr>sent := sent w @ [rq]\<rparr> in
      case request_with_ct (net E) (http_client E)
             (if self_call_wired E then Some (execute_by_url E run) else None) n rq w1 of
        None \<Rightarrow> None
      | Some (r, w') \<Rightarrow> Some (r, c, w'))"

section \<open>Lemmas on computations\<close>

lemma comp_simps [simp]:
  "ret x c w = Some (Inr x, c, w)" "raise e c w = Some (Inl e, c, w)"
  "lift_result r c w = Some (r, c, w)" "asks f c w = Some (f c, c, w)"
  "get_world g c w = Some (Inr (g w), c, w)" "set_var k v c w = Some (Inr (), set_variable k v c, w)"
  by (simp_all add: ret_def raise_def lift_result_def asks_def get_world_def set_var_def)

lemma bindc_Some:
  "bindc m f c w = Some (r, c', w') \<longleftrightarrow>
     (\<exists>e. m c w = Some (Inl e, c', w') \<and> r = Inl e) \<or>
     (\<exists>x c1 w1. m c w = Some (Inr x, c1, w1) \<and> f x c1 w1 = Some (r, c', w'))"
  by (auto simp: bindc_def split: option.splits sum.splits prod.splits)

lemma bindc_cong1: "m c w = m' c w \<Longrightarrow> bindc m f c w = bindc m' f c w"
  by (simp add: bindc_def)

lemma attempt_Some:
  "attempt m c w = Some (r, c', w') \<longleftrightarrow> (\<exists>r0. m c w = Some (r0, c', w') \<and> r = Inr r0)"
  by (auto simp: attempt_def split: option.splits prod.splits)

lemma map_error_Some:
  "map_error g m c w = Some (r, c', w') \<longleftrightarrow>
     (\<exists>r0. m c w = Some (r0, c', w') \<and> r = (case r0 of Inl e \<Rightarrow> Inl (g c' e) | Inr x \<Rightarrow> Inr x))"
  by (auto simp: map_error_def split: option.splits sum.splits prod.splits)

end
