(* ===== verification/Steps.thy ===== *)
theory Steps
  imports Engine_State
begin

text \<open>
  The step executors (\<open>src/steps/*.rs\<close>), one definition each, and their dispatch
  (\<open>StepEngine::execute_single_step\<close>). The runner argument \<open>run\<close> is \<open>StepEngine::run\<close>, which some
  steps call back into (guards and callee of a template, the default exception DSL, a self-call);
  the theory \<open>Engine\<close> ties the knot. Log attributes and previews are left out.

  A JSON object built by the code is a \<open>BTreeMap\<close>, so \<open>json_object\<close> sorts its keys. The calls of a
  \<open>parallel_http\<close> step are all issued, in their completion order, which is a parameter of the
  engine; a cancelled peer may or may not have reached its upstream, and the model lets it.
\<close>

section \<open>Shared pieces\<close>

definition json_object :: "(string \<times> json) list \<Rightarrow> json" where
  "json_object kvs = JObject (sort_key fst kvs)"

definition json_u16 :: "u16 \<Rightarrow> json" where
  "json_u16 n = JNumber (PosInt (ucast n))"

definition json_headers :: "string hmap \<Rightarrow> json" where
  "json_headers h = json_object (map (\<lambda>(k, v). (k, JString v)) h)"

definition continue_with :: "string option \<Rightarrow> step_result comp" where
  "continue_with n = ret (step_result_next n)"

definition invalid_step :: "step_reason \<Rightarrow> 'a comp" where
  "invalid_step r = raise (InvalidStep (InStep r))"

fun eval_pairs :: "engine \<Rightarrow> (string \<times> json) list \<Rightarrow> json hmap \<Rightarrow> json hmap comp" where
  "eval_pairs E [] out = ret out"
| "eval_pairs E ((k, v) # kvs) out =
     bindc (eval_expr E v) (\<lambda>x. eval_pairs E kvs (hm_insert k x out))"

definition evaluate_map_arg ::
  "engine \<Rightarrow> json option \<Rightarrow> string \<Rightarrow> string \<Rightarrow> json hmap option comp" where
  "evaluate_map_arg E arg step_name arg_name =
     (case arg of
        None \<Rightarrow> ret None
      | Some (JObject m) \<Rightarrow> bindc (eval_pairs E m []) (\<lambda>out. ret (Some out))
      | Some (JString s) \<Rightarrow>
          bindc (eval_expr E (JString s)) (\<lambda>v. case v of
              JObject m \<Rightarrow> ret (Some m)
            | JNull \<Rightarrow> ret None
            | other \<Rightarrow> raise (DslExecution step_name
                (InStep (MapArgNotObject step_name arg_name (json_type_name other)))))
      | Some other \<Rightarrow> raise (DslExecution step_name
          (InStep (MapArgBadShape step_name arg_name (json_type_name other)))))"

definition eval_opt :: "engine \<Rightarrow> json option \<Rightarrow> json option comp" where
  "eval_opt E v =
     (case v of None \<Rightarrow> ret None | Some x \<Rightarrow> bindc (eval_expr E x) (\<lambda>y. ret (Some y)))"

definition parse_method :: "string \<Rightarrow> string option" where
  "parse_method call =
     map_of [(''http.get'', ''GET''), (''http.post'', ''POST''), (''http.put'', ''PUT''),
             (''http.patch'', ''PATCH''), (''http.delete'', ''DELETE'')] call"

text \<open>The traceparent is forwarded unless the DSL set one, whatever its case.\<close>

definition forward_traceparent :: "execution_context \<Rightarrow> json hmap \<Rightarrow> json hmap" where
  "forward_traceparent c headers =
     (if list_ex (\<lambda>(k, _). eq_ignore_ascii_case k ''traceparent'') headers then headers
      else case traceparent c of
        None \<Rightarrow> headers
      | Some tp \<Rightarrow> hm_insert ''traceparent'' (JString tp) headers)"

definition none_if_empty :: "'v hmap \<Rightarrow> 'v hmap option" where
  "none_if_empty m = (if m = [] then None else Some m)"

section \<open>Simple steps\<close>

fun assign_loop :: "engine \<Rightarrow> (string \<times> json) list \<Rightarrow> unit comp" where
  "assign_loop E [] = ret ()"
| "assign_loop E ((key, value) # rest) =
     bindc (eval_expr E value) (\<lambda>v. bindc (set_var key v) (\<lambda>_. assign_loop E rest))"

definition exec_assign :: "engine \<Rightarrow> assign_step \<Rightarrow> step_result comp" where
  "exec_assign E s = bindc (assign_loop E (as_assign s)) (\<lambda>_. continue_with (as_next s))"

definition exec_log :: "engine \<Rightarrow> log_step \<Rightarrow> step_result comp" where
  "exec_log E s = bindc (eval_expr E (lg_log s)) (\<lambda>_. continue_with (lg_next s))"

definition is_truthy :: "json \<Rightarrow> bool" where
  "is_truthy v =
     (case v of
        JNull \<Rightarrow> False
      | JBool b \<Rightarrow> b
      | JNumber n \<Rightarrow> number_nonzero n
      | JString s \<Rightarrow> s \<noteq> []
      | JArray _ \<Rightarrow> True
      | JObject _ \<Rightarrow> True)"

fun switch_loop :: "engine \<Rightarrow> switch_condition list \<Rightarrow> string option \<Rightarrow> step_result comp" where
  "switch_loop E [] fallthrough = continue_with fallthrough"
| "switch_loop E (cond # rest) fallthrough =
     bindc (eval_expr E (JString (sc_condition cond))) (\<lambda>v.
       if is_truthy v then continue_with (Some (sc_next cond))
       else switch_loop E rest fallthrough)"

definition exec_switch :: "engine \<Rightarrow> switch_step \<Rightarrow> step_result comp" where
  "exec_switch E s = switch_loop E (sw_switch s) (sw_next s)"

definition exec_http_mock :: "engine \<Rightarrow> http_mock_step \<Rightarrow> step_result comp" where
  "exec_http_mock E s =
     bindc (eval_expr E (ma_response (hm_args s))) (\<lambda>body.
     let status = opt_or (ma_status (hm_args s)) 200;
         response = json_object [(''status'', json_u16 status), (''body'', body), (''headers'', JObject [])]
     in bindc (case hm_result s of
           None \<Rightarrow> ret ()
         | Some result_name \<Rightarrow>
             bindc (eval_opt E (ma_request (hm_args s))) (\<lambda>req.
               set_var result_name (json_object ((''response'', response) #
                 (case req of None \<Rightarrow> [] | Some r \<Rightarrow> [(''request'', r)]))))) (\<lambda>_.
        continue_with (hm_next s)))"

section \<open>State steps\<close>

definition evaluate_string_arg :: "engine \<Rightarrow> string \<Rightarrow> string comp" where
  "evaluate_string_arg E raw = bindc (eval_expr E (JString raw)) (\<lambda>v. ret (text_of E v))"

definition state_set :: "string \<Rightarrow> json \<Rightarrow> unit comp" where
  "state_set k v = on_world (\<lambda>c w. case store_set (w_state w) (ctx_project c) k v of
     (r, st) \<Rightarrow> (r, w\<lparr>w_state := st\<rparr>))"

definition state_delete :: "string \<Rightarrow> unit comp" where
  "state_delete k = on_world (\<lambda>c w. (Inr (),
     w\<lparr>w_state := snd (store_delete (w_state w) (ctx_project c) k)\<rparr>))"

definition state_get :: "string \<Rightarrow> json option comp" where
  "state_get k = on_world (\<lambda>c w. (Inr (store_get (w_state w) (ctx_project c) k), w))"

definition exec_state :: "engine \<Rightarrow> state_step \<Rightarrow> step_result comp" where
  "exec_state E s =
     bindc (case ss_state s of
         StGet key into \<Rightarrow>
           bindc (evaluate_string_arg E key) (\<lambda>k.
           bindc (state_get k) (\<lambda>v. set_var into (opt_or v JNull)))
       | StSet key value \<Rightarrow>
           bindc (evaluate_string_arg E key) (\<lambda>k.
           bindc (eval_expr E value) (\<lambda>v. state_set k v))
       | StDelete key \<Rightarrow>
           bindc (evaluate_string_arg E key) (\<lambda>k. state_delete k)) (\<lambda>_.
     continue_with (ss_next s))"

section \<open>Return\<close>

definition add_default :: "string \<Rightarrow> json \<Rightarrow> json hmap \<Rightarrow> json hmap" where
  "add_default key v m = (if hm_contains m key then m else hm_insert key v m)"

definition cookie_attributes :: "json hmap \<Rightarrow> json hmap" where
  "cookie_attributes m =
     add_default ''Max-Age'' (JNumber (PosInt 28800))
       (add_default ''Secure'' (JBool True)
         (add_default ''HttpOnly'' (JBool True) (add_default ''Path'' (JString ''/'') m)))"

definition cookie_part :: "engine \<Rightarrow> string \<times> json \<Rightarrow> string option" where
  "cookie_part E kv =
     (case kv of (k, v) \<Rightarrow>
        (case v of
           JBool True \<Rightarrow> Some k
         | JBool False \<Rightarrow> None
         | JString s \<Rightarrow> Some (k @ ''='' @ s)
         | other \<Rightarrow> Some (k @ ''='' @ to_text E other)))"

definition render_set_cookie :: "engine \<Rightarrow> json \<Rightarrow> string" where
  "render_set_cookie E v =
     (case v of
        JString s \<Rightarrow> s
      | JObject m \<Rightarrow> join_with ''; ''
          (List.map_filter (cookie_part E) (sort_key fst (cookie_attributes m)))
      | other \<Rightarrow> to_text E other)"

definition return_status_of :: "engine \<Rightarrow> json option \<Rightarrow> u16 option comp" where
  "return_status_of E status =
     bindc (eval_opt E status) (\<lambda>v. ret (case v of
         Some (JNumber n) \<Rightarrow> map_option ucast (as_u64 n)
       | _ \<Rightarrow> None))"

definition return_header_source :: "engine \<Rightarrow> json option \<Rightarrow> (string \<times> json) list option comp" where
  "return_header_source E headers =
     (case headers of
        None \<Rightarrow> ret None
      | Some (JObject m) \<Rightarrow> ret (Some m)
      | Some (JString s) \<Rightarrow>
          bindc (eval_expr E (JString s)) (\<lambda>v. case v of
              JObject m \<Rightarrow> ret (Some m)
            | JNull \<Rightarrow> ret None
            | other \<Rightarrow> raise (DslExecution ''return'' (InStep (ReturnHeadersNotObject (json_type_name other)))))
      | Some other \<Rightarrow> raise (DslExecution ''return'' (InStep (ReturnHeadersBadShape other))))"

fun render_headers :: "engine \<Rightarrow> (string \<times> json) list \<Rightarrow> string hmap \<Rightarrow> string hmap comp" where
  "render_headers E [] out = ret out"
| "render_headers E ((k, v) # rest) out =
     bindc (eval_expr E v) (\<lambda>x.
       if x = JNull then render_headers E rest out
       else render_headers E rest
         (hm_insert k (if eq_ignore_ascii_case k ''Set-Cookie'' then render_set_cookie E x
                       else text_of E x) out))"

definition exec_return :: "engine \<Rightarrow> return_step \<Rightarrow> step_result comp" where
  "exec_return E s =
     bindc (eval_expr E (rs_return_value s)) (\<lambda>value.
     bindc (return_status_of E (rs_status s)) (\<lambda>status.
     bindc (return_header_source E (rs_headers s)) (\<lambda>source.
     bindc (case source of
         None \<Rightarrow> ret None
       | Some m \<Rightarrow> bindc (render_headers E m []) (\<lambda>h. ret (Some h))) (\<lambda>headers.
     ret (step_result_new\<lparr>should_return := True, return_value := Some value,
       return_status := status, return_headers := headers, return_wrapper := rs_wrapper s\<rparr>)))))"

section \<open>HTTP\<close>

definition invoke_default_exception_dsl ::
  "engine \<Rightarrow> runner \<Rightarrow> default_http_dsl \<Rightarrow> u16 \<Rightarrow> json option \<Rightarrow> string option \<Rightarrow>
   dsl_execution_result comp" where
  "invoke_default_exception_dsl E run cfg status upstream_body failed_id =
     bindc (get_world dsls) (\<lambda>tree.
     case tree of
       None \<Rightarrow> invalid_step NoDslTree
     | Some t \<Rightarrow>
         (let meth = to_uppercase (dh_request_type cfg);
              dsl_key = meth @ ''/'' @ trim_char CHR ''/'' (dh_dsl cfg)
          in case Option.bind (Option.bind (map_of t (dh_project cfg)) (\<lambda>ms. map_of ms meth))
                    (\<lambda>ks. map_of ks dsl_key) of
               None \<Rightarrow> raise (FileNotFound (InStep (ExceptionDslNotFound meth dsl_key (dh_project cfg))))
             | Some d \<Rightarrow>
                 bindc (asks (\<lambda>c. Inr (request_origin c))) (\<lambda>origin.
                 let body = fold (\<lambda>(k, v) m. hm_insert k v m) (dh_body cfg)
                       [(''statusCode'', json_u16 status),
                        (''responseBody'', opt_or upstream_body JNull),
                        (''failedRequestId'', JString (opt_or failed_id []))]
                 in in_fresh (ctx_with_state body (dh_query cfg) (dh_headers cfg) origin (dh_project cfg))
                      (run d))))"

definition response_json :: "http_response \<Rightarrow> json" where
  "response_json r = json_object
     ([(''status'', json_u16 (hr_status r)), (''body'', opt_or (hr_body r) JNull),
       (''headers'', json_headers (hr_headers r))] @
      (case hr_error r of None \<Rightarrow> [] | Some kind \<Rightarrow> [(''error'', JString kind)]))"

definition after_response ::
  "engine \<Rightarrow> runner \<Rightarrow> http_step \<Rightarrow> http_response \<Rightarrow> step_result comp" where
  "after_response E run s r =
     (if hr_error r \<noteq> None then
        continue_with (case hs_error s of Some e \<Rightarrow> Some e | None \<Rightarrow> hs_next s)
      else if \<not> is_status_allowed (http_client E) (hr_status r) then
        (case hs_error s of
           Some e \<Rightarrow> continue_with (Some e)
         | None \<Rightarrow>
             bindc (case default_exception_dsl E of
                 None \<Rightarrow> ret ()
               | Some cfg \<Rightarrow>
                   bindc (asks (\<lambda>c. Inr (trace_id c))) (\<lambda>failed_id.
                   bindc (attempt (invoke_default_exception_dsl E run cfg (hr_status r) (hr_body r) failed_id))
                     (\<lambda>_. ret ()))) (\<lambda>_.
             raise (HttpRequest (InStep (StatusNotAllowed (hr_status r))))))
      else continue_with (hs_next s))"

definition exec_http :: "engine \<Rightarrow> runner \<Rightarrow> http_step \<Rightarrow> step_result comp" where
  "exec_http E run s =
     (case parse_method (hs_call s) of
        None \<Rightarrow> invalid_step (UnknownHttpMethod (hs_call s))
      | Some meth \<Rightarrow>
          (let a = hs_args s in
           bindc (eval_expr E (JString (ha_url a))) (\<lambda>url.
           bindc (eval_opt E (ha_body a)) (\<lambda>body.
           bindc (evaluate_map_arg E (ha_query a) ''http'' ''query'') (\<lambda>query.
           bindc (evaluate_map_arg E (ha_headers a) ''http'' ''headers'') (\<lambda>hs.
           bindc (asks (\<lambda>c. Inr (forward_traceparent c (opt_or hs [])))) (\<lambda>headers.
           bindc (http_call E run \<lparr>rq_method = meth, rq_url = opt_or (as_str url) [], rq_body = body,
               rq_query = query, rq_headers = none_if_empty headers, rq_timeout = hs_timeout s,
               rq_content_type = ha_content_type a\<rparr>) (\<lambda>r.
           bindc (set_var_opt (hs_result s) (json_object [(''response'', response_json r)])) (\<lambda>_.
           after_response E run s r)))))))))"

section \<open>Template\<close>

definition header_text :: "engine \<Rightarrow> json hmap \<Rightarrow> string hmap" where
  "header_text E m = map (\<lambda>(k, v). (k, text_of E v)) (filter (\<lambda>(_, v). v \<noteq> JNull) m)"

text \<open>The guards of the callee, under the child context: those already running are skipped.\<close>

fun template_guards :: "runner \<Rightarrow> (string \<times> dsl) list \<Rightarrow> dsl_execution_result option comp" where
  "template_guards run [] = ret None"
| "template_guards run ((guard_key, guard) # rest) =
     bindc (asks (\<lambda>c. Inr (is_guard_on_stack c guard_key))) (\<lambda>on_stack.
       if on_stack then template_guards run rest
       else bindc (guarded guard_key (run guard)) (\<lambda>r.
         if 400 \<le> er_status r then ret (Some r) else template_guards run rest))"

definition template_child ::
  "engine \<Rightarrow> execution_context \<Rightarrow> json hmap option \<Rightarrow> json hmap option \<Rightarrow> json hmap option \<Rightarrow> execution_context" where
  "template_child E c body query headers =
     (let child = ctx_with_state (opt_or body []) (opt_or query [])
            (case headers of None \<Rightarrow> [] | Some h \<Rightarrow> header_text E h) (request_origin c) (ctx_project c)
      in case traceparent c of Some tp \<Rightarrow> with_traceparent child tp | None \<Rightarrow> child)"

text \<open>The guards and the callee under the child context; the value that is bound is the one that ended it.\<close>

definition template_call ::
  "runner \<Rightarrow> template_step \<Rightarrow> dsl \<Rightarrow> (string \<times> dsl) list \<Rightarrow> execution_context \<Rightarrow> step_result comp" where
  "template_call run s target gs child =
     bindc (in_child child
       (bindc (template_guards run gs) (\<lambda>denied.
          case denied of Some r \<Rightarrow> ret r | None \<Rightarrow> run target))) (\<lambda>r.
     bindc (set_var_opt (tp_result s) (opt_or (er_value r) JNull)) (\<lambda>_.
     continue_with (tp_next s)))"

definition exec_template :: "engine \<Rightarrow> runner \<Rightarrow> template_step \<Rightarrow> step_result comp" where
  "exec_template E run s =
     bindc (get_world dsls) (\<lambda>tree.
     case tree of
       None \<Rightarrow> invalid_step NoDslTree
     | Some t \<Rightarrow>
         bindc (asks (\<lambda>c. Inr (ctx_project c))) (\<lambda>project.
         let meth = to_uppercase (opt_or (tp_request_type s) ''GET'');
             dsl_key = meth @ ''/'' @ trim_char CHR ''/'' (tp_template s)
         in case Option.bind (Option.bind (map_of t project) (\<lambda>ms. map_of ms meth))
                   (\<lambda>ks. map_of ks dsl_key) of
              None \<Rightarrow> raise (FileNotFound (InStep (TemplateNotFound dsl_key project)))
            | Some target \<Rightarrow>
                bindc (evaluate_map_arg E (tp_body s) ''template'' ''body'') (\<lambda>body.
                bindc (evaluate_map_arg E (tp_query s) ''template'' ''query'') (\<lambda>query.
                bindc (evaluate_map_arg E (tp_headers s) ''template'' ''headers'') (\<lambda>headers.
                bindc (asks (\<lambda>c. Inr (template_child E c body query headers))) (\<lambda>child.
                bindc (get_world (\<lambda>w. applicable_guards_for E w project dsl_key)) (\<lambda>gs.
                template_call run s target gs child)))))))"

section \<open>WebSocket steps\<close>

definition coerce_tag_value :: "engine \<Rightarrow> json \<Rightarrow> string" where
  "coerce_tag_value E v =
     (case v of JString s \<Rightarrow> s | JNull \<Rightarrow> [] | other \<Rightarrow> to_text E other)"

datatype where_op = WhereEquals string | WhereContains string

definition where_matches :: "string \<Rightarrow> where_op \<Rightarrow> string hmap \<Rightarrow> bool" where
  "where_matches tag op tags =
     (case map_of tags tag of
        None \<Rightarrow> False
      | Some v \<Rightarrow> (case op of WhereEquals want \<Rightarrow> v = want | WhereContains needle \<Rightarrow> contains_str v needle))"

definition ws_error :: "ws_reason \<Rightarrow> 'a comp" where
  "ws_error r = raise (InvalidStep (InWs r))"

definition where_operand :: "engine \<Rightarrow> json \<Rightarrow> string \<Rightarrow> (string \<Rightarrow> where_op) \<Rightarrow> where_op comp" where
  "where_operand E expr name mk =
     bindc (eval_expr E expr) (\<lambda>v. let want = coerce_tag_value E v in
       if want = [] then ws_error (BroadcastOperandEmpty name) else ret (mk want))"

definition resolve_broadcast_where :: "engine \<Rightarrow> broadcast_where \<Rightarrow> (string \<times> where_op) comp" where
  "resolve_broadcast_where E bw =
     bindc (eval_expr E (bw_tag bw)) (\<lambda>t. let tag = coerce_tag_value E t in
       if tag = [] then ws_error BroadcastTagEmpty
       else bindc (case (bw_equals bw, bw_contains bw) of
             (Some _, Some _) \<Rightarrow> ws_error BroadcastOperandBoth
           | (Some e, None) \<Rightarrow> where_operand E e ''equals'' WhereEquals
           | (None, Some x) \<Rightarrow> where_operand E x ''contains'' WhereContains
           | (None, None) \<Rightarrow> ws_error BroadcastOperandNone) (\<lambda>op. ret (tag, op)))"

definition registry_broadcast :: "(string \<Rightarrow> string hmap \<Rightarrow> bool) \<Rightarrow> json \<Rightarrow> nat comp" where
  "registry_broadcast pred payload = on_world (\<lambda>_ w.
     case broadcast_where pred payload (ws_reg w) of (n, reg) \<Rightarrow> (Inr n, w\<lparr>ws_reg := reg\<rparr>))"

definition registry_send :: "string \<Rightarrow> json \<Rightarrow> unit comp" where
  "registry_send cid payload = on_world (\<lambda>_ w.
     case ws_send cid payload (ws_reg w) of (r, reg) \<Rightarrow> (r, w\<lparr>ws_reg := reg\<rparr>))"

text \<open>Fan-out to a list of ids: a failed delivery is skipped.\<close>

fun send_each :: "engine \<Rightarrow> json list \<Rightarrow> json \<Rightarrow> unit comp" where
  "send_each E [] payload = ret ()"
| "send_each E (i # ids) payload =
     bindc (attempt (registry_send (text_of E i) payload)) (\<lambda>_. send_each E ids payload)"

definition exec_ws_send :: "engine \<Rightarrow> ws_send_step \<Rightarrow> step_result comp" where
  "exec_ws_send E s =
     (let a = ws_send_args s in
      bindc (eval_expr E (ws_payload a)) (\<lambda>payload.
      bindc (case ws_broadcast_where a of
          Some bw \<Rightarrow>
            bindc (resolve_broadcast_where E bw) (\<lambda>(tag, op).
            bindc (registry_broadcast (\<lambda>_ tags. where_matches tag op tags) payload) (\<lambda>_. ret ()))
        | None \<Rightarrow>
            (case ws_broadcast_prefix a of
               Some prefix \<Rightarrow>
                 bindc (registry_broadcast (\<lambda>cid _. starts_with cid prefix) payload) (\<lambda>_. ret ())
             | None \<Rightarrow>
                 bindc (case ws_to a of
                     Some expr \<Rightarrow> bindc (eval_expr E expr) (\<lambda>v. ret (Some v))
                   | None \<Rightarrow> asks (\<lambda>c. Inr (map_option JString (connection_id c)))) (\<lambda>target.
                 case target of
                   None \<Rightarrow> ws_error WsSendNoTarget
                 | Some (JString cid) \<Rightarrow> registry_send cid payload
                 | Some (JArray ids) \<Rightarrow> send_each E ids payload
                 | Some other \<Rightarrow> ws_error (WsSendBadTarget other)))) (\<lambda>_.
      continue_with (ws_send_next s))))"

fun eval_tags :: "engine \<Rightarrow> (string \<times> json) list \<Rightarrow> string hmap comp" where
  "eval_tags E [] = ret []"
| "eval_tags E ((k, v) # rest) =
     bindc (eval_expr E v) (\<lambda>x. bindc (eval_tags E rest) (\<lambda>es. ret ((k, coerce_tag_value E x) # es)))"

definition registry_set_tags :: "string \<Rightarrow> string hmap \<Rightarrow> unit comp" where
  "registry_set_tags cid entries = on_world (\<lambda>_ w.
     case set_tags cid entries (ws_reg w) of (r, reg) \<Rightarrow> (r, w\<lparr>ws_reg := reg\<rparr>))"

definition exec_ws_tag :: "engine \<Rightarrow> ws_tag_step \<Rightarrow> step_result comp" where
  "exec_ws_tag E s =
     bindc (asks (\<lambda>c. case connection_id c of
         None \<Rightarrow> Inl (InvalidStep (InWs WsTagNoConnection)) | Some i \<Rightarrow> Inr i)) (\<lambda>cid.
     bindc (eval_tags E (ws_tag_set s)) (\<lambda>entries.
     bindc (registry_set_tags cid entries) (\<lambda>_. continue_with (ws_tag_next s))))"

end
