(* ===== verification/Proxy.thy ===== *)
theory Proxy
  imports Steps
begin

text \<open>
  The pass-through proxy (\<open>src/router/proxy.rs\<close>): routes declared with \<open>declaration.proxy\<close> are
  forwarded to their upstream without the step engine.

  A \<open>HeaderMap\<close> is the list of its name/value pairs, names in lower case, a name repeated once per
  value. A body is the list of its frames; the idle timer of the inbound leg fires at a \<open>Stalled\<close> frame.
  The counters are \<open>AtomicU64\<close>, so 64-bit words. A semaphore is its capacity and the permits taken.
  What the upstream answers, the text of an error and which bytes are a header value are parameters.
\<close>

section \<open>Types\<close>

datatype frame = Frame string | Broken string | Stalled

type_synonym header_map = "(string \<times> string) list"

datatype io_error = IdleTimeout | InboundOverCap u64 u64 | InboundError string
  | ResponseOverCap u64 u64 | ResponseError string

datatype reply_body =
    ReplyJson json
  | ReplyText string
  | ReplyStream "(io_error + string) list"
  | ReplyUpgrade

record reply =
  rp_status :: u16
  rp_headers :: header_map
  rp_body :: reply_body

record request =
  in_method :: string
  in_path :: string
  in_query :: "string option"
  in_headers :: header_map
  in_peer :: "ip_addr option"
  in_frames :: "frame list"

datatype upstream_outcome =
    DeadlineExceeded
  | UpstreamFailed string string
  | UpstreamReplied u16 header_map "frame list"

record proxy_params =
  header_text_of :: "string \<Rightarrow> string option"
  header_value_ok :: "string \<Rightarrow> bool"
  method_error :: "string \<Rightarrow> string option"
  client_error :: "ssrf_resolution \<Rightarrow> ruuter_error option"
  parse_u64 :: "string \<Rightarrow> u64 option"
  show_u64 :: "u64 \<Rightarrow> string"
  show_error :: "ruuter_error \<Rightarrow> string"
  send_upstream :: "nat \<Rightarrow> ssrf_resolution \<Rightarrow> string \<Rightarrow> string \<Rightarrow> header_map \<Rightarrow>
    (io_error + string) list \<Rightarrow> upstream_outcome"

type_synonym semaphores = "(nat \<times> nat) hmap"

section \<open>Header maps\<close>

definition hdr_get :: "header_map \<Rightarrow> string \<Rightarrow> string option" where
  "hdr_get h n = map_of h n"

definition hdr_contains :: "header_map \<Rightarrow> string \<Rightarrow> bool" where
  "hdr_contains h n \<longleftrightarrow> n \<in> fst ` set h"

text \<open>\<open>HeaderMap::insert\<close> replaces every value of the name.\<close>

definition hdr_insert :: "string \<Rightarrow> string \<Rightarrow> header_map \<Rightarrow> header_map" where
  "hdr_insert n v h = filter (\<lambda>(m, _). m \<noteq> n) h @ [(n, v)]"

definition HOP_BY_HOP_RESPONSE :: "string list" where
  "HOP_BY_HOP_RESPONSE = [''connection'', ''keep-alive'', ''proxy-authenticate'', ''proxy-authorization'',
     ''te'', ''trailer'', ''transfer-encoding'', ''upgrade'']"

definition HOP_BY_HOP_REQUEST :: "string list" where
  "HOP_BY_HOP_REQUEST = [''connection'', ''keep-alive'', ''proxy-authenticate'', ''proxy-authorization'',
     ''te'', ''trailer'', ''transfer-encoding'', ''upgrade'', ''host'', ''expect'']"

definition comma_list :: "string \<Rightarrow> string list" where
  "comma_list s = filter (\<lambda>x. x \<noteq> []) (map trim (split_on CHR '','' s))"

definition dynamic_hop :: "proxy_params \<Rightarrow> header_map \<Rightarrow> string list" where
  "dynamic_hop P inbound =
     (case Option.bind (hdr_get inbound ''connection'') (header_text_of P) of
        None \<Rightarrow> []
      | Some conn \<Rightarrow> map to_ascii_lowercase (comma_list conn))"

text \<open>The copying loop of both legs.\<close>

fun copy_headers :: "string list \<Rightarrow> header_map \<Rightarrow> header_map \<Rightarrow> header_map" where
  "copy_headers hop [] out = out"
| "copy_headers hop ((n, v) # rest) out =
     (if to_ascii_lowercase n \<in> set hop then copy_headers hop rest out
      else copy_headers hop rest (hdr_insert n v out))"

definition minimal_headers :: "header_map \<Rightarrow> header_map" where
  "minimal_headers inbound =
     (let out = (case hdr_get inbound ''content-type'' of
           Some ct \<Rightarrow> hdr_insert ''content-type'' ct [] | None \<Rightarrow> [])
      in (case hdr_get inbound ''content-length'' of
           Some cl \<Rightarrow> hdr_insert ''content-length'' cl out | None \<Rightarrow> out))"

definition build_forward_request_headers :: "proxy_params \<Rightarrow> header_map \<Rightarrow> bool \<Rightarrow> string \<Rightarrow> header_map" where
  "build_forward_request_headers P inbound preserve_hdrs tp =
     (let out =
        (if preserve_hdrs then copy_headers (HOP_BY_HOP_REQUEST @ dynamic_hop P inbound) inbound []
         else minimal_headers inbound)
      in if header_value_ok P tp then hdr_insert ''traceparent'' tp out else out)"

definition strip_response_hop_by_hop :: "proxy_params \<Rightarrow> header_map \<Rightarrow> header_map" where
  "strip_response_hop_by_hop P inbound =
     copy_headers (HOP_BY_HOP_RESPONSE @ dynamic_hop P inbound) inbound []"

definition merge_query :: "string \<Rightarrow> string option \<Rightarrow> string" where
  "merge_query upstream_url inbound_query =
     (case inbound_query of
        None \<Rightarrow> upstream_url
      | Some q \<Rightarrow>
          if q = [] then upstream_url
          else upstream_url @ (if CHR ''?'' \<in> set upstream_url then ''&'' else ''?'') @ q)"

section \<open>Streams\<close>

fun metered_request_body :: "u64 \<Rightarrow> bool \<Rightarrow> u64 \<Rightarrow> frame list \<Rightarrow> (io_error + string) list" where
  "metered_request_body cap idle counter [] = []"
| "metered_request_body cap idle counter (f # fs) =
     (case f of
        Stalled \<Rightarrow> if idle then [Inl IdleTimeout] else metered_request_body cap idle counter fs
      | Broken e \<Rightarrow> [Inl (InboundError e)]
      | Frame bytes \<Rightarrow>
          (let total = counter + of_nat (length bytes) in
           if cap < total then [Inl (InboundOverCap cap total)]
           else Inr bytes # metered_request_body cap idle total fs))"

fun capped_response_stream :: "nat option \<Rightarrow> u64 \<Rightarrow> frame list \<Rightarrow> (io_error + string) list" where
  "capped_response_stream cap counter [] = []"
| "capped_response_stream cap counter (f # fs) =
     (case f of
        Stalled \<Rightarrow> capped_response_stream cap counter fs
      | Broken e \<Rightarrow> [Inl (ResponseError e)]
      | Frame bytes \<Rightarrow>
          (let total = counter + of_nat (length bytes) in
           if (case cap of Some limit \<Rightarrow> of_nat limit < total | None \<Rightarrow> False)
           then [Inl (ResponseOverCap (of_nat (opt_or cap 0)) total)]
           else Inr bytes # capped_response_stream cap total fs))"

section \<open>Permits\<close>

definition semaphore_for_route :: "string \<Rightarrow> u32 option \<Rightarrow> semaphores \<Rightarrow> semaphores" where
  "semaphore_for_route key cap sems =
     (case cap of
        None \<Rightarrow> sems
      | Some n \<Rightarrow> if hm_contains sems key then sems else hm_insert key (unat n, 0) sems)"

definition try_acquire_owned :: "string \<Rightarrow> semaphores \<Rightarrow> semaphores option" where
  "try_acquire_owned key sems =
     (case map_of sems key of
        Some (cap, held) \<Rightarrow> if held < cap then Some (hm_insert key (cap, Suc held) sems) else None
      | None \<Rightarrow> None)"

definition release_permit :: "string \<Rightarrow> semaphores \<Rightarrow> semaphores" where
  "release_permit key sems =
     (case map_of sems key of
        Some (cap, held) \<Rightarrow> hm_insert key (cap, held - 1) sems
      | None \<Rightarrow> sems)"

section \<open>Replies of the proxy itself\<close>

definition json_reply :: "u16 \<Rightarrow> json \<Rightarrow> reply" where
  "json_reply status v = \<lparr>rp_status = status, rp_headers = [(''content-type'', ''application/json'')],
     rp_body = ReplyJson v\<rparr>"

definition body_too_large_preflight :: "proxy_params \<Rightarrow> u64 \<Rightarrow> u64 \<Rightarrow> reply" where
  "body_too_large_preflight P declared cap = json_reply 413 (json_object
     [(''error'', JString ''proxy_body_too_large''), (''declared'', JNumber (PosInt declared)),
      (''cap'', JNumber (PosInt cap)),
      (''message'', JString (''declared Content-Length '' @ show_u64 P declared @
         '' exceeds proxy route cap '' @ show_u64 P cap))])"

definition unsupported_encoding :: "string \<Rightarrow> string list \<Rightarrow> reply" where
  "unsupported_encoding seen allowed = json_reply 415 (json_object
     [(''error'', JString ''proxy_unsupported_encoding''), (''seen'', JString seen),
      (''allowed'', JArray (map JString allowed)),
      (''message'', JString (''Content-Encoding '' @ [CHR 0x27] @ seen @ [CHR 0x27] @ '' not permitted; allowed: '' @
         join_with '', '' allowed))])"

definition proxy_upstream_rejected :: "string \<Rightarrow> reply" where
  "proxy_upstream_rejected reason = json_reply 502 (json_object
     [(''error'', JString ''proxy_upstream_rejected''), (''message'', JString reason)])"

definition capacity_exceeded :: "u32 \<Rightarrow> reply" where
  "capacity_exceeded cap =
     (let r = json_reply 503 (json_object
        [(''error'', JString ''proxy_capacity_exceeded''), (''cap'', JNumber (PosInt (ucast cap))),
         (''message'', JString ''proxy route in-flight concurrency cap reached'')])
      in r\<lparr>rp_headers := hdr_insert ''retry-after'' ''1'' (rp_headers r)\<rparr>)"

definition transport_error_response :: "string \<Rightarrow> string \<Rightarrow> reply" where
  "transport_error_response kind detail = json_reply 502 (json_object
     [(''error'', JString ''proxy_transport_error''), (''kind'', JString kind), (''message'', JString detail)])"

section \<open>Forwarding\<close>

definition first_bad_encoding :: "proxy_params \<Rightarrow> proxy_declaration \<Rightarrow> header_map \<Rightarrow> string option" where
  "first_bad_encoding P decl hs =
     (let ce_raw = opt_or (Option.bind (hdr_get hs ''content-encoding'') (header_text_of P)) ''identity''
      in find (\<lambda>entry. \<not> list_ex (\<lambda>a. eq_ignore_ascii_case a (to_ascii_lowercase entry)) (allowed_encodings decl))
           (comma_list ce_raw))"

definition declared_length :: "proxy_params \<Rightarrow> header_map \<Rightarrow> u64 option" where
  "declared_length P hs =
     Option.bind (Option.bind (hdr_get hs ''content-length'') (header_text_of P)) (parse_u64 P)"

text \<open>
  The reply, and the route whose permit the reply's body still holds (it is released when the body has
  been read or dropped); without one the permit is dropped on return.
\<close>

definition exchange ::
  "proxy_params \<Rightarrow> http_client \<Rightarrow> nat \<Rightarrow> proxy_declaration \<Rightarrow> string \<Rightarrow> request \<Rightarrow> ssrf_resolution \<Rightarrow>
   reply \<times> bool" where
  "exchange P C n decl tp rq ssrf =
     (case client_error P ssrf of
        Some e \<Rightarrow> (proxy_upstream_rejected (show_error P e), False)
      | None \<Rightarrow>
      (case method_error P (in_method rq) of
        Some e \<Rightarrow> (proxy_upstream_rejected (''invalid method: '' @ e), False)
      | None \<Rightarrow>
      (case send_upstream P n ssrf (in_method rq) (merge_query (upstream decl) (in_query rq))
              (build_forward_request_headers P (in_headers rq) (preserve_headers decl) tp)
              (metered_request_body (max_body_bytes decl) (inbound_progress_timeout_ms decl \<noteq> None) 0
                (in_frames rq)) of
         DeadlineExceeded \<Rightarrow> (transport_error_response ''timeout'' ''upstream deadline exceeded'', False)
       | UpstreamFailed kind msg \<Rightarrow> (transport_error_response kind msg, False)
       | UpstreamReplied status hs fs \<Rightarrow>
           (\<lparr>rp_status = status, rp_headers = strip_response_hop_by_hop P hs,
             rp_body = ReplyStream (capped_response_stream (response_size_limit C) 0 fs)\<rparr>, True))))"

definition forward ::
  "proxy_params \<Rightarrow> net_params \<Rightarrow> http_client \<Rightarrow> nat \<Rightarrow> proxy_declaration \<Rightarrow> string \<Rightarrow> string \<Rightarrow> request \<Rightarrow>
   semaphores \<Rightarrow> reply \<times> string option \<times> semaphores" where
  "forward P N C n decl route_key tp rq sems =
     (let declared = opt_or (declared_length P (in_headers rq)) 0 in
      if max_body_bytes decl < declared
      then (body_too_large_preflight P declared (max_body_bytes decl), None, sems)
      else case first_bad_encoding P decl (in_headers rq) of
        Some entry \<Rightarrow> (unsupported_encoding entry (allowed_encodings decl), None, sems)
      | None \<Rightarrow>
      (case check_ssrf N C (upstream decl) of
        Inl e \<Rightarrow> (proxy_upstream_rejected (show_error P e), None, sems)
      | Inr ssrf \<Rightarrow>
      (case max_in_flight decl of
        None \<Rightarrow> (fst (exchange P C n decl tp rq ssrf), None, sems)
      | Some cap \<Rightarrow>
          (let sems1 = semaphore_for_route route_key (Some cap) sems in
           case try_acquire_owned route_key sems1 of
             None \<Rightarrow> (capacity_exceeded cap, None, sems1)
           | Some sems2 \<Rightarrow>
               (case exchange P C n decl tp rq ssrf of
                  (r, True) \<Rightarrow> (r, Some route_key, sems2)
                | (r, False) \<Rightarrow> (r, None, release_permit route_key sems2))))))"

section \<open>Lemmas\<close>

lemma set_hdr_insert: "set (hdr_insert n v h) = {x \<in> set h. fst x \<noteq> n} \<union> {(n, v)}"
  by (auto simp: hdr_insert_def)

lemma copy_headers_from:
  "set (copy_headers hop inb out) \<subseteq> set out \<union> {(n, v) \<in> set inb. to_ascii_lowercase n \<notin> set hop}"
  by (induction hop inb out rule: copy_headers.induct) (auto simp: set_hdr_insert split: if_splits)

lemma minimal_headers_from:
  "set (minimal_headers inbound) \<subseteq> {(n, v) \<in> set inbound. n = ''content-type'' \<or> n = ''content-length''}"
  by (cases "hdr_get inbound ''content-type''"; cases "hdr_get inbound ''content-length''")
    (auto simp: minimal_headers_def set_hdr_insert hdr_insert_def hdr_get_def dest: map_of_SomeD)

lemma distinct_hdr_insert: "distinct (map fst h) \<Longrightarrow> distinct (map fst (hdr_insert n v h))"
  by (auto simp: hdr_insert_def distinct_map_filter)

lemma copy_headers_distinct: "distinct (map fst out) \<Longrightarrow> distinct (map fst (copy_headers hop inb out))"
  by (induction hop inb out rule: copy_headers.induct) (simp_all add: distinct_hdr_insert)

fun accepted_bytes :: "(io_error + string) list \<Rightarrow> string" where
  "accepted_bytes [] = []"
| "accepted_bytes (Inl _ # xs) = accepted_bytes xs"
| "accepted_bytes (Inr b # xs) = b @ accepted_bytes xs"

fun frame_bytes :: "frame list \<Rightarrow> string" where
  "frame_bytes [] = []"
| "frame_bytes (Frame b # fs) = b @ frame_bytes fs"
| "frame_bytes (_ # fs) = frame_bytes fs"

lemma unat_add_small: "unat a + n < 2 ^ 64 \<Longrightarrow> unat (a + of_nat n :: u64) = unat a + n"
  by (simp add: unat_word_ariths unat_of_nat)

lemma metered_within:
  "unat counter + length (frame_bytes fs) < 2 ^ 64 \<Longrightarrow> counter \<le> cap \<Longrightarrow>
   unat counter + length (accepted_bytes (metered_request_body cap idle counter fs)) \<le> unat cap"
proof (induction cap idle counter fs rule: metered_request_body.induct)
  case (2 cap idle counter f fs)
  show ?case
  proof (cases f)
    case (Frame b)
    have total: "unat (counter + of_nat (length b)) = unat counter + length b"
      using "2.prems"(1) Frame by (intro unat_add_small) simp
    then show ?thesis
      using "2.IH"(1)[OF Frame refl] "2.prems" Frame
      by (auto simp: Let_def not_less word_le_nat_alt)
  qed (use 2 in \<open>auto simp: word_le_nat_alt\<close>)
qed (simp add: word_le_nat_alt)

lemma metered_complete:
  "unat counter + length (frame_bytes fs) \<le> unat cap \<Longrightarrow> \<forall>f \<in> set fs. \<exists>b. f = Frame b \<Longrightarrow>
   metered_request_body cap idle counter fs = map (\<lambda>f. case f of Frame b \<Rightarrow> Inr b) fs"
proof (induction fs arbitrary: counter)
  case (Cons f fs)
  then obtain b where b: "f = Frame b" by auto
  have "unat cap < 2 ^ 64" by (rule order_less_le_trans[OF unsigned_less]) simp
  then have total: "unat (counter + of_nat (length b)) = unat counter + length b"
    using Cons.prems(1) b by (intro unat_add_small) simp
  then show ?case
    using Cons b by (simp add: Let_def word_less_nat_alt)
qed simp

section \<open>Permits are bounded and never leak\<close>

definition held :: "semaphores \<Rightarrow> string \<Rightarrow> nat" where
  "held sems k = (case map_of sems k of Some (_, h) \<Rightarrow> h | None \<Rightarrow> 0)"

definition sem_wf :: "semaphores \<Rightarrow> bool" where
  "sem_wf sems \<longleftrightarrow> (\<forall>k cap h. map_of sems k = Some (cap, h) \<longrightarrow> h \<le> cap)"

lemma semaphore_for_route_facts:
  "sem_wf sems \<Longrightarrow> sem_wf (semaphore_for_route k cap sems)" "held (semaphore_for_route k cap sems) q = held sems q"
  by (auto simp: sem_wf_def semaphore_for_route_def held_def hm_contains_def update_conv' split: option.splits if_splits)

lemma try_acquire_facts:
  assumes "try_acquire_owned k sems = Some sems'"
  shows "sem_wf sems \<Longrightarrow> sem_wf sems'" "held sems' q = held sems q + (if q = k then 1 else 0)"
  using assms
  by (auto simp: try_acquire_owned_def sem_wf_def held_def update_conv' split: option.splits if_splits)

lemma release_facts:
  "sem_wf sems \<Longrightarrow> sem_wf (release_permit k sems)"
  "held (release_permit k sems) q = held sems q - (if q = k then 1 else 0)"
  by (fastforce simp: release_permit_def sem_wf_def held_def update_conv' split: option.splits if_splits)+

lemma forward_permits:
  assumes "sem_wf sems" "forward P N C n decl k tp rq sems = (r, permit, sems')"
  shows "sem_wf sems' \<and> held sems' q = held sems q + (if permit = Some q then 1 else 0)"
proof (cases "max_in_flight decl")
  case None
  then show ?thesis
    using assms by (auto simp: forward_def Let_def split: if_splits option.splits sum.splits)
next
  case (Some cap)
  let ?s1 = "semaphore_for_route k (Some cap) sems"
  note s1 = semaphore_for_route_facts[where sems = sems and k = k and cap = "Some cap"]
  from assms(2) Some consider "permit = None" "sems' = sems" | "permit = None" "sems' = ?s1"
    | s2 where "try_acquire_owned k ?s1 = Some s2" "permit = Some k" "sems' = s2"
    | s2 where "try_acquire_owned k ?s1 = Some s2" "permit = None" "sems' = release_permit k s2"
    by (auto simp: forward_def Let_def split: if_splits option.splits sum.splits prod.splits bool.splits)
  then show ?thesis
    by cases (use assms(1) s1 in \<open>auto simp: try_acquire_facts release_facts\<close>)
qed

section \<open>Properties\<close>


text \<open>
  The per-route body cap holds on the wire: whatever the client declares and however the body is
  framed, the bytes handed to the upstream never exceed \<open>max_body_bytes\<close> (as long as the body is
  shorter than the 64-bit counter), and a body within the cap that arrives without errors is passed on frame by frame.
\<close>

theorem proxied_body_within_cap:
  assumes "length (frame_bytes fs) < 2 ^ 64"
  shows "length (accepted_bytes (metered_request_body cap idle 0 fs)) \<le> unat cap \<and>
    (length (frame_bytes fs) \<le> unat cap \<and> (\<forall>f \<in> set fs. \<exists>b. f = Frame b) \<longrightarrow>
       metered_request_body cap idle 0 fs = map (\<lambda>f. case f of Frame b \<Rightarrow> Inr b) fs)"
  using metered_within[of 0 fs cap idle] metered_complete[of 0 fs cap idle] assms by simp

theorem proxied_body_within_cap_witness:
  "length (frame_bytes [Frame ''ab'', Frame ''cd'']) < 2 ^ 64 \<and>
   length (accepted_bytes (metered_request_body 3 False 0 [Frame ''ab'', Frame ''cd''])) \<le> unat (3 :: u64) \<and>
   metered_request_body 4 False 0 [Frame ''ab'', Frame ''cd''] = [Inr ''ab'', Inr ''cd'']"
  using proxied_body_within_cap[of "[Frame ''ab'', Frame ''cd'']" 3 False]
    proxied_body_within_cap[of "[Frame ''ab'', Frame ''cd'']" 4 False]
  by simp

text \<open>
  In-flight permits are bounded and never leak: from well-formed semaphores, forwarding a request
  leaves every route within its capacity and takes exactly one permit, on the route, when the reply
  still streams, and none otherwise (a rejection, an error and a time-out give theirs back);
  releasing keeps every route within its capacity.
\<close>

theorem proxy_permits_balanced:
  assumes "sem_wf sems" "forward P N C n decl k tp rq sems = (r, permit, sems')"
  shows "sem_wf sems' \<and> sem_wf (release_permit q sems') \<and>
    held sems' q = held sems q + (if permit = Some q then 1 else 0)"
  using forward_permits[OF assms] release_facts(1) by blast

definition sample_proxy :: proxy_params where
  "sample_proxy = \<lparr>header_text_of = Some, header_value_ok = \<lambda>_. True, method_error = \<lambda>_. None,
     client_error = \<lambda>_. None, parse_u64 = \<lambda>_. None, show_u64 = \<lambda>_. [], show_error = \<lambda>_. [],
     send_upstream = \<lambda>_ _ _ _ _ _. UpstreamReplied 200 [] [Frame ''ok'']\<rparr>"

definition sample_declaration :: proxy_declaration where
  "sample_declaration = \<lparr>upstream = ''http://up'', preserve_headers = True, max_body_bytes = 10,
     max_in_flight = Some 2, inbound_progress_timeout_ms = None, allowed_encodings = [''identity''],
     request_timeout_ms = None\<rparr>"

definition sample_get :: request where
  "sample_get = \<lparr>in_method = ''GET'', in_path = ''/p/x'', in_query = None, in_headers = [], in_peer = None,
     in_frames = []\<rparr>"

definition open_client :: http_client where
  "open_client = \<lparr>response_size_limit = None, status_allow_list = [], outbound_disabled = False,
     allowed_url_prefixes = [], allowed_ip_hosts = [], block_private_networks = False,
     unix_socket_map = [], self_tcp = [], offline = False\<rparr>"

theorem proxy_permits_balanced_witness:
  "sem_wf [(''r'', 2, 1)] \<and> (\<exists>r sems'.
     forward sample_proxy example_net open_client 0 sample_declaration ''r'' ''tp'' sample_get [(''r'', 2, 1)] =
       (r, Some ''r'', sems') \<and> sem_wf sems' \<and> held sems' ''r'' = 2)"
proof -
  have wf: "sem_wf [(''r'', 2, 1)]" by (simp add: sem_wf_def)
  obtain r sems' where run: "forward sample_proxy example_net open_client 0 sample_declaration ''r'' ''tp'' sample_get
      [(''r'', 2, 1)] = (r, Some ''r'', sems')"
    by (simp add: forward_def sample_declaration_def sample_get_def sample_proxy_def open_client_def declared_length_def
        hdr_get_def first_bad_encoding_def comma_list_def trim_def is_space_def eq_ignore_ascii_case_def
        check_ssrf_def check_allowed_urls_def check_allowed_ips_def bindr_def semaphore_for_route_def
        hm_contains_def try_acquire_owned_def exchange_def Let_def to_ascii_lowercase_def ascii_lower_char_def)
  have "held [(''r'', 2, 1)] ''r'' = 1" by (simp add: held_def)
  then show ?thesis
    using wf run proxy_permits_balanced[OF wf run, of "''r''"] by auto
qed

text \<open>
  A header that occurs more than once does not survive the proxy: on both legs only the last value
  of a name is kept, so of two \<open>Set-Cookie\<close> headers of the upstream the client gets the second only,
  although the response is documented to pass through verbatim.
\<close>

theorem repeated_headers_collapse:
  "distinct (map fst (strip_response_hop_by_hop P inbound)) \<and>
   strip_response_hop_by_hop P [(''set-cookie'', a), (''set-cookie'', b)] = [(''set-cookie'', b)]"
proof -
  have "to_ascii_lowercase ''set-cookie'' = ''set-cookie''" by code_simp
  then show ?thesis
    by (simp add: strip_response_hop_by_hop_def copy_headers_distinct dynamic_hop_def hdr_get_def hdr_insert_def
        HOP_BY_HOP_RESPONSE_def)
qed

end
