(* ===== verification/Engine.thy ===== *)
theory Engine
  imports Steps
begin

text \<open>
  The composite steps (\<open>parallel_http\<close>, \<open>iterate\<close>, \<open>single_flight\<close>, \<open>detach\<close>), the dispatch
  \<open>execute_single_step\<close> and the loop \<open>StepEngine::run\<close> of \<open>src/steps/engine.rs\<close>.

  \<open>run_loop\<close> recurses on the iteration budget \<open>max_iterations\<close>, exactly as the source decrements it,
  so one DSL run always ends. Runs nest: a guard, a template callee, the default exception DSL and
  a self-call start another run. The source has no bound on that nesting; \<open>engine_run n\<close> allows \<open>n\<close> levels
  and is \<open>None\<close> beyond them. Results do not depend on the fuel (theory \<open>Engine_Laws\<close>).
\<close>

section \<open>Parallel HTTP\<close>

record peer_args =
  pa_peer :: json
  pa_url :: string
  pa_body :: "json option"
  pa_query :: "json hmap"
  pa_headers :: "json hmap"

fun resolve_peers :: "engine \<Rightarrow> http_args \<Rightarrow> json list \<Rightarrow> peer_args list comp" where
  "resolve_peers E a [] = ret []"
| "resolve_peers E a (peer # peers) =
     bindc (set_var ''peer'' peer) (\<lambda>_.
     bindc (eval_expr E (JString (ha_url a))) (\<lambda>url.
     bindc (eval_opt E (ha_body a)) (\<lambda>body.
     bindc (evaluate_map_arg E (ha_query a) ''parallel_http'' ''query'') (\<lambda>query.
     bindc (evaluate_map_arg E (ha_headers a) ''parallel_http'' ''headers'') (\<lambda>hs.
     bindc (asks (\<lambda>c. Inr (forward_traceparent c (opt_or hs [])))) (\<lambda>headers.
     bindc (resolve_peers E a peers) (\<lambda>rest.
       ret (\<lparr>pa_peer = peer, pa_url = opt_or (as_str url) [], pa_body = body,
             pa_query = opt_or query [], pa_headers = headers\<rparr> # rest))))))))"

text \<open>The calls in completion order; each outcome carries the index of its peer.\<close>

fun peer_calls ::
  "engine \<Rightarrow> runner \<Rightarrow> string \<Rightarrow> u64 option \<Rightarrow> string option \<Rightarrow> peer_args list \<Rightarrow> nat list \<Rightarrow>
   (nat \<times> json \<times> http_response result) list comp" where
  "peer_calls E run meth timeout ct ps [] = ret []"
| "peer_calls E run meth timeout ct ps (i # order) =
     (let p = ps ! i in
      bindc (attempt (http_call E run \<lparr>rq_method = meth, rq_url = pa_url p, rq_body = pa_body p,
          rq_query = none_if_empty (pa_query p), rq_headers = none_if_empty (pa_headers p),
          rq_timeout = timeout, rq_content_type = ct\<rparr>)) (\<lambda>r.
      bindc (peer_calls E run meth timeout ct ps order) (\<lambda>rest. ret ((i, pa_peer p, r) # rest))))"

definition peer_response_json :: "http_response \<Rightarrow> json" where
  "peer_response_json r = json_object
     [(''status'', json_u16 (hr_status r)), (''body'', opt_or (hr_body r) JNull),
      (''headers'', json_headers (hr_headers r)),
      (''error'', (case hr_error r of None \<Rightarrow> JNull | Some k \<Rightarrow> JString k))]"

definition is_transport_error :: "http_response \<Rightarrow> bool" where
  "is_transport_error r \<longleftrightarrow> hr_status r = 0 \<or> hr_error r \<noteq> None"

definition json_usize :: "nat \<Rightarrow> json" where
  "json_usize n = JNumber (PosInt (of_nat n))"

definition build_peer_entry :: "nat \<Rightarrow> json \<Rightarrow> http_response \<Rightarrow> json" where
  "build_peer_entry idx peer r = json_object
     [(''_idx'', json_usize idx), (''peer'', peer), (''response'', peer_response_json r)]"

definition build_peer_error_entry :: "nat \<Rightarrow> json \<Rightarrow> string \<Rightarrow> json" where
  "build_peer_error_entry idx peer err = json_object
     [(''_idx'', json_usize idx), (''peer'', peer),
      (''response'', json_object [(''status'', JNumber (PosInt 0)), (''body'', JNull),
         (''headers'', JObject []), (''error'', JString err)])]"

fun collect_filtered :: "engine \<Rightarrow> bool \<Rightarrow> (nat \<times> json \<times> http_response result) list \<Rightarrow> json list" where
  "collect_filtered E drop_errors [] = []"
| "collect_filtered E drop_errors ((idx, peer, r) # rest) =
     (case r of
        Inr resp \<Rightarrow>
          if drop_errors \<and> is_transport_error resp then collect_filtered E drop_errors rest
          else build_peer_entry idx peer resp # collect_filtered E drop_errors rest
      | Inl e \<Rightarrow>
          if drop_errors then collect_filtered E drop_errors rest
          else build_peer_error_entry idx peer (error_text E e) # collect_filtered E drop_errors rest)"

definition predicate_matches ::
  "engine \<Rightarrow> early_exit_on option \<Rightarrow> http_response \<Rightarrow> bool comp" where
  "predicate_matches E predicate r =
     (let bounds = opt_or (Option.bind predicate status_range) (200, 299) in
      if is_transport_error r then ret False
      else if hr_status r < fst bounds \<or> snd bounds < hr_status r then ret False
      else case Option.bind predicate body_predicate of
        None \<Rightarrow> ret True
      | Some expr \<Rightarrow>
          bindc (set_var ''response'' (peer_response_json r)) (\<lambda>_.
          bindc (attempt (eval_expr E (JString expr))) (\<lambda>v.
            ret (case v of Inl _ \<Rightarrow> False | Inr x \<Rightarrow> is_truthy x))))"

text \<open>Consumes outcomes until the quota is met; only the matches are kept.\<close>

fun collect_first_n ::
  "engine \<Rightarrow> nat \<Rightarrow> early_exit_on option \<Rightarrow> (nat \<times> json \<times> http_response result) list \<Rightarrow> json list \<Rightarrow>
   json list comp" where
  "collect_first_n E target predicate [] matches = ret matches"
| "collect_first_n E target predicate ((idx, peer, r) # rest) matches =
     (if target \<le> length matches then ret matches
      else case r of
        Inl _ \<Rightarrow> collect_first_n E target predicate rest matches
      | Inr resp \<Rightarrow>
          bindc (predicate_matches E predicate resp) (\<lambda>counted.
            collect_first_n E target predicate rest
              (if counted then matches @ [build_peer_entry idx peer resp] else matches)))"

definition entry_index :: "json \<Rightarrow> nat" where
  "entry_index v =
     (case v of
        JObject m \<Rightarrow>
          (case map_of m ''_idx'' of
             Some (JNumber n) \<Rightarrow> (case as_u64 n of Some u \<Rightarrow> unat u | None \<Rightarrow> usize_max)
           | _ \<Rightarrow> usize_max)
      | _ \<Rightarrow> usize_max)"

definition strip_index :: "json \<Rightarrow> json" where
  "strip_index v = (case v of JObject m \<Rightarrow> JObject (hm_remove ''_idx'' m) | _ \<Rightarrow> v)"

text \<open>The completion order, made a permutation of the peers whatever the parameter says.\<close>

definition completion_order :: "engine \<Rightarrow> nat \<Rightarrow> nat \<Rightarrow> nat list" where
  "completion_order E n k =
     (let order = join_order E n k in if sort order = [0..<k] then order else [0..<k])"

definition exec_parallel_http :: "engine \<Rightarrow> runner \<Rightarrow> parallel_http_step \<Rightarrow> step_result comp" where
  "exec_parallel_http E run s =
     (let b = ph_body s in
      bindc (eval_expr E (JString (ph_peers b))) (\<lambda>peers_val.
      bindc (case peers_val of
          JArray arr \<Rightarrow> ret arr
        | JNull \<Rightarrow> ret []
        | other \<Rightarrow> invalid_step (PeersNotArray (json_type_name other))) (\<lambda>peers.
      if peers = [] then bindc (set_var (ph_result b) (JArray [])) (\<lambda>_. continue_with (ph_next s))
      else case parse_method (ph_call b) of
        None \<Rightarrow> invalid_step (UnknownHttpMethod (ph_call b))
      | Some meth \<Rightarrow>
          bindc (resolve_peers E (ph_args b) peers) (\<lambda>ps.
          bindc (get_world (\<lambda>w. completion_order E (length (sent w)) (length ps))) (\<lambda>order.
          bindc (peer_calls E run meth (ph_timeout b) (ha_content_type (ph_args b)) ps order) (\<lambda>outcomes.
          bindc (case ph_aggregate b of
              CollectOk \<Rightarrow> ret (collect_filtered E True outcomes)
            | CollectAll \<Rightarrow> ret (collect_filtered E False outcomes)
            | FirstN \<Rightarrow> collect_first_n E (max (unat (opt_or (ph_first_n b) 1)) 1)
                (ph_early_exit_on b) outcomes []) (\<lambda>collected.
          bindc (set_var (ph_result b) (JArray (map strip_index (sort_key entry_index collected)))) (\<lambda>_.
          continue_with (ph_next s))))))))) "

section \<open>Iterate, single flight, detach\<close>

definition DEFAULT_MAX_ITEMS :: nat where
  "DEFAULT_MAX_ITEMS = 10000"

text \<open>
  The item loop: \<open>body\<close> runs the sub-steps once and gives \<open>Some\<close> result when one of them returned.
  The value is that result, or the collected values.
\<close>

fun iterate_loop ::
  "engine \<Rightarrow> string \<Rightarrow> step_result option comp \<Rightarrow> json option \<Rightarrow> json list \<Rightarrow> json list \<Rightarrow>
   (step_result + json list) comp" where
  "iterate_loop E item_var body collect [] collected = ret (Inr collected)"
| "iterate_loop E item_var body collect (item # rest) collected =
     bindc (set_var item_var item) (\<lambda>_.
     bindc body (\<lambda>early.
       case early of
         Some r \<Rightarrow> ret (Inl r)
       | None \<Rightarrow>
           bindc (eval_opt E collect) (\<lambda>v.
             iterate_loop E item_var body collect rest
               (case v of None \<Rightarrow> collected | Some x \<Rightarrow> collected @ [x]))))"

definition exec_iterate ::
  "engine \<Rightarrow> json \<Rightarrow> string \<Rightarrow> step_result option comp \<Rightarrow> json option \<Rightarrow> string option \<Rightarrow> nat option \<Rightarrow>
   string option \<Rightarrow> step_result comp" where
  "exec_iterate E over item_var body collect into max_items next =
     bindc (eval_expr E over) (\<lambda>list_value.
     bindc (case list_value of
         JArray arr \<Rightarrow> ret arr
       | other \<Rightarrow> invalid_step (IterateNotArray other)) (\<lambda>elems.
     let cap = opt_or max_items DEFAULT_MAX_ITEMS in
     if cap < length elems then invalid_step (IterateTooMany (length elems) cap)
     else bindc (iterate_loop E item_var body collect elems []) (\<lambda>out.
       case out of
         Inl r \<Rightarrow> ret r
       | Inr collected \<Rightarrow>
           bindc (set_var_opt into (JArray collected)) (\<lambda>_. continue_with next))))"

definition claim_flight :: "string \<Rightarrow> bool comp" where
  "claim_flight key = on_world (\<lambda>_ w.
     case sf_claim key (single_flight w) of ((_, leader), r) \<Rightarrow> (Inr leader, w\<lparr>single_flight := r\<rparr>))"

definition remove_flight :: "string \<Rightarrow> unit comp" where
  "remove_flight key = on_world (\<lambda>_ w. (Inr (), w\<lparr>single_flight := sf_remove key (single_flight w)\<rparr>))"

definition publish_outcome :: "string \<Rightarrow> sf_outcome \<Rightarrow> unit comp" where
  "publish_outcome key out = on_world (\<lambda>_ w. (Inr (), w\<lparr>published := published w @ [(key, out)]\<rparr>))"

definition await_outcome :: "engine \<Rightarrow> string \<Rightarrow> sf_recv comp" where
  "await_outcome E key = on_world (\<lambda>_ w.
     (Inr (recv_outcome E (waits w) key), w\<lparr>waits := Suc (waits w)\<rparr>))"

definition run_as_leader ::
  "engine \<Rightarrow> string \<Rightarrow> step_result option comp \<Rightarrow> string option \<Rightarrow> string option \<Rightarrow> step_result comp" where
  "run_as_leader E key body result next =
     bindc (attempt body) (\<lambda>outcome.
     bindc (asks (\<lambda>c. Inr (case outcome of
         Inl e \<Rightarrow> Inl (error_text E e)
       | Inr _ \<Rightarrow> Inr (map_option (\<lambda>name. opt_or (get_variable c name) JNull) result)))) (\<lambda>out.
     bindc (publish_outcome key out) (\<lambda>_.
     bindc (remove_flight key) (\<lambda>_.
       case outcome of
         Inl e \<Rightarrow> raise e
       | Inr (Some early) \<Rightarrow> ret early
       | Inr None \<Rightarrow> continue_with next))))"

definition run_as_follower ::
  "engine \<Rightarrow> string \<Rightarrow> u64 \<Rightarrow> string option \<Rightarrow> string option \<Rightarrow> step_result comp" where
  "run_as_follower E key ttl_ms result next =
     bindc (await_outcome E key) (\<lambda>recv.
     case recv of
       Received (Inr maybe_value) \<Rightarrow>
         bindc (case (result, maybe_value) of
             (Some name, Some v) \<Rightarrow> set_var name v
           | _ \<Rightarrow> ret ()) (\<lambda>_. continue_with next)
     | Received (Inl msg) \<Rightarrow> raise (DslExecution ''single_flight'' (InStep (LeaderFailed msg)))
     | ChannelClosed \<Rightarrow> raise (DslExecution ''single_flight'' (InStep (LeaderDropped key)))
     | RecvTimeout \<Rightarrow>
         bindc (remove_flight key) (\<lambda>_. raise (Timeout (InStep (FollowerTimedOut ttl_ms key)))))"

definition exec_single_flight ::
  "engine \<Rightarrow> string \<Rightarrow> u64 \<Rightarrow> step_result option comp \<Rightarrow> string option \<Rightarrow> string option \<Rightarrow> step_result comp" where
  "exec_single_flight E key_expr ttl_ms body result next =
     bindc (evaluate_string_arg E key_expr) (\<lambda>key.
     bindc (claim_flight key) (\<lambda>is_leader.
       if is_leader then run_as_leader E key body result next
       else run_as_follower E key ttl_ms result next))"

definition exec_detach ::
  "dsl_step list \<Rightarrow> u64 option \<Rightarrow> string option \<Rightarrow> step_result comp" where
  "exec_detach steps timeout_ms next =
     (if steps = [] then invalid_step DetachEmpty
      else bindc (on_world (\<lambda>c w.
          case detached w of
            None \<Rightarrow> (Inl (InvalidStep (InStep DetachNoRegistry)), w)
          | Some d \<Rightarrow>
              (case try_spawn (ctx_snapshot c, steps, timeout_ms) d of
                 (Inr _, d') \<Rightarrow> (Inr (), w\<lparr>detached := Some d'\<rparr>)
               | (Inl cap, d') \<Rightarrow> (Inl (DslExecution ''detach'' (InStep (DetachFull cap))), w)))) (\<lambda>_.
        continue_with next))"

section \<open>Dispatch\<close>

fun exec_step :: "engine \<Rightarrow> runner \<Rightarrow> dsl_step \<Rightarrow> step_result comp"
and exec_body :: "engine \<Rightarrow> runner \<Rightarrow> dsl_step list \<Rightarrow> step_result option comp" where
  "exec_step E run (Assign s) = exec_assign E s"
| "exec_step E run (Return s) = exec_return E s"
| "exec_step E run (HttpCall s) = exec_http E run s"
| "exec_step E run (HttpMock s) = exec_http_mock E s"
| "exec_step E run (Switch s) = exec_switch E s"
| "exec_step E run (Log s) = exec_log E s"
| "exec_step E run (Template s) = exec_template E run s"
| "exec_step E run (State s) = exec_state E s"
| "exec_step E run (Iterate over item_var body collect into max_items next _) =
     exec_iterate E over item_var (exec_body E run body) collect into max_items next"
| "exec_step E run (ParallelHttp s) = exec_parallel_http E run s"
| "exec_step E run (Detach body timeout_ms next _) = exec_detach body timeout_ms next"
| "exec_step E run (WsSend s) = exec_ws_send E s"
| "exec_step E run (WsTag s) = exec_ws_tag E s"
| "exec_step E run (SingleFlight key ttl_ms body result next _) =
     exec_single_flight E key ttl_ms (exec_body E run body) result next"
| "exec_step E run (Declaration _) = ret step_result_new"
| "exec_body E run [] = ret None"
| "exec_body E run (s # ss) =
     bindc (exec_step E run s) (\<lambda>r. if should_return r then ret (Some r) else exec_body E run ss)"

section \<open>The run loop\<close>

definition per_step_cap :: "dsl_step \<Rightarrow> u32 \<Rightarrow> nat" where
  "per_step_cap step global =
     (case Option.bind (step_base step) max_recursions of
        Some per_step \<Rightarrow> min (unat per_step) (unat global)
      | None \<Rightarrow> unat global)"

definition is_skipped :: "dsl_step \<Rightarrow> bool" where
  "is_skipped step = opt_or (Option.bind (step_base step) skip) False"

definition wants_reload :: "dsl_step \<Rightarrow> bool" where
  "wants_reload step = opt_or (Option.bind (step_base step) reload_dsl) False"

definition empty_result :: dsl_execution_result where
  "empty_result = \<lparr>er_value = None, er_status = 200, er_headers = [], er_wrapper = None\<rparr>"

definition returned :: "step_result \<Rightarrow> dsl_execution_result" where
  "returned r = \<lparr>er_value = return_value r, er_status = opt_or (return_status r) 200,
     er_headers = opt_or (return_headers r) [], er_wrapper = return_wrapper r\<rparr>"

fun position :: "string \<Rightarrow> string list \<Rightarrow> nat option" where
  "position x [] = None"
| "position x (y # ys) = (if x = y then Some 0 else map_option Suc (position x ys))"

definition run_step :: "engine \<Rightarrow> runner \<Rightarrow> string \<Rightarrow> dsl_step \<Rightarrow> step_result comp" where
  "run_step E run name step =
     map_error (\<lambda>c e. StepContext name (type_name step) (ctx_project c) e)
       (if is_skipped step then ret step_result_new else exec_step E run step)"

fun run_loop ::
  "engine \<Rightarrow> runner \<Rightarrow> dsl \<Rightarrow> nat \<Rightarrow> nat \<Rightarrow> nat hmap \<Rightarrow> dsl_execution_result comp" where
  "run_loop E run d 0 idx recursions = ret empty_result"
| "run_loop E run d (Suc budget) idx recursions =
     (if length (step_names d) \<le> idx then ret empty_result
      else
        let name = step_names d ! idx in
        case get_step d name of
          None \<Rightarrow> invalid_step (StepNotFound name)
        | Some step \<Rightarrow>
            let count = opt_or (map_of recursions name) 0 in
            if per_step_cap step (max_iterations E) \<le> count
            then run_loop E run d budget (Suc idx) recursions
            else
              let recursions' = hm_insert name (Suc count) recursions in
              bindc (run_step E run name step) (\<lambda>r.
              if should_return r then ret (returned r)
              else bindc (if \<not> is_skipped step \<and> wants_reload step then trigger_reload E else ret ()) (\<lambda>_.
                case next_step r of
                  None \<Rightarrow> run_loop E run d budget (Suc idx) recursions'
                | Some nxt \<Rightarrow>
                    if nxt = ''end'' then ret empty_result
                    else case position nxt (step_names d) of
                      Some idx' \<Rightarrow> run_loop E run d budget idx' recursions'
                    | None \<Rightarrow> raise (DslExecution name (InStep (UnknownNext name nxt))))))"

declare run_loop.simps [simp del]

definition run_with :: "engine \<Rightarrow> runner \<Rightarrow> dsl \<Rightarrow> dsl_execution_result comp" where
  "run_with E run d = run_loop E run d (unat (max_iterations E)) 0 []"

primrec engine_run :: "nat \<Rightarrow> engine \<Rightarrow> runner" where
  "engine_run 0 E = (\<lambda>d c w. None)"
| "engine_run (Suc n) E = run_with E (engine_run n E)"

text \<open>A detached task, when the scheduler gets to it: its steps under its own snapshot.\<close>

definition run_detached :: "engine \<Rightarrow> runner \<Rightarrow> detached_task \<Rightarrow> world \<Rightarrow> world option" where
  "run_detached E run t w =
     (case t of (snapshot, steps, _) \<Rightarrow>
        map_option (\<lambda>(_, _, w'). w') (exec_body E run steps snapshot w))"

end
