(* ===== verification/Sample_System.thy ===== *)
theory Sample_System
  imports Engine
begin

text \<open>
  A small concrete deployment on which the witnesses evaluate the model: one project with a DSL
  that stores a value and returns it with a status, a DSL behind a guard that denies, and a template
  that reaches the guarded DSL. The script engine evaluates no scripts and the network is down.
\<close>

definition no_base :: base_step_fields where
  "no_base = \<lparr>skip = None, sleep = None, max_recursions = None, reload_dsl = None\<rparr>"

definition sample_scripts :: script_params where
  "sample_scripts = \<lparr>js_eval = \<lambda>_ _. Inl ''no scripts'', json_text = \<lambda>_. [],
     json_read = \<lambda>_. Inl ''no scripts''\<rparr>"

definition sample_net :: net_params where
  "sample_net = \<lparr>parse_url = \<lambda>_. None, parse_ip = \<lambda>_. None, lookup_host = \<lambda>_ _. None,
     parse_json = \<lambda>_. None, parse_usize = \<lambda>_. None, show_port = \<lambda>_. [], utf8_lossy = \<lambda>s. s,
     show_value = \<lambda>_. [], tcp_send = \<lambda>_ _ _. TransportFailed ''connect'' ''refused'',
     uds_send = \<lambda>_ _. UdsTimedOut\<rparr>"

definition sample_client :: http_client where
  "sample_client = \<lparr>response_size_limit = None, status_allow_list = [], outbound_disabled = False,
     allowed_url_prefixes = [], allowed_ip_hosts = [], block_private_networks = False,
     unix_socket_map = [], self_tcp = [], offline = False\<rparr>"

definition sample_engine :: engine where
  "sample_engine = \<lparr>script_engine = sample_scripts, net = sample_net, http_client = sample_client,
     max_iterations = 10, guards_mode = Stack, default_exception_dsl = None, reload_handler = None,
     self_call_wired = False, recv_outcome = \<lambda>_ _. RecvTimeout, join_order = \<lambda>_ k. [0..<k],
     generate_traceparent = \<lambda>_. ''tp'', error_text = \<lambda>_. ''error''\<rparr>"

definition return_of :: "json \<Rightarrow> u16 \<Rightarrow> dsl_step" where
  "return_of v status = Return \<lparr>rs_return_value = v, rs_status = Some (JNumber (PosInt (ucast status))),
     rs_headers = None, rs_wrapper = None, rs_next = None, rs_base = no_base\<rparr>"

definition store_dsl :: dsl where
  "store_dsl = dsl_new
     [(''put'', State \<lparr>ss_state = StSet ''k'' (JString ''v''), ss_next = None, ss_base = no_base\<rparr>),
      (''out'', return_of (JString ''stored'') 201)]"

definition secret_dsl :: dsl where
  "secret_dsl = dsl_new [(''out'', return_of (JString ''secret'') 200)]"

definition deny_guard :: dsl where
  "deny_guard = dsl_new [(''no'', return_of (JString ''denied'') 403)]"

definition template_to :: "string \<Rightarrow> dsl_step" where
  "template_to path = Template \<lparr>tp_template = path, tp_result = Some ''r'', tp_request_type = None,
     tp_body = None, tp_query = None, tp_headers = None, tp_next = None, tp_base = no_base\<rparr>"

definition relay_dsl :: dsl where
  "relay_dsl = dsl_new [(''call'', template_to ''admin/secret'')]"

definition sample_dsls :: http_dsls where
  "sample_dsls = [(''demo'', [(''GET'', [(''GET/store'', store_dsl), (''GET/relay'', relay_dsl),
     (''GET/admin/secret'', secret_dsl)])])]"

definition sample_guards :: guard_dsls where
  "sample_guards = [(''demo'', [(''GET/admin'', deny_guard)])]"

definition sample_world :: world where
  "sample_world = \<lparr>w_state = store_with_max 2, ws_reg = [], single_flight = sf_with_capacity 4,
     detached = None, dsls = Some sample_dsls, guards = sample_guards, sent = [], reloads = 0,
     waits = 0, published = []\<rparr>"

section \<open>Evaluation\<close>

text \<open>
  The engine and the world stay folded; the simplifier reads their fields through these equations.
\<close>

lemma sample_fields [simp]:
  "script_engine sample_engine = sample_scripts" "max_iterations sample_engine = 10"
  "guards_mode sample_engine = Stack" "self_call_wired sample_engine = False"
  "default_exception_dsl sample_engine = None" "reload_handler sample_engine = None"
  "w_state sample_world = store_with_max 2" "ws_reg sample_world = []"
  "single_flight sample_world = sf_with_capacity 4" "detached sample_world = None"
  "dsls sample_world = Some sample_dsls" "guards sample_world = sample_guards" "sent sample_world = []"
  by (simp_all add: sample_engine_def sample_world_def)

text \<open>One iteration, for a loop that is applied to a context and a world.\<close>

lemma run_loop_applied:
  "run_loop E run d (Suc budget) idx rec c w =
     (if length (step_names d) \<le> idx then ret empty_result
      else
        let name = step_names d ! idx in
        case get_step d name of
          None \<Rightarrow> invalid_step (StepNotFound name)
        | Some step \<Rightarrow>
            let count = opt_or (map_of rec name) 0 in
            if per_step_cap step (max_iterations E) \<le> count
            then run_loop E run d budget (Suc idx) rec
            else
              let rec' = hm_insert name (Suc count) rec in
              bindc (run_step E run name step) (\<lambda>r.
              if should_return r then ret (returned r)
              else bindc (if \<not> is_skipped step \<and> wants_reload step then trigger_reload E else ret ()) (\<lambda>_.
                case next_step r of
                  None \<Rightarrow> run_loop E run d budget (Suc idx) rec'
                | Some nxt \<Rightarrow>
                    if nxt = ''end'' then ret empty_result
                    else case position nxt (step_names d) of
                      Some idx' \<Rightarrow> run_loop E run d budget idx' rec'
                    | None \<Rightarrow> raise (DslExecution name (InStep (UnknownNext name nxt)))))) c w"
  by (simp only: run_loop.simps)

lemmas run_loop_numeral = run_loop_applied[where budget = "pred_numeral k" for k, folded numeral_eq_Suc]

lemma plain_string [simp]: "\<not> string_has_expressions s \<Longrightarrow> evaluate P c (JString s) = Inr (JString s)"
  by (simp add: evaluate_def evaluate_tracked_def)

lemma plain_number [simp]: "evaluate P c (JNumber n) = Inr (JNumber n)"
  by (simp add: evaluate_def evaluate_tracked_def)

lemma u16_u64_u16 [simp]: "ucast (ucast (s :: u16) :: u64) = s"
  by (rule bit_word_eqI) (auto simp: bit_unsigned_iff)

lemma exec_return_of [simp]:
  "\<not> string_has_expressions s \<Longrightarrow> exec_step E run (return_of (JString s) status) c w =
     Some (Inr (step_result_new\<lparr>should_return := True, return_value := Some (JString s),
       return_status := Some status\<rparr>), c, w)"
  by (simp add: return_of_def exec_return_def bindc_def eval_expr_def return_status_of_def eval_opt_def
      return_header_source_def step_result_new_def)

lemmas run_eval = run_loop_applied run_loop_numeral Let_def run_with_def dsl_new_def step_names_def get_step_def per_step_cap_def run_step_def
  is_skipped_def wants_reload_def returned_def bindc_def map_error_def continue_with_def
  step_result_next_def step_result_new_def no_base_def string_has_expressions_def starts_with_def
  evaluate_string_arg_def eval_expr_def text_of_def on_world_def

definition sample_ctx :: execution_context where
  "sample_ctx = ctx_with_state [] [] [] ''o'' ''demo''"

lemma return_of_base [simp]: "step_base (return_of v s) = Some no_base"
  by (simp add: return_of_def)

lemma sample_ctx_project [simp]: "ctx_project sample_ctx = ''demo''"
  by (simp add: sample_ctx_def ctx_with_state_def)

definition store_after :: state_store where
  "store_after = snd (store_set (store_with_max 2) ''demo'' ''k'' (JString ''v''))"

lemma sample_set [simp]:
  "store_set (store_with_max 2) ''demo'' ''k'' (JString ''v'') = (Inr (), store_after)"
  by (simp add: store_after_def store_set_def store_with_max_def hm_contains_def current_count_def Let_def)

definition stored_result :: dsl_execution_result where
  "stored_result = \<lparr>er_value = Some (JString ''stored''), er_status = 201, er_headers = [], er_wrapper = None\<rparr>"

definition denied_result :: dsl_execution_result where
  "denied_result = \<lparr>er_value = Some (JString ''denied''), er_status = 403, er_headers = [], er_wrapper = None\<rparr>"

lemma store_run [simp]:
  "ctx_project c = ''demo'' \<Longrightarrow> run_with sample_engine run store_dsl c sample_world =
     Some (Inr stored_result, c, sample_world\<lparr>w_state := store_after\<rparr>)"
  by (simp add: run_eval store_dsl_def exec_state_def state_set_def stored_result_def)

lemma deny_run [simp]:
  "run_with sample_engine run deny_guard c w = Some (Inr denied_result, c, w)"
  by (simp add: run_eval deny_guard_def denied_result_def)

lemma denied_status [simp]: "er_status denied_result = 403"
  by (simp add: denied_result_def)

lemma sample_request_ctx [simp]: "ctx_project (request_context p b q h src pp tp) = p"
  by (simp add: request_context_def with_traceparent_def ctx_with_state_def)

lemma no_declarations [simp]:
  "dsl_declaration store_dsl = None" "dsl_declaration deny_guard = None"
  "dsl_declaration secret_dsl = None" "dsl_declaration relay_dsl = None"
  by (simp_all add: store_dsl_def deny_guard_def secret_dsl_def relay_dsl_def dsl_new_def
      return_of_def template_to_def)

lemma sample_guards_for:
  "applicable_guards_for sample_engine sample_world ''demo'' ''GET/store'' = []"
  "applicable_guards_for sample_engine sample_world ''demo'' ''GET/admin/secret'' = [(''GET/admin'', deny_guard)]"
  by code_simp+

lemma sample_resolve:
  "resolve_dsl_with_path_params sample_dsls ''demo'' ''GET'' ''store'' = Some (store_dsl, ''GET/store'', [])"
  "resolve_dsl_with_path_params sample_dsls ''demo'' ''GET'' ''admin/secret'' =
     Some (secret_dsl, ''GET/admin/secret'', [])"
  by code_simp+

lemma sample_upper: "to_uppercase ''get'' = ''GET''"
  by code_simp

lemma store_request:
  "execute_dsl sample_engine (engine_run (Suc n) sample_engine) ''demo'' ''get'' ''store'' [] [] [] ''o'' sample_world =
     Some (Inr stored_result, sample_world\<lparr>w_state := store_after\<rparr>)"
  by (simp add: execute_dsl_def sample_upper sample_resolve sample_guards_for guarded_run_def bindc_def
      filter_request_def)

lemma secret_request:
  "execute_dsl sample_engine (engine_run (Suc n) sample_engine) ''demo'' ''get'' ''admin/secret'' [] [] [] ''o'' sample_world =
     Some (Inr denied_result, sample_world)"
  by (simp add: execute_dsl_def sample_upper sample_resolve sample_guards_for guarded_run_def bindc_def
      guarded_def push_guard_def MAX_GUARD_DEPTH_def request_context_def with_traceparent_def
      ctx_with_state_def pop_guard_def Let_def)

definition loop_dsl :: dsl where
  "loop_dsl = dsl_new [(''again'', template_to ''loop'')]"

definition loop_dsls :: http_dsls where
  "loop_dsls = [(''demo'', [(''GET'', [(''GET/loop'', loop_dsl)])])]"

end
