(* ===== verification/Guard_Enforcement.thy ===== *)
theory Guard_Enforcement
  imports Sample_System
begin

text \<open>
  What guards promise, as a specification that does not mention the engine's control flow: the
  relation \<open>guard_chain\<close> says, rule by rule, how a list of guards decides about a request (a guard's
  declaration holds or fails the chain, its key goes on the stack or fails the chain, its run errs,
  denies or passes). The guard loop of \<open>DslRouter::execute_dsl\<close> refines it, and so does the loop of
  the template step, where a guard that is already running is skipped. The terminal DSL and the
  callee of a template run only after a chain that passed.
\<close>

datatype verdict = Passed | Denied dsl_execution_result | Failed ruuter_error

definition declaration_holds :: "string \<Rightarrow> dsl \<Rightarrow> execution_context \<Rightarrow> unit result" where
  "declaration_holds meth g c =
     (case dsl_declaration g of
        None \<Rightarrow> Inr ()
      | Some decl \<Rightarrow> enforce_guard_declaration decl (request_body c) (request_query c) (request_headers c) meth)"

section \<open>The specification\<close>

text \<open>\<open>checks\<close> is the per-guard precondition; \<open>skips\<close> says which guards do not apply here.\<close>

inductive guard_chain ::
  "(dsl \<Rightarrow> execution_context \<Rightarrow> unit result) \<Rightarrow> (execution_context \<Rightarrow> string \<Rightarrow> bool) \<Rightarrow> runner \<Rightarrow>
   (string \<times> dsl) list \<Rightarrow> execution_context \<Rightarrow> world \<Rightarrow> verdict \<Rightarrow> execution_context \<Rightarrow> world \<Rightarrow> bool"
  for checks skips run where
  exhausted: "guard_chain checks skips run [] c w Passed c w"
| skipped: "skips c k \<Longrightarrow> guard_chain checks skips run gs c w v c' w' \<Longrightarrow>
    guard_chain checks skips run ((k, g) # gs) c w v c' w'"
| unmet: "\<not> skips c k \<Longrightarrow> checks g c = Inl e \<Longrightarrow> guard_chain checks skips run ((k, g) # gs) c w (Failed e) c w"
| nested: "\<not> skips c k \<Longrightarrow> checks g c = Inr () \<Longrightarrow> push_guard k c = Inl e \<Longrightarrow>
    guard_chain checks skips run ((k, g) # gs) c w (Failed e) c w"
| failing: "\<not> skips c k \<Longrightarrow> checks g c = Inr () \<Longrightarrow> push_guard k c = Inr c1 \<Longrightarrow>
    run g c1 w = Some (Inl e, c2, w2) \<Longrightarrow>
    guard_chain checks skips run ((k, g) # gs) c w (Failed e) (pop_guard c2) w2"
| deny: "\<not> skips c k \<Longrightarrow> checks g c = Inr () \<Longrightarrow> push_guard k c = Inr c1 \<Longrightarrow>
    run g c1 w = Some (Inr res, c2, w2) \<Longrightarrow> 400 \<le> er_status res \<Longrightarrow>
    guard_chain checks skips run ((k, g) # gs) c w (Denied res) (pop_guard c2) w2"
| pass: "\<not> skips c k \<Longrightarrow> checks g c = Inr () \<Longrightarrow> push_guard k c = Inr c1 \<Longrightarrow>
    run g c1 w = Some (Inr res, c2, w2) \<Longrightarrow> er_status res < 400 \<Longrightarrow>
    guard_chain checks skips run gs (pop_guard c2) w2 v c' w' \<Longrightarrow>
    guard_chain checks skips run ((k, g) # gs) c w v c' w'"

inductive_cases guard_chain_NilE: "guard_chain checks skips run [] c w v c' w'"
inductive_cases guard_chain_ConsE: "guard_chain checks skips run ((k, g) # gs) c w v c' w'"

definition verdict_of :: "dsl_execution_result option result \<Rightarrow> verdict" where
  "verdict_of r = (case r of Inl e \<Rightarrow> Failed e | Inr None \<Rightarrow> Passed | Inr (Some res) \<Rightarrow> Denied res)"

lemma verdict_of_simps [simp]:
  "verdict_of (Inl e) = Failed e" "verdict_of (Inr None) = Passed" "verdict_of (Inr (Some res)) = Denied res"
  by (simp_all add: verdict_of_def)

lemma denied_is_error: "guard_chain checks skips run gs c w (Denied res) c' w' \<Longrightarrow> 400 \<le> er_status res"
  by (induction gs c w "Denied res" c' w' rule: guard_chain.induct) auto

section \<open>Refinement\<close>

lemma guarded_cases:
  "guarded k m c w = Some (r, c', w') \<longleftrightarrow>
     (\<exists>e. push_guard k c = Inl e \<and> r = Inl e \<and> c' = c \<and> w' = w) \<or>
     (\<exists>c1 c2. push_guard k c = Inr c1 \<and> m c1 w = Some (r, c2, w') \<and> c' = pop_guard c2)"
  by (auto simp: guarded_def split: sum.splits option.splits)

lemma run_guards_Cons:
  "run_guards run meth ((k, g) # gs) c w =
     (case declaration_holds meth g c of
        Inl e \<Rightarrow> Some (Inl e, c, w)
      | Inr _ \<Rightarrow> bindc (guarded k (run g)) (\<lambda>res. if 400 \<le> er_status res then ret (Some res)
           else run_guards run meth gs) c w)"
  by (simp add: declaration_holds_def bindc_def[of "case dsl_declaration g of None \<Rightarrow> _ | Some d \<Rightarrow> _ d"]
      split: option.splits sum.splits)

lemma template_guards_Cons:
  "template_guards run ((k, g) # gs) c w =
     (if is_guard_on_stack c k then template_guards run gs c w
      else bindc (guarded k (run g)) (\<lambda>res. if 400 \<le> er_status res then ret (Some res)
           else template_guards run gs) c w)"
  by (simp add: bindc_def[of "asks _"])

text \<open>One guard of either loop, its precondition met.\<close>

lemma guard_turn:
  assumes "bindc (guarded k (run g)) (\<lambda>res. if 400 \<le> er_status res then ret (Some res) else rest) c w =
      Some (r, c', w')"
    and app: "\<not> skips c k" "checks g c = Inr ()"
    and IH: "\<And>c w. rest c w = Some (r, c', w') \<Longrightarrow> guard_chain checks skips run gs c w (verdict_of r) c' w'"
  shows "guard_chain checks skips run ((k, g) # gs) c w (verdict_of r) c' w'"
proof -
  consider (err) e where "guarded k (run g) c w = Some (Inl e, c', w')" "r = Inl e"
    | (ok) res c1 w1 where "guarded k (run g) c w = Some (Inr res, c1, w1)"
        "(if 400 \<le> er_status res then ret (Some res) else rest) c1 w1 = Some (r, c', w')"
    using assms(1) unfolding bindc_Some by blast
  then show ?thesis
  proof cases
    case err
    then show ?thesis using app by (auto simp: guarded_cases intro: guard_chain.nested guard_chain.failing)
  next
    case ok
    then obtain c0 c2 where run: "push_guard k c = Inr c0" "run g c0 w = Some (Inr res, c2, w1)" "c1 = pop_guard c2"
      by (auto simp: guarded_cases)
    show ?thesis
    proof (cases "400 \<le> er_status res")
      case True
      then show ?thesis using ok(2) run app by (auto intro: guard_chain.deny)
    next
      case False
      then show ?thesis using ok(2) run app by (auto intro!: guard_chain.pass IH)
    qed
  qed
qed

lemma run_guards_refines:
  "run_guards run meth gs c w = Some (r, c', w') \<Longrightarrow>
   guard_chain (declaration_holds meth) (\<lambda>_ _. False) run gs c w (verdict_of r) c' w'"
proof (induction gs arbitrary: c w)
  case Nil
  then show ?case by (auto intro: guard_chain.exhausted)
next
  case (Cons kg gs)
  obtain k g where kg: "kg = (k, g)" by (cases kg)
  show ?case
  proof (cases "declaration_holds meth g c")
    case (Inl e)
    then show ?thesis
      using Cons.prems unfolding kg run_guards_Cons by (auto intro: guard_chain.unmet)
  next
    case (Inr u)
    then show ?thesis
      using Cons.prems Cons.IH unfolding kg run_guards_Cons
      by (auto intro!: guard_turn)
  qed
qed

lemma template_guards_refine:
  "template_guards run gs c w = Some (r, c', w') \<Longrightarrow>
   guard_chain (\<lambda>_ _. Inr ()) is_guard_on_stack run gs c w (verdict_of r) c' w'"
proof (induction gs arbitrary: c w)
  case Nil
  then show ?case by (auto intro: guard_chain.exhausted)
next
  case (Cons kg gs)
  obtain k g where kg: "kg = (k, g)" by (cases kg)
  show ?case
    using Cons.prems Cons.IH unfolding kg template_guards_Cons
    by (auto intro: guard_turn guard_chain.skipped split: if_splits)
qed

section \<open>Evaluation leaves the state alone\<close>

definition pure_comp :: "'a comp \<Rightarrow> bool" where
  "pure_comp m \<longleftrightarrow> (\<forall>c w r c' w'. m c w = Some (r, c', w') \<longrightarrow> c' = c \<and> w' = w)"

lemma pure_compD: "pure_comp m \<Longrightarrow> m c w = Some (r, c', w') \<Longrightarrow> c' = c \<and> w' = w"
  unfolding pure_comp_def by blast

lemma pure_bind: "pure_comp m \<Longrightarrow> (\<And>x. pure_comp (f x)) \<Longrightarrow> pure_comp (bindc m f)"
  unfolding pure_comp_def bindc_Some by metis

lemma pure_basic: "pure_comp (ret x)" "pure_comp (raise e)" "pure_comp (asks f)" "pure_comp (eval_expr E j)"
    "pure_comp (\<lambda>c w. Some (s, c, w))"
  by (auto simp: pure_comp_def eval_expr_def)

lemma pure_map_arg: "pure_comp (evaluate_map_arg E arg sn an)"
proof -
  have "pure_comp (eval_pairs E kvs out)" for kvs out
    by (induction E kvs out rule: eval_pairs.induct) (auto intro!: pure_bind pure_basic)
  then show ?thesis
    unfolding evaluate_map_arg_def
    by (auto intro!: pure_bind pure_basic split: option.splits json.splits)
qed

lemma bind_pure:
  assumes "pure_comp m" "bindc m f c w = Some (Inr r, c', w')"
  obtains x where "m c w = Some (Inr x, c, w)" "f x c w = Some (Inr r, c', w')"
  using assms pure_compD[OF assms(1)] unfolding bindc_Some by blast

lemma bind_ok:
  assumes "bindc m f c w = Some (Inr r, c', w')"
  obtains x c1 w1 where "m c w = Some (Inr x, c1, w1)" "f x c1 w1 = Some (Inr r, c', w')"
  using assms unfolding bindc_Some by blast

lemma in_child_ok:
  assumes "in_child child m c w = Some (r, c', w')"
  obtains c1 where "m (with_guard_stack_from child c) w = Some (r, c1, w')" "c' = c\<lparr>guard_stack := guard_stack c1\<rparr>"
  using assms by (auto simp: in_child_def split: option.splits)

lemma exec_template_calls:
  assumes "dsls w = Some t"
    and "Option.bind (Option.bind (map_of t (ctx_project c)) (\<lambda>ms. map_of ms meth)) (\<lambda>ks. map_of ks key) = Some d"
    and "meth = to_uppercase (opt_or (tp_request_type s) ''GET'')" "key = meth @ ''/'' @ trim_char CHR ''/'' (tp_template s)"
    and "exec_template E run s c w = Some (Inr r, c', w')"
  obtains body query headers where
    "template_call run s d (applicable_guards_for E w (ctx_project c) key) (template_child E c body query headers) c w =
       Some (Inr r, c', w')"
proof -
  have "bindc (evaluate_map_arg E (tp_body s) ''template'' ''body'') (\<lambda>body.
      bindc (evaluate_map_arg E (tp_query s) ''template'' ''query'') (\<lambda>query.
      bindc (evaluate_map_arg E (tp_headers s) ''template'' ''headers'') (\<lambda>headers.
      bindc (asks (\<lambda>c. Inr (template_child E c body query headers))) (\<lambda>child.
      bindc (get_world (\<lambda>w. applicable_guards_for E w (ctx_project c) key)) (\<lambda>gs.
      template_call run s d gs child))))) c w = Some (Inr r, c', w')"
    using assms
    by (simp add: exec_template_def Let_def bindc_def[of "get_world dsls"]
        bindc_def[of "asks (\<lambda>c. Inr (ctx_project c))"])
  then show thesis
    by (elim bind_pure[OF pure_map_arg]) (auto simp: bindc_def intro: that)
qed

lemma template_child_project [simp]: "ctx_project (template_child E c b q h) = ctx_project c"
  by (simp add: template_child_def Let_def ctx_with_state_def with_traceparent_def split: option.splits)

lemma template_call_cases:
  assumes "template_call run s d gs child c w = Some (Inr r, c', w')"
  shows "\<exists>v c1 w1 res.
    guard_chain (\<lambda>_ _. Inr ()) is_guard_on_stack run gs (with_guard_stack_from child c) w v c1 w1 \<and>
    (v = Passed \<and> (\<exists>c2. run d c1 w1 = Some (Inr res, c2, w')) \<or> v = Denied res \<and> w' = w1) \<and>
    (case tp_result s of None \<Rightarrow> True | Some n \<Rightarrow> get_variable c' n = Some (opt_or (er_value res) JNull))"
proof -
  let ?m = "bindc (template_guards run gs) (\<lambda>denied. case denied of Some r \<Rightarrow> ret r | None \<Rightarrow> run d)"
  obtain res c2 w2 where child: "in_child child ?m c w = Some (Inr res, c2, w2)"
    and bind: "bindc (set_var_opt (tp_result s) (opt_or (er_value res) JNull)) (\<lambda>_. continue_with (tp_next s)) c2 w2 =
      Some (Inr r, c', w')"
    using assms unfolding template_call_def by (rule bind_ok)
  have w2: "w2 = w'"
    and bound: "case tp_result s of None \<Rightarrow> True | Some n \<Rightarrow> get_variable c' n = Some (opt_or (er_value res) JNull)"
    using bind by (auto simp: bindc_Some set_var_opt_def continue_with_def split: option.splits)
  obtain c0 where "?m (with_guard_stack_from child c) w = Some (Inr res, c0, w')"
    using child unfolding w2 by (rule in_child_ok)
  then obtain v c1 w1 where v: "template_guards run gs (with_guard_stack_from child c) w = Some (Inr v, c1, w1)"
    and rest: "(case v of Some r \<Rightarrow> ret r | None \<Rightarrow> run d) c1 w1 = Some (Inr res, c0, w')"
    unfolding bindc_Some by blast
  show ?thesis
  proof (cases v)
    case None
    with template_guards_refine[OF v] rest bound show ?thesis by (auto intro!: exI[of _ Passed])
  next
    case (Some d')
    with template_guards_refine[OF v] rest bound show ?thesis by (auto intro!: exI[of _ "Denied d'"])
  qed
qed

section \<open>Properties\<close>

text \<open>
  C5. The guards decide: whatever a request to a resolved DSL gives, a guard chain over exactly the
  applicable guards, in order, accounts for it. If the chain denies, the response is the denying
  guard's and has a status of at least 400; if it fails, the error is the response; in both cases the
  world is as the guards left it and the DSL has not run. Only after every guard passed is the DSL's
  declaration enforced, and only then does the DSL run, on the filtered request.
\<close>

theorem guards_decide_request:
  assumes "resolve_dsl_with_path_params (opt_or (dsls w) []) project (to_uppercase meth) path = Some (d, key, pp)"
    and "execute_dsl E run project meth path body query headers origin w = Some (r, w')"
    and "tp = opt_or (map_of headers ''traceparent'') (generate_traceparent E (length (sent w)))"
  shows "\<exists>v c1 w1. guard_chain (declaration_holds (to_uppercase meth)) (\<lambda>_ _. False) run
      (applicable_guards_for E w project key) (request_context project body query headers origin pp tp) w v c1 w1 \<and>
    (case v of
       Denied res \<Rightarrow> r = Inr res \<and> 400 \<le> er_status res \<and> w' = w1
     | Failed e \<Rightarrow> r = Inl e \<and> w' = w1
     | Passed \<Rightarrow> (\<exists>c'. bindc (filter_request (dsl_declaration d) (to_uppercase meth) tp) (\<lambda>_. run d) c1 w1 =
                    Some (r, c', w')))"
proof -
  let ?c0 = "request_context project body query headers origin pp tp"
  let ?gs = "applicable_guards_for E w project key"
  obtain c' where g: "guarded_run run (to_uppercase meth) ?gs d tp ?c0 w = Some (r, c', w')"
    using assms by (auto simp: execute_dsl_def Let_def)
  then obtain v c1 w1 where v: "run_guards run (to_uppercase meth) ?gs ?c0 w = Some (v, c1, w1)"
    by (cases "run_guards run (to_uppercase meth) ?gs ?c0 w") (auto simp: guarded_run_def bindc_def)
  have chain: "guard_chain (declaration_holds (to_uppercase meth)) (\<lambda>_ _. False) run ?gs ?c0 w (verdict_of v) c1 w1"
    by (rule run_guards_refines[OF v])
  have "case verdict_of v of
       Denied res \<Rightarrow> r = Inr res \<and> 400 \<le> er_status res \<and> w' = w1
     | Failed e \<Rightarrow> r = Inl e \<and> w' = w1
     | Passed \<Rightarrow> (\<exists>c'. bindc (filter_request (dsl_declaration d) (to_uppercase meth) tp) (\<lambda>_. run d) c1 w1 =
                    Some (r, c', w'))"
    using g v denied_is_error chain
    by (auto simp: guarded_run_def bindc_def[of "run_guards _ _ _"] verdict_of_def split: sum.splits option.splits)
  then show ?thesis using chain by blast
qed

theorem guards_decide_request_witness:
  "\<exists>v c1 w1. guard_chain (declaration_holds ''GET'') (\<lambda>_ _. False) (engine_run 1 sample_engine)
      [(''GET/admin'', deny_guard)] (request_context ''demo'' [] [] [] ''o'' [] ''tp'') sample_world v c1 w1 \<and>
    (case v of
       Denied res \<Rightarrow> (Inr denied_result :: dsl_execution_result result) = Inr res \<and> 400 \<le> er_status res \<and> sample_world = w1
     | Failed e \<Rightarrow> (Inr denied_result :: dsl_execution_result result) = Inl e \<and> sample_world = w1
     | Passed \<Rightarrow> (\<exists>c'. bindc (filter_request (dsl_declaration secret_dsl) ''GET'' ''tp'')
          (\<lambda>_. engine_run 1 sample_engine secret_dsl) c1 w1 = Some (Inr denied_result, c', sample_world)))"
proof -
  have res: "resolve_dsl_with_path_params (opt_or (dsls sample_world) []) ''demo'' (to_uppercase ''get'') ''admin/secret'' =
      Some (secret_dsl, ''GET/admin/secret'', [])"
    by (simp add: sample_upper sample_resolve)
  have tp: "''tp'' = opt_or (map_of ([] :: string hmap) ''traceparent'')
      (generate_traceparent sample_engine (length (sent sample_world)))"
    by (simp add: sample_engine_def)
  show ?thesis
    using guards_decide_request[OF res secret_request[of 0] tp]
    unfolding sample_upper sample_guards_for One_nat_def .
qed

text \<open>
  C13. A template step does not get around the guards of its target: if the step completes, then a
  chain over the guards applicable to the target (those already running left out), run under the
  child context with the caller's guard stack, has either passed, and the target then ran from where
  the chain ended and its value is bound, or denied, and then the target has not run and the guard's
  value is bound.
\<close>

theorem template_respects_guards:
  assumes tree: "dsls w = Some t"
    and target: "Option.bind (Option.bind (map_of t (ctx_project c)) (\<lambda>ms. map_of ms meth)) (\<lambda>ks. map_of ks key) = Some d"
    and key: "meth = to_uppercase (opt_or (tp_request_type s) ''GET'')" "key = meth @ ''/'' @ trim_char CHR ''/'' (tp_template s)"
    and run: "exec_template E run s c w = Some (Inr r, c', w')"
  shows "\<exists>child v c1 w1 res. ctx_project child = ctx_project c \<and> guard_stack child = guard_stack c \<and>
    guard_chain (\<lambda>_ _. Inr ()) is_guard_on_stack run (applicable_guards_for E w (ctx_project c) key) child w v c1 w1 \<and>
    (v = Passed \<and> (\<exists>c2. run d c1 w1 = Some (Inr res, c2, w')) \<or> v = Denied res \<and> w' = w1) \<and>
    (case tp_result s of None \<Rightarrow> True | Some n \<Rightarrow> get_variable c' n = Some (opt_or (er_value res) JNull))"
proof -
  let ?gs = "applicable_guards_for E w (ctx_project c) key"
  obtain body query headers where
    "template_call run s d ?gs (template_child E c body query headers) c w = Some (Inr r, c', w')"
    using run by (rule exec_template_calls[OF tree target key])
  note call = template_call_cases[OF this]
  let ?child = "with_guard_stack_from (template_child E c body query headers) c"
  have "ctx_project ?child = ctx_project c" "guard_stack ?child = guard_stack c"
    by (simp_all add: with_guard_stack_from_def)
  with call show ?thesis by blast
qed

definition relay_step :: template_step where
  "relay_step = \<lparr>tp_template = ''admin/secret'', tp_result = Some ''r'', tp_request_type = None,
     tp_body = None, tp_query = None, tp_headers = None, tp_next = None, tp_base = no_base\<rparr>"

lemma relay_run:
  "exec_template sample_engine (run_with sample_engine run) relay_step sample_ctx sample_world =
     Some (Inr (step_result_next None), set_variable ''r'' (JString ''denied'') sample_ctx, sample_world)"
proof -
  have key: "to_uppercase ''GET'' = ''GET''" "trim_char CHR ''/'' ''admin/secret'' = ''admin/secret''"
    by code_simp+
  show ?thesis
    by (simp add: exec_template_def relay_step_def bindc_def key Let_def sample_dsls_def evaluate_map_arg_def
        sample_guards_for template_call_def in_child_def template_child_def is_guard_on_stack_def guarded_def
        push_guard_def MAX_GUARD_DEPTH_def with_guard_stack_from_def pop_guard_def set_var_opt_def continue_with_def
        sample_ctx_def ctx_with_state_def denied_result_def)
qed

theorem template_respects_guards_witness:
  "\<exists>child v c1 w1 res. ctx_project child = ''demo'' \<and> guard_stack child = [] \<and>
    guard_chain (\<lambda>_ _. Inr ()) is_guard_on_stack (engine_run 1 sample_engine) [(''GET/admin'', deny_guard)]
      child sample_world v c1 w1 \<and>
    (v = Passed \<and> (\<exists>c2. engine_run 1 sample_engine secret_dsl c1 w1 = Some (Inr res, c2, sample_world)) \<or>
     v = Denied res \<and> sample_world = w1) \<and>
    Some (JString ''denied'') = Some (opt_or (er_value res) JNull)"
proof -
  have target: "Option.bind (Option.bind (map_of sample_dsls (ctx_project sample_ctx)) (\<lambda>ms. map_of ms ''GET''))
      (\<lambda>ks. map_of ks ''GET/admin/secret'') = Some secret_dsl"
    by (simp add: sample_dsls_def)
  have key: "''GET'' = to_uppercase (opt_or (tp_request_type relay_step) ''GET'')"
    "''GET/admin/secret'' = ''GET'' @ ''/'' @ trim_char CHR ''/'' (tp_template relay_step)"
    by code_simp+
  have run: "exec_template sample_engine (engine_run 1 sample_engine) relay_step sample_ctx sample_world =
     Some (Inr (step_result_next None), set_variable ''r'' (JString ''denied'') sample_ctx, sample_world)"
    by (simp add: relay_run)
  have facts: "guard_stack sample_ctx = []" "tp_result relay_step = Some ''r''"
    by (simp_all add: sample_ctx_def ctx_with_state_def relay_step_def)
  show ?thesis
    using template_respects_guards[OF _ target key run] unfolding sample_guards_for sample_ctx_project facts
    by (simp del: engine_run.simps)
qed

end
