(* ===== verification/Inbound.thy ===== *)
theory Inbound
  imports Proxy Guard_Enforcement
begin

text \<open>
  What the entry points of the router share (\<open>src/router/mod.rs\<close>): its configuration, the replies it
  builds itself, the view of the query and the headers, and the decoding of a request body by content
  type, multipart included.

  What the HTTP, URL, JSON and multipart libraries do is in \<open>inbound_params\<close>: a multipart body is the
  list of its fields and how the stream ended. The lemmas bound what the body readers buffer and show
  what they give on every branch.
\<close>

section \<open>Types\<close>

record mp_field =
  mp_name :: "string option"
  mp_filename :: "string option"
  mp_chunks :: "frame list"

record inbound_params =
  form_urlencoded :: "string \<Rightarrow> (string \<times> string) list"
  json_from_slice :: "string \<Rightarrow> string + json"
  multipart_fields :: "string \<Rightarrow> string \<Rightarrow> mp_field list \<times> string option"
  header_name :: "string \<Rightarrow> string option"
  show_ip :: "ip_addr \<Rightarrow> string"
  referer_origin :: "string \<Rightarrow> string option"
  show_usize :: "nat \<Rightarrow> string"
  show_reason :: "reason \<Rightarrow> string"
  show_chain :: "ruuter_error \<Rightarrow> string"
  ws_handshake :: "request \<Rightarrow> reply + header_map"
  utf8_ok :: "string \<Rightarrow> bool"

record router_config =
  allowed_method_types :: "string list"
  incoming_headers :: "string hmap"
  multipart_max_parts :: "nat option"
  multipart_max_part_size :: "nat option"
  csrf_allowed_origins :: "string list"
  csrf_enforce_on_methods :: "string list"
  require_if_match :: bool
  if_match_enforce_on_methods :: "string list"
  default_internal :: bool
  trusted_proxies :: "string list"
  default_wrapper :: bool
  dsl_with_response_status :: "u16 option"
  dsl_without_response_status :: "u16 option"
  response_default_headers :: "string hmap"

record router =
  rt_engine :: engine
  rt_config :: router_config
  rt_proxy :: proxy_params
  rt_inbound :: inbound_params

section \<open>Replies\<close>

definition json_error :: "u16 \<Rightarrow> string \<Rightarrow> reply" where
  "json_error status msg = json_reply status (json_object [(''error'', JString msg)])"

definition text_reply :: "u16 \<Rightarrow> string \<Rightarrow> reply" where
  "text_reply status t = \<lparr>rp_status = status, rp_headers = [(''content-type'', ''text/plain; charset=utf-8'')],
     rp_body = ReplyText t\<rparr>"

text \<open>\<open>StatusCode::from_u16(s).unwrap_or(d)\<close>: three-digit codes only.\<close>

definition status_or :: "u16 \<Rightarrow> u16 \<Rightarrow> u16" where
  "status_or s d = (if 100 \<le> s \<and> s \<le> 999 then s else d)"

text \<open>\<open>if let (Ok(name), Ok(value)) = (try_from(k), try_from(v)) { headers.insert(name, value) }\<close>.\<close>

fun insert_valid :: "router \<Rightarrow> (string \<times> string) list \<Rightarrow> header_map \<Rightarrow> header_map" where
  "insert_valid R [] h = h"
| "insert_valid R ((k, v) # rest) h =
     (case header_name (rt_inbound R) k of
        Some n \<Rightarrow> if header_value_ok (rt_proxy R) v then insert_valid R rest (hdr_insert n v h)
          else insert_valid R rest h
      | None \<Rightarrow> insert_valid R rest h)"

definition build_guard_short_circuit :: "router \<Rightarrow> dsl_execution_result \<Rightarrow> reply" where
  "build_guard_short_circuit R res =
     (let r = json_reply (status_or (er_status res) 403) (opt_or (er_value res) (JObject []))
      in r\<lparr>rp_headers := insert_valid R (er_headers res) (rp_headers r)\<rparr>)"

fun apply_default_response_headers :: "router \<Rightarrow> string hmap \<Rightarrow> header_map \<Rightarrow> header_map" where
  "apply_default_response_headers R [] h = h"
| "apply_default_response_headers R ((k, v) # rest) h =
     (case header_name (rt_inbound R) k of
        None \<Rightarrow> apply_default_response_headers R rest h
      | Some n \<Rightarrow>
          if hdr_contains h n then apply_default_response_headers R rest h
          else if header_value_ok (rt_proxy R) v then apply_default_response_headers R rest (hdr_insert n v h)
          else apply_default_response_headers R rest h)"

section \<open>Reading the request\<close>

definition MAX_INBOUND_BODY_BYTES :: nat where
  "MAX_INBOUND_BODY_BYTES = 16 * 1024 * 1024"

fun collect_map :: "(string \<times> 'v) list \<Rightarrow> 'v hmap \<Rightarrow> 'v hmap" where
  "collect_map [] m = m"
| "collect_map ((k, v) # rest) m = collect_map rest (hm_insert k v m)"

definition hdr_text :: "router \<Rightarrow> header_map \<Rightarrow> string \<Rightarrow> string option" where
  "hdr_text R h n = Option.bind (hdr_get h n) (header_text_of (rt_proxy R))"

definition query_map :: "router \<Rightarrow> string option \<Rightarrow> json hmap" where
  "query_map R q =
     (case q of None \<Rightarrow> []
      | Some s \<Rightarrow> map (\<lambda>(k, v). (k, JString v)) (collect_map (form_urlencoded (rt_inbound R) s) []))"

definition header_strings :: "router \<Rightarrow> header_map \<Rightarrow> string hmap" where
  "header_strings R h = collect_map (map (\<lambda>(k, v). (k, opt_or (header_text_of (rt_proxy R) v) [])) h) []"

definition request_headers_map :: "router \<Rightarrow> header_map \<Rightarrow> string hmap" where
  "request_headers_map R h =
     collect_map (map (\<lambda>(k, v). (to_ascii_lowercase k, v)) (incoming_headers (rt_config R))) (header_strings R h)"

text \<open>\<open>axum::body::to_bytes\<close> with a limit.\<close>

fun read_limited :: "nat \<Rightarrow> frame list \<Rightarrow> string \<Rightarrow> string + string" where
  "read_limited limit [] buf = Inr buf"
| "read_limited limit (f # fs) buf =
     (case f of
        Stalled \<Rightarrow> read_limited limit fs buf
      | Broken e \<Rightarrow> Inl e
      | Frame b \<Rightarrow> if limit < length buf + length b then Inl ''length limit exceeded''
          else read_limited limit fs (buf @ b))"

definition mime_of :: "string \<Rightarrow> string" where
  "mime_of content_type = trim (hd (split_on CHR '';'' content_type))"

definition ends_with :: "string \<Rightarrow> string \<Rightarrow> bool" where
  "ends_with s suf \<longleftrightarrow> length suf \<le> length s \<and> drop (length s - length suf) s = suf"

definition looks_json :: "string \<Rightarrow> bool" where
  "looks_json content_type \<longleftrightarrow>
     (let mime = mime_of content_type
      in eq_ignore_ascii_case mime ''application/json'' \<or> ends_with mime ''+json'')"

datatype multipart_error = TooManyParts nat | PartTooLarge nat | MultipartParse string

text \<open>One part, chunk by chunk, with the size check after each chunk.\<close>

fun read_part :: "nat option \<Rightarrow> frame list \<Rightarrow> string \<Rightarrow> multipart_error + string" where
  "read_part psize [] bytes = Inr bytes"
| "read_part psize (f # fs) bytes =
     (case f of
        Stalled \<Rightarrow> read_part psize fs bytes
      | Broken e \<Rightarrow> Inl (MultipartParse e)
      | Frame b \<Rightarrow>
          (let bytes' = bytes @ b in
           case psize of
             Some n \<Rightarrow> if n < length bytes' then Inl (PartTooLarge n) else read_part psize fs bytes'
           | None \<Rightarrow> read_part psize fs bytes'))"

fun parse_multipart_body ::
  "(string \<Rightarrow> string) \<Rightarrow> mp_field list \<Rightarrow> string option \<Rightarrow> nat option \<Rightarrow> nat option \<Rightarrow> nat \<Rightarrow> json hmap \<Rightarrow>
   multipart_error + json hmap" where
  "parse_multipart_body lossy [] err max_parts psize part_count out =
     (case err of Some e \<Rightarrow> Inl (MultipartParse e) | None \<Rightarrow> Inr out)"
| "parse_multipart_body lossy (fld # flds) err max_parts psize part_count out =
     (if (case max_parts of Some cap \<Rightarrow> cap < Suc part_count | None \<Rightarrow> False)
      then Inl (TooManyParts (opt_or max_parts 0))
      else case read_part psize (mp_chunks fld) [] of
        Inl e \<Rightarrow> Inl e
      | Inr bytes \<Rightarrow>
          (let key = opt_or (case mp_name fld of Some n \<Rightarrow> Some n | None \<Rightarrow> mp_filename fld) ''part''
           in parse_multipart_body lossy flds err max_parts psize (Suc part_count)
                (hm_insert key (JString (lossy bytes)) out)))"

definition multipart_reply :: "router \<Rightarrow> multipart_error \<Rightarrow> reply" where
  "multipart_reply R e =
     (case e of
        TooManyParts limit \<Rightarrow> json_reply 413 (json_object
          [(''error'', JString ''multipart_too_many_parts''), (''limit'', json_usize limit)])
      | PartTooLarge limit \<Rightarrow> json_reply 413 (json_object
          [(''error'', JString ''multipart_part_too_large''), (''limit'', json_usize limit)])
      | MultipartParse msg \<Rightarrow> json_error 400 (''multipart parse: '' @ msg))"

definition multipart_boundary :: "string \<Rightarrow> string option" where
  "multipart_boundary content_type =
     map_option (trim_char CHR 0x22)
       (case List.map_filter (\<lambda>part. strip_prefix ''boundary='' (trim part)) (split_on CHR '';'' content_type) of
          [] \<Rightarrow> None | b # _ \<Rightarrow> Some b)"

text \<open>The body map of the request, by content type; \<open>Inl\<close> is an early reply.\<close>

definition decode_body :: "router \<Rightarrow> string \<Rightarrow> string \<Rightarrow> reply + json hmap" where
  "decode_body R content_type body =
     (let mime = mime_of content_type; I = rt_inbound R; cfg = rt_config R;
          lossy = utf8_lossy (net (rt_engine R)) in
      if body = [] then Inr []
      else if looks_json content_type then
        (case json_from_slice I body of
           Inr (JObject m) \<Rightarrow> Inr m
         | Inr other \<Rightarrow> Inr [(''value'', other)]
         | Inl e \<Rightarrow> Inl (json_error 400 (''invalid JSON body: '' @ e)))
      else if eq_ignore_ascii_case mime ''application/x-www-form-urlencoded'' then
        Inr (collect_map (map (\<lambda>(k, v). (k, JString v)) (form_urlencoded I body)) [])
      else if eq_ignore_ascii_case mime ''multipart/form-data'' then
        (case multipart_boundary content_type of
           None \<Rightarrow> Inl (json_error 400 ''multipart/form-data missing boundary'')
         | Some boundary \<Rightarrow>
             (case multipart_fields I body boundary of (flds, err) \<Rightarrow>
                (case parse_multipart_body lossy flds err (multipart_max_parts cfg)
                        (multipart_max_part_size cfg) 0 [] of
                   Inl e \<Rightarrow> Inl (multipart_reply R e)
                 | Inr m \<Rightarrow> Inr m)))
      else case strip_prefix ''text/'' mime of
        Some subtype \<Rightarrow> Inr [(subtype, JString (lossy body))]
      | None \<Rightarrow> Inr [])"

section \<open>Guard loops that answer with a reply\<close>

text \<open>
  The loops in front of a proxied route and of a WebSocket upgrade have one shape: an optional
  precondition, the guard's key on the stack, the run, and a reply for each way to be refused.
\<close>

record refusals =
  on_unmet :: "ruuter_error \<Rightarrow> reply"
  on_nested :: "ruuter_error \<Rightarrow> reply"
  on_failing :: "ruuter_error \<Rightarrow> reply"
  on_denied :: "dsl_execution_result \<Rightarrow> reply"

fun guard_loop ::
  "refusals \<Rightarrow> (dsl \<Rightarrow> execution_context \<Rightarrow> unit result) \<Rightarrow> runner \<Rightarrow> (string \<times> dsl) list \<Rightarrow>
   execution_context \<Rightarrow> world \<Rightarrow> (reply option \<times> world) option" where
  "guard_loop F checks run [] c w = Some (None, w)"
| "guard_loop F checks run ((guard_key, guard) # rest) c w =
     (case checks guard c of
        Inl e \<Rightarrow> Some (Some (on_unmet F e), w)
      | Inr _ \<Rightarrow>
          (case push_guard guard_key c of
             Inl e \<Rightarrow> Some (Some (on_nested F e), w)
           | Inr c1 \<Rightarrow>
               (case run guard c1 w of
                  None \<Rightarrow> None
                | Some (Inl e, c2, w2) \<Rightarrow> Some (Some (on_failing F e), w2)
                | Some (Inr res, c2, w2) \<Rightarrow>
                    if 400 \<le> er_status res then Some (Some (on_denied F res), w2)
                    else guard_loop F checks run rest (pop_guard c2) w2)))"

text \<open>What each verdict looks like to the client.\<close>

definition refusal_of :: "refusals \<Rightarrow> verdict \<Rightarrow> reply option \<Rightarrow> bool" where
  "refusal_of F v out =
     (case v of
        Passed \<Rightarrow> out = None
      | Denied res \<Rightarrow> out = Some (on_denied F res)
      | Failed e \<Rightarrow> out \<in> {Some (on_unmet F e), Some (on_nested F e), Some (on_failing F e)})"

lemma guard_loop_Cons:
  assumes "guard_loop F checks run ((k, g) # gs) c w = Some (out, w')"
  obtains (unmet) e where "checks g c = Inl e" "out = Some (on_unmet F e)" "w' = w"
  | (nested) e where "checks g c = Inr ()" "push_guard k c = Inl e" "out = Some (on_nested F e)" "w' = w"
  | (failing) c1 e c2 where "checks g c = Inr ()" "push_guard k c = Inr c1" "run g c1 w = Some (Inl e, c2, w')"
      "out = Some (on_failing F e)"
  | (deny) c1 res c2 where "checks g c = Inr ()" "push_guard k c = Inr c1" "run g c1 w = Some (Inr res, c2, w')"
      "400 \<le> er_status res" "out = Some (on_denied F res)"
  | (pass) c1 res c2 w2 where "checks g c = Inr ()" "push_guard k c = Inr c1" "run g c1 w = Some (Inr res, c2, w2)"
      "er_status res < 400" "guard_loop F checks run gs (pop_guard c2) w2 = Some (out, w')"
  using assms
  by (auto simp: not_le[symmetric] split: sum.splits option.splits if_splits)

lemma guard_loop_refines:
  "guard_loop F checks run gs c w = Some (out, w') \<Longrightarrow>
   \<exists>v c'. guard_chain checks (\<lambda>_ _. False) run gs c w v c' w' \<and> refusal_of F v out"
proof (induction gs arbitrary: c w)
  case Nil
  then show ?case by (auto simp: refusal_of_def intro!: exI[of _ Passed] guard_chain.exhausted)
next
  case (Cons kg gs)
  obtain k g where kg: "kg = (k, g)" by (cases kg)
  from Cons.prems[unfolded kg] show ?case
  proof (cases rule: guard_loop_Cons)
    case unmet
    then show ?thesis unfolding kg by (auto simp: refusal_of_def intro!: exI[of _ "Failed _"] guard_chain.unmet)
  next
    case nested
    then show ?thesis unfolding kg by (auto simp: refusal_of_def intro!: exI[of _ "Failed _"] guard_chain.nested)
  next
    case failing
    then show ?thesis unfolding kg by (fastforce simp: refusal_of_def intro!: exI[of _ "Failed _"] intro: guard_chain.failing)
  next
    case deny
    then show ?thesis unfolding kg by (fastforce simp: refusal_of_def intro!: exI[of _ "Denied _"] intro: guard_chain.deny)
  next
    case pass
    from Cons.IH[OF pass(5)] pass show ?thesis unfolding kg by (blast intro: guard_chain.pass)
  qed
qed

section \<open>A concrete router\<close>

definition sample_inbound :: inbound_params where
  "sample_inbound = \<lparr>form_urlencoded = \<lambda>_. [], json_from_slice = \<lambda>_. Inl ''no JSON'',
     multipart_fields = \<lambda>_ _. ([], None), header_name = \<lambda>n. Some (to_ascii_lowercase n), show_ip = \<lambda>_. ''ip'',
     referer_origin = \<lambda>_. None, show_usize = \<lambda>_. ''n'', show_reason = \<lambda>_. ''reason'', show_chain = \<lambda>_. [],
     ws_handshake = \<lambda>_. Inr [], utf8_ok = \<lambda>_. True\<rparr>"

definition sample_config :: router_config where
  "sample_config = \<lparr>allowed_method_types = [''GET'', ''POST''], incoming_headers = [], multipart_max_parts = None,
     multipart_max_part_size = None, csrf_allowed_origins = [], csrf_enforce_on_methods = [],
     require_if_match = False, if_match_enforce_on_methods = [], default_internal = False,
     trusted_proxies = [], default_wrapper = True, dsl_with_response_status = None,
     dsl_without_response_status = None, response_default_headers = []\<rparr>"

definition sample_router :: router where
  "sample_router = \<lparr>rt_engine = sample_engine, rt_config = sample_config, rt_proxy = sample_proxy,
     rt_inbound = sample_inbound\<rparr>"

definition request_to :: "string \<Rightarrow> string \<Rightarrow> request" where
  "request_to meth path = \<lparr>in_method = meth, in_path = path, in_query = None, in_headers = [],
     in_peer = None, in_frames = []\<rparr>"

lemma sample_router_fields [simp]:
  "rt_engine sample_router = sample_engine" "rt_config sample_router = sample_config"
  "rt_proxy sample_router = sample_proxy" "rt_inbound sample_router = sample_inbound"
  by (simp_all add: sample_router_def)

end
