(* ===== verification/Engine_Frames.thy ===== *)
theory Engine_Frames
  imports Sample_System "HOL-Library.Sublist"
begin

text \<open>
  What every step and every run leaves alone. The locale \<open>world_relation\<close> takes a relation between
  worlds, indexed by the project a computation runs under, which every primitive operation on the
  world respects; its lemmas show that every step executor and every run respects it and hands its
  context back with the same request view, project, connection, trace and guard stack. It is
  interpreted for the well-formedness of all stores, for the isolation of projects in the state
  store, and for what no step can do (open or close a connection, rewrite the log of calls, change
  the loaded DSLs without a reload handler).
\<close>

section \<open>Computations that respect a relation\<close>

definition keeps :: "(string \<Rightarrow> world \<Rightarrow> world \<Rightarrow> bool) \<Rightarrow> string \<Rightarrow> 'a comp \<Rightarrow> bool" where
  "keeps R p m \<longleftrightarrow> (\<forall>c w r c' w'. ctx_project c = p \<longrightarrow> m c w = Some (r, c', w') \<longrightarrow>
     same_frame c c' \<and> R p w w')"

definition keeps_runner :: "(string \<Rightarrow> world \<Rightarrow> world \<Rightarrow> bool) \<Rightarrow> runner \<Rightarrow> bool" where
  "keeps_runner R run \<longleftrightarrow> (\<forall>p d. keeps R p (run d))"

lemma keepsI:
  "(\<And>c w r c' w'. ctx_project c = p \<Longrightarrow> m c w = Some (r, c', w') \<Longrightarrow> same_frame c c' \<and> R p w w') \<Longrightarrow>
   keeps R p m"
  unfolding keeps_def by blast

lemma keepsD:
  "keeps R p m \<Longrightarrow> ctx_project c = p \<Longrightarrow> m c w = Some (r, c', w') \<Longrightarrow> same_frame c c' \<and> R p w w'"
  unfolding keeps_def by blast

lemma keeps_runnerD: "keeps_runner R run \<Longrightarrow> keeps R p (run d)"
  unfolding keeps_runner_def by blast

lemma keeps_if:
  "(b \<Longrightarrow> keeps R p m) \<Longrightarrow> (\<not> b \<Longrightarrow> keeps R p n) \<Longrightarrow> keeps R p (if b then m else n)"
  by simp

lemma keeps_option:
  "(x = None \<Longrightarrow> keeps R p m) \<Longrightarrow> (\<And>y. x = Some y \<Longrightarrow> keeps R p (f y)) \<Longrightarrow>
   keeps R p (case x of None \<Rightarrow> m | Some y \<Rightarrow> f y)"
  by (cases x) simp_all

lemma keeps_sum:
  "(\<And>a. x = Inl a \<Longrightarrow> keeps R p (f a)) \<Longrightarrow> (\<And>b. x = Inr b \<Longrightarrow> keeps R p (g b)) \<Longrightarrow>
   keeps R p (case x of Inl a \<Rightarrow> f a | Inr b \<Rightarrow> g b)"
  by (cases x) simp_all

lemma keeps_prod: "(\<And>a b. keeps R p (f a b)) \<Longrightarrow> keeps R p (case x of (a, b) \<Rightarrow> f a b)"
  by (cases x) simp

lemma keeps_json:
  "keeps R p f \<Longrightarrow> (\<And>b. keeps R p (g b)) \<Longrightarrow> (\<And>n. keeps R p (h n)) \<Longrightarrow> (\<And>s. keeps R p (i s)) \<Longrightarrow>
   (\<And>l. keeps R p (j l)) \<Longrightarrow> (\<And>m. keeps R p (k m)) \<Longrightarrow>
   keeps R p (case x of JNull \<Rightarrow> f | JBool b \<Rightarrow> g b | JNumber n \<Rightarrow> h n | JString s \<Rightarrow> i s |
     JArray l \<Rightarrow> j l | JObject m \<Rightarrow> k m)"
  by (cases x) simp_all

definition crosses_projects :: "engine \<Rightarrow> bool" where
  "crosses_projects E \<longleftrightarrow> self_call_wired E \<or> default_exception_dsl E \<noteq> None"

locale world_relation =
  fixes E :: engine
    and R :: "string \<Rightarrow> world \<Rightarrow> world \<Rightarrow> bool"
  assumes reflexive: "R p w w"
    and transitive: "R p u w \<Longrightarrow> R p w w2 \<Longrightarrow> R p u w2"
    and set_law: "R p w (w\<lparr>w_state := snd (store_set (w_state w) p k v)\<rparr>)"
    and delete_law: "R p w (w\<lparr>w_state := snd (store_delete (w_state w) p k)\<rparr>)"
    and send_law: "R p w (w\<lparr>ws_reg := snd (ws_send cid v (ws_reg w))\<rparr>)"
    and broadcast_law: "R p w (w\<lparr>ws_reg := snd (broadcast_where audience v (ws_reg w))\<rparr>)"
    and tag_law: "R p w (w\<lparr>ws_reg := snd (set_tags cid es (ws_reg w))\<rparr>)"
    and claim_law: "R p w (w\<lparr>single_flight := snd (sf_claim key (single_flight w))\<rparr>)"
    and remove_law: "R p w (w\<lparr>single_flight := sf_remove key (single_flight w)\<rparr>)"
    and publish_law: "R p w (w\<lparr>published := published w @ [x]\<rparr>)"
    and wait_law: "R p w (w\<lparr>waits := Suc (waits w)\<rparr>)"
    and spawn_law: "detached w = Some d \<Longrightarrow> R p w (w\<lparr>detached := Some (snd (try_spawn t d))\<rparr>)"
    and call_law: "R p w (w\<lparr>sent := sent w @ [rq]\<rparr>)"
    and failed_reload_law: "R p w (w\<lparr>reloads := Suc (reloads w)\<rparr>)"
    and reload_law: "reload_handler E = Some load \<Longrightarrow>
      R p w (w\<lparr>reloads := Suc (reloads w), dsls := Some ds, guards := gs\<rparr>)"
    and crossing_law: "crosses_projects E \<Longrightarrow> R q u w \<Longrightarrow> R p u w"
begin

lemma keeps_pure:
  "keeps R p (ret x)" "keeps R p (raise e)" "keeps R p (lift_result s)" "keeps R p (asks f)"
  "keeps R p (get_world g)" "keeps R p (set_var k v)" "keeps R p (continue_with nx)"
  "keeps R p (invalid_step why)" "keeps R p (ws_error wy)" "keeps R p (eval_expr E' j)"
  "keeps R p (\<lambda>c w. Some (s2, c, w))"
  by (auto simp: keeps_def reflexive continue_with_def invalid_step_def ws_error_def eval_expr_def)

lemma keeps_set_var_opt: "keeps R p (set_var_opt name v)"
  unfolding set_var_opt_def by (intro keeps_option keeps_pure)

lemma keeps_bind:
  assumes "keeps R p m" "\<And>x. keeps R p (f x)"
  shows "keeps R p (bindc m f)"
proof (rule keepsI)
  fix c w r c' w'
  assume p: "ctx_project c = p" and "bindc m f c w = Some (r, c', w')"
  then consider (err) e where "m c w = Some (Inl e, c', w')"
    | (ok) x c1 w1 where "m c w = Some (Inr x, c1, w1)" "f x c1 w1 = Some (r, c', w')"
    unfolding bindc_Some by blast
  then show "same_frame c c' \<and> R p w w'"
  proof cases
    case err
    then show ?thesis using keepsD[OF assms(1) p] by blast
  next
    case ok
    then have 1: "same_frame c c1" "R p w w1" using keepsD[OF assms(1) p] by blast+
    then have "ctx_project c1 = p" using p by (simp add: same_frame_def)
    then have "same_frame c1 c'" "R p w1 w'" using keepsD[OF assms(2)] ok(2) by blast+
    then show ?thesis using 1 same_frame_trans transitive by blast
  qed
qed

text \<open>What the computation asks of its context, it may rely on.\<close>

lemma keeps_bind_asks:
  assumes "\<And>x c. ctx_project c = p \<Longrightarrow> g c = Inr x \<Longrightarrow> keeps R p (f x)"
  shows "keeps R p (bindc (asks g) f)"
  using assms by (auto simp: keeps_def bindc_Some reflexive)

lemma keeps_attempt: "keeps R p m \<Longrightarrow> keeps R p (attempt m)"
  by (auto simp: keeps_def attempt_Some)

lemma keeps_map_error: "keeps R p m \<Longrightarrow> keeps R p (map_error g m)"
  by (auto simp: keeps_def map_error_Some)

lemma keeps_on_world:
  "(\<And>c w. ctx_project c = p \<Longrightarrow> R p w (snd (f c w))) \<Longrightarrow> keeps R p (on_world f)"
  by (auto simp: keeps_def on_world_def split: prod.splits) (metis snd_conv)

lemma keeps_in_child:
  assumes "keeps R p m" "ctx_project child = p"
  shows "keeps R p (in_child child m)"
proof (rule keepsI)
  fix c w r c' w'
  assume "in_child child m c w = Some (r, c', w')"
  then obtain ch where "m (with_guard_stack_from child c) w = Some (r, ch, w')"
      "c' = c\<lparr>guard_stack := guard_stack ch\<rparr>"
    by (auto simp: in_child_def split: option.splits)
  then show "same_frame c c' \<and> R p w w'"
    using keepsD[OF assms(1), of "with_guard_stack_from child c"] assms(2)
    by (auto simp: with_guard_stack_from_def same_frame_def)
qed

lemma keeps_in_fresh:
  assumes "keeps R (ctx_project child) m" "crosses_projects E"
  shows "keeps R p (in_fresh child m)"
  using assms crossing_law unfolding keeps_def in_fresh_def by (fastforce split: option.splits)

lemma keeps_guarded:
  assumes "keeps R p m"
  shows "keeps R p (guarded k m)"
proof (rule keepsI)
  fix c w r c' w'
  assume p: "ctx_project c = p" and run: "guarded k m c w = Some (r, c', w')"
  show "same_frame c c' \<and> R p w w'"
  proof (cases "push_guard k c")
    case (Inl e)
    then show ?thesis using run by (simp add: guarded_def reflexive)
  next
    case (Inr c1)
    then obtain c2 where c2: "m c1 w = Some (r, c2, w')" "c' = pop_guard c2"
      using run by (auto simp: guarded_def split: option.splits)
    have "ctx_project c1 = p" using Inr p by (auto simp: push_guard_ok_iff)
    then have "same_frame c1 c2" "R p w w'" using keepsD[OF assms _ c2(1)] by blast+
    then show ?thesis using Inr c2(2) by (auto simp: push_guard_ok_iff same_frame_def pop_guard_def)
  qed
qed

lemmas keeps_control = keeps_bind keeps_if keeps_option keeps_sum keeps_prod keeps_json keeps_pure
  keeps_set_var_opt keeps_attempt keeps_map_error keeps_guarded

end

section \<open>Steps respect it\<close>

context world_relation
begin

lemma keeps_eval_pairs: "keeps R p (eval_pairs E' kvs out)"
  by (induction E' kvs out rule: eval_pairs.induct) (auto intro!: keeps_control)

lemma keeps_map_arg: "keeps R p (evaluate_map_arg E' arg sn an)"
  unfolding evaluate_map_arg_def by (intro keeps_control keeps_eval_pairs)

lemma keeps_eval_opt: "keeps R p (eval_opt E' v)"
  unfolding eval_opt_def by (intro keeps_control)

lemma keeps_string_arg: "keeps R p (evaluate_string_arg E' s)"
  unfolding evaluate_string_arg_def by (intro keeps_control)

lemma keeps_assign: "keeps R p (exec_assign E' s)"
proof -
  have "keeps R p (assign_loop E' kvs)" for kvs
    by (induction E' kvs rule: assign_loop.induct) (auto intro!: keeps_control)
  then show ?thesis unfolding exec_assign_def by (intro keeps_control)
qed

lemma keeps_log: "keeps R p (exec_log E' s)"
  unfolding exec_log_def by (intro keeps_control)

lemma keeps_switch: "keeps R p (exec_switch E' s)"
proof -
  have "keeps R p (switch_loop E' cs f)" for cs f
    by (induction E' cs f rule: switch_loop.induct) (auto intro!: keeps_control)
  then show ?thesis unfolding exec_switch_def by simp
qed

lemma keeps_http_mock: "keeps R p (exec_http_mock E' s)"
  unfolding exec_http_mock_def Let_def by (intro keeps_control keeps_eval_opt)

lemma keeps_state_ops:
  "keeps R p (state_set k v)" "keeps R p (state_delete k)" "keeps R p (state_get k)"
  unfolding state_set_def state_delete_def state_get_def
  by (auto intro!: keeps_on_world delete_law reflexive simp: case_prod_beta set_law)

lemma keeps_state: "keeps R p (exec_state E' s)"
  unfolding exec_state_def
  by (cases "ss_state s") (auto intro!: keeps_control keeps_state_ops keeps_string_arg)

lemma keeps_return: "keeps R p (exec_return E' s)"
proof -
  have "keeps R p (render_headers E' kvs out)" for kvs out
    by (induction E' kvs out rule: render_headers.induct) (auto intro!: keeps_control)
  then show ?thesis
    unfolding exec_return_def return_status_of_def return_header_source_def
    by (intro keeps_control keeps_eval_opt)
qed

lemma keeps_ws_ops:
  "keeps R p (registry_broadcast au v)" "keeps R p (registry_send cid v)" "keeps R p (registry_set_tags cid es)"
  unfolding registry_broadcast_def registry_send_def registry_set_tags_def
  by (auto intro!: keeps_on_world simp: case_prod_beta broadcast_law send_law tag_law)

lemma keeps_ws_send: "keeps R p (exec_ws_send E' s)"
proof -
  have "keeps R p (send_each E' ids v)" for ids v
    by (induction E' ids v rule: send_each.induct) (auto intro!: keeps_control keeps_ws_ops)
  moreover have "keeps R p (resolve_broadcast_where E' bw)" for bw
    unfolding resolve_broadcast_where_def where_operand_def Let_def by (intro keeps_control)
  ultimately show ?thesis
    unfolding exec_ws_send_def Let_def by (intro keeps_control keeps_ws_ops)
qed

lemma keeps_ws_tag: "keeps R p (exec_ws_tag E' s)"
proof -
  have "keeps R p (eval_tags E' kvs)" for kvs
    by (induction E' kvs rule: eval_tags.induct) (auto intro!: keeps_control)
  then show ?thesis unfolding exec_ws_tag_def by (intro keeps_control keeps_ws_ops)
qed

lemma keeps_detach: "keeps R p (exec_detach steps t nx)"
  unfolding exec_detach_def
  by (auto intro!: keeps_control keeps_on_world simp: reflexive split: option.splits prod.splits sum.splits)
    (metis snd_conv spawn_law)

lemma keeps_iterate: "keeps R p b \<Longrightarrow> keeps R p (exec_iterate E' ov v b col into mx nx)"
proof -
  assume b: "keeps R p b"
  have "keeps R p (iterate_loop E' v b col elems acc)" for elems acc
    by (induction elems arbitrary: acc) (auto intro!: keeps_control keeps_eval_opt b)
  then show ?thesis
    unfolding exec_iterate_def Let_def by (intro keeps_control)
qed

lemma keeps_flight_ops:
  "keeps R p (claim_flight k)" "keeps R p (remove_flight k)" "keeps R p (publish_outcome k x)"
  "keeps R p (await_outcome E' k)"
  unfolding claim_flight_def remove_flight_def publish_outcome_def await_outcome_def
  by (auto intro!: keeps_on_world remove_law publish_law wait_law simp: case_prod_beta claim_law)

lemma keeps_recv:
  "(\<And>x. keeps R p (f x)) \<Longrightarrow> keeps R p g \<Longrightarrow> keeps R p h \<Longrightarrow>
   keeps R p (case r of Received x \<Rightarrow> f x | ChannelClosed \<Rightarrow> g | RecvTimeout \<Rightarrow> h)"
  by (cases r) simp_all

lemma keeps_single_flight:
  "keeps R p b \<Longrightarrow> keeps R p (exec_single_flight E' k t b res nx)"
  unfolding exec_single_flight_def run_as_leader_def run_as_follower_def
  by (intro keeps_control keeps_string_arg keeps_flight_ops keeps_recv)

lemma keeps_trigger_reload: "keeps R p (trigger_reload E)"
  unfolding trigger_reload_def
  by (intro keeps_on_world) (auto simp: reflexive failed_reload_law reload_law split: option.splits)

end

section \<open>Runs respect it\<close>

context world_relation
begin

lemma keeps_run_guards:
  assumes "keeps_runner R run"
  shows "keeps R p (run_guards run meth gs)"
proof (induction gs)
  case (Cons g gs)
  then show ?case
    by (cases g) (auto intro!: keeps_bind keeps_if keeps_option keeps_pure keeps_guarded keeps_runnerD[OF assms])
qed (simp add: keeps_pure)

lemma guarded_run_world:
  assumes run: "keeps_runner R run" and p: "ctx_project c = p"
    and eq: "guarded_run run meth gs d tp c w = Some (r, c', w')"
  shows "R p w w'"
proof -
  have rg: "keeps R p (run_guards run meth gs)" using run by (rule keeps_run_guards)
  consider (stop) "\<exists>v. run_guards run meth gs c w = Some (v, c', w')"
    | (go) c1 w1 where "run_guards run meth gs c w = Some (Inr None, c1, w1)"
        "bindc (filter_request (dsl_declaration d) meth tp) (\<lambda>_. run d) c1 w1 = Some (r, c', w')"
    using eq unfolding guarded_run_def bindc_Some[of "run_guards run meth gs"]
    by (force split: option.splits)
  then show ?thesis
  proof cases
    case stop
    then show ?thesis using keepsD[OF rg p] by blast
  next
    case go
    have 1: "same_frame c c1" "R p w w1" using keepsD[OF rg p go(1)] by blast+
    have "R p w1 w'"
      using go(2) keepsD[OF keeps_runnerD[OF run]] 1(1) p reflexive
      by (fastforce simp: bindc_Some filter_request_def same_frame_def replace_request_view_def
          split: option.splits sum.splits prod.splits)
    then show ?thesis using 1(2) transitive by blast
  qed
qed

lemma execute_dsl_world:
  assumes "keeps_runner R run"
    and "execute_dsl E run project meth path body query headers origin w = Some (r, w')"
  shows "R project w w'"
proof -
  have "ctx_project (request_context project body query headers origin pp tp) = project" for pp tp
    by (simp add: request_context_def with_traceparent_def ctx_with_state_def)
  then show ?thesis
    using assms(2) reflexive
    by (auto simp: execute_dsl_def Let_def split: option.splits dest!: guarded_run_world[OF assms(1), rotated])
qed

lemma keeps_http_call:
  assumes "keeps_runner R run"
  shows "keeps R p (http_call E run rq)"
proof (rule keepsI)
  fix c w r c' w'
  assume eq: "http_call E run rq c w = Some (r, c', w')"
  let ?w1 = "w\<lparr>sent := sent w @ [rq]\<rparr>"
  have self: "R p u v" if "self_call_wired E" "execute_by_url E run m path q h b u = Some (x, v)"
    for m path q h b u v x
    using that execute_dsl_world[OF assms] crossing_law
    by (fastforce simp: execute_by_url_def crosses_projects_def split: prod.splits)
  have "c' = c" "R p ?w1 w'"
    using eq self reflexive
    by (auto simp: http_call_def Let_def request_with_ct_def self_call_dispatch_def
        split: option.splits if_splits prod.splits)
  then show "same_frame c c' \<and> R p w w'"
    using call_law transitive by (metis same_frame_refl)
qed

lemma keeps_exception_dsl:
  assumes "keeps_runner R run" "default_exception_dsl E = Some cfg"
  shows "keeps R p (invoke_default_exception_dsl E run cfg st b i)"
  unfolding invoke_default_exception_dsl_def Let_def
  using assms by (intro keeps_control keeps_in_fresh keeps_runnerD) (simp_all add: crosses_projects_def)

lemma keeps_http:
  assumes "keeps_runner R run"
  shows "keeps R p (exec_http E run s)"
  unfolding exec_http_def after_response_def Let_def
  by (intro keeps_control keeps_eval_opt keeps_map_arg keeps_http_call keeps_exception_dsl assms)

lemma keeps_template_guards:
  assumes "keeps_runner R run"
  shows "keeps R p (template_guards run gs)"
proof (induction gs)
  case (Cons g gs)
  then show ?case
    by (cases g) (auto intro!: keeps_bind keeps_if keeps_pure keeps_guarded keeps_runnerD[OF assms])
qed (simp add: keeps_pure)

lemma keeps_template:
  assumes "keeps_runner R run"
  shows "keeps R p (exec_template E run s)"
  unfolding exec_template_def template_call_def Let_def
  apply (intro keeps_bind_asks keeps_bind keeps_option keeps_pure keeps_map_arg keeps_set_var_opt
      keeps_in_child keeps_template_guards keeps_runnerD assms)
  by (auto simp: template_child_def Let_def ctx_with_state_def with_traceparent_def split: option.splits)

lemma keeps_parallel:
  assumes "keeps_runner R run"
  shows "keeps R p (exec_parallel_http E run s)"
proof -
  have "keeps R p (resolve_peers E a ps)" for a ps
    by (induction ps) (auto intro!: keeps_control keeps_eval_opt keeps_map_arg)
  moreover have "keeps R p (peer_calls E run meth t ct ps order)" for meth t ct ps order
    by (induction order) (auto simp: Let_def intro!: keeps_control keeps_http_call assms)
  moreover have "keeps R p (predicate_matches E pr resp)" for pr resp
    unfolding predicate_matches_def Let_def by (intro keeps_control)
  then have "keeps R p (collect_first_n E n pr outs acc)" for n pr outs acc
  proof (induction outs arbitrary: acc)
    case (Cons out outs)
    then show ?case by (cases out) (auto intro!: keeps_bind keeps_if keeps_sum keeps_pure)
  qed (simp add: keeps_pure)
  ultimately show ?thesis
    unfolding exec_parallel_http_def Let_def
    by (cases "ph_aggregate (ph_body s)") (auto intro!: keeps_control)
qed

lemma keeps_step:
  "keeps_runner R run \<Longrightarrow> E' = E \<Longrightarrow> keeps R p (exec_step E' run s)"
  "keeps_runner R run \<Longrightarrow> E' = E \<Longrightarrow> keeps R p (exec_body E' run ss)"
  by (induction E' run s and E' run ss rule: exec_step_exec_body.induct)
    (auto intro!: keeps_assign keeps_return keeps_http keeps_http_mock keeps_switch keeps_log
      keeps_template keeps_state keeps_iterate keeps_parallel keeps_detach keeps_ws_send keeps_ws_tag
      keeps_single_flight keeps_bind keeps_if keeps_pure)

lemma keeps_run_loop:
  assumes "keeps_runner R run"
  shows "keeps R p (run_loop E run d budget i rec)"
  by (induction budget arbitrary: i rec)
    (auto simp: run_loop.simps Let_def run_step_def
      intro!: keeps_pure keeps_bind keeps_if keeps_option keeps_map_error keeps_trigger_reload
        keeps_step(1)[OF assms refl])

lemma keeps_engine_run: "keeps_runner R (engine_run n E)"
  by (induction n) (auto simp: keeps_runner_def run_with_def keeps_run_loop intro: keepsI)

lemma run_keeps:
  assumes "engine_run n E d c w = Some (r, c', w')"
  shows "same_frame c c'" "R (ctx_project c) w w'"
  using keepsD[OF keeps_runnerD[OF keeps_engine_run] refl assms] by blast+

lemma request_keeps:
  assumes "execute_dsl E (engine_run n E) project meth path body query headers origin w = Some (r, w')"
  shows "R project w w'"
  using execute_dsl_world[OF keeps_engine_run assms] .

end

section \<open>Interpretations\<close>

text \<open>Every store of the world is well-formed: keys are unique and no bound is exceeded.\<close>

definition world_wf :: "world \<Rightarrow> bool" where
  "world_wf w \<longleftrightarrow> wf_store (w_state w) \<and> ws_wf (ws_reg w) \<and> sf_wf (single_flight w) \<and>
     (case detached w of None \<Rightarrow> True | Some d \<Rightarrow> detach_wf d)"

interpretation wfl: world_relation E "\<lambda>p w w'. world_wf w \<longrightarrow> world_wf w'" for E
  by unfold_locales
    (auto simp: world_wf_def wf_store_set wf_store_delete ws_wf_send ws_wf_broadcast ws_wf_set_tags
      sf_claim_wf sf_remove_wf try_spawn_wf split: option.splits)

text \<open>The other projects see the same state store, as long as the engine does not cross projects.\<close>

definition same_other_projects :: "engine \<Rightarrow> string \<Rightarrow> world \<Rightarrow> world \<Rightarrow> bool" where
  "same_other_projects E p w w' \<longleftrightarrow> crosses_projects E \<or>
     (\<forall>q. q \<noteq> p \<longrightarrow> project_view (w_state w') q = project_view (w_state w) q)"

interpretation iso: world_relation E "same_other_projects E" for E
  by unfold_locales
    (auto simp: same_other_projects_def set_view_other[OF not_sym] delete_view_other[OF not_sym])

text \<open>
  What no step can do: open or close a connection, take a call back from the log, change a
  configured bound, or replace the DSL tree when no reload handler is set.
\<close>

definition world_stable :: "engine \<Rightarrow> world \<Rightarrow> world \<Rightarrow> bool" where
  "world_stable E w w' \<longleftrightarrow>
     ws_ids (ws_reg w') = ws_ids (ws_reg w) \<and> prefix (sent w) (sent w') \<and>
     max_entries_per_project (w_state w') = max_entries_per_project (w_state w) \<and>
     map_option dr_cap (detached w') = map_option dr_cap (detached w) \<and>
     (reload_handler E = None \<longrightarrow> dsls w' = dsls w \<and> guards w' = guards w)"

lemma hm_insert_keys: "map_of m k = Some x \<Longrightarrow> map fst (hm_insert k v m) = map fst m"
  by (induction m) (auto split: if_splits)

lemma ws_ids_ops:
  "ws_ids (snd (ws_send cid v reg)) = ws_ids reg"
  "ws_ids (snd (broadcast_where p v reg)) = ws_ids reg"
  "ws_ids (snd (set_tags cid es reg)) = ws_ids reg"
  by (auto simp: ws_ids_def ws_send_def set_tags_def broadcast_keys hm_insert_keys
      split: option.splits sum.splits try_send_error.splits)

lemma store_set_cap: "max_entries_per_project (snd (store_set s p k v)) = max_entries_per_project s"
  by (metis store_step.simps(1) store_step_cap)

lemma try_spawn_cap: "dr_cap (snd (try_spawn t d)) = dr_cap d"
  by (simp add: try_spawn_def)

interpretation stb: world_relation E "\<lambda>_. world_stable E" for E
  by unfold_locales
    (auto simp: world_stable_def ws_ids_ops store_set_cap try_spawn_cap)

section \<open>Properties\<close>

text \<open>
  C9. Whatever DSL runs, however the run ends: the context comes back with the request view, the
  project, the connection, the trace and the guard stack it had (every guard pushed during the run
  has been popped, on the error paths too).
\<close>

theorem run_restores_context:
  assumes "engine_run n E d c w = Some (r, c', w')"
  shows "same_frame c c'"
  using stb.run_keeps(1)[OF assms] .

theorem run_restores_context_witness:
  "engine_run 1 sample_engine store_dsl sample_ctx sample_world =
     Some (Inr stored_result, sample_ctx, sample_world\<lparr>w_state := store_after\<rparr>) \<and>
   same_frame sample_ctx sample_ctx"
proof -
  have "engine_run 1 sample_engine store_dsl sample_ctx sample_world =
      Some (Inr stored_result, sample_ctx, sample_world\<lparr>w_state := store_after\<rparr>)"
    by simp
  then show ?thesis using run_restores_context by blast
qed

text \<open>
  A request, routed through guards, declaration, templates, nested runs and self-calls, keeps
  every store of the process well-formed: unique keys, the entry cap of every project, the bound
  of every outbound WebSocket queue, the bound of the single-flight registry and the cap on
  detached tasks. It holds for responses and for errors.
\<close>

theorem request_keeps_world_wf:
  assumes "world_wf w"
    and "execute_dsl E (engine_run n E) project meth path body query headers origin w = Some (r, w')"
  shows "world_wf w'"
  using wfl.request_keeps[OF assms(2)] assms(1) by blast

theorem request_keeps_world_wf_witness:
  "world_wf sample_world \<and> world_wf (sample_world\<lparr>w_state := store_after\<rparr>)"
proof -
  have wf: "world_wf sample_world"
    by (simp add: world_wf_def wf_store_def store_with_max_def current_count_def project_entries_def
        ws_wf_def sf_new_wf)
  then show ?thesis using request_keeps_world_wf[OF wf store_request[of 0]] by blast
qed

text \<open>
  Projects are isolated: with no self-call shortcut and no default exception DSL, a request to
  one project leaves what every other project can observe of the state store unchanged, whatever
  the DSLs of the project do.
\<close>

theorem request_isolates_projects:
  assumes "\<not> crosses_projects E" "q \<noteq> project"
    and "execute_dsl E (engine_run n E) project meth path body query headers origin w = Some (r, w')"
  shows "project_view (w_state w') q = project_view (w_state w) q"
  using iso.request_keeps[OF assms(3)] assms(1,2) by (simp add: same_other_projects_def)

theorem request_isolates_projects_witness:
  "\<not> crosses_projects sample_engine \<and> ''other'' \<noteq> ''demo'' \<and>
   project_view (w_state (sample_world\<lparr>w_state := store_after\<rparr>)) ''other'' = project_view (w_state sample_world) ''other''"
proof -
  have hyps: "\<not> crosses_projects sample_engine" "''other'' \<noteq> ''demo''"
    by (simp_all add: crosses_projects_def)
  show ?thesis
    by (intro conjI hyps request_isolates_projects[OF hyps store_request[of 0]])
qed

text \<open>
  A request neither opens nor closes a WebSocket connection, only ever appends to the log of
  outbound calls, changes no configured bound, and leaves the loaded DSLs and guards as they are
  when no reload handler is set.
\<close>

theorem request_world_stable:
  assumes "execute_dsl E (engine_run n E) project meth path body query headers origin w = Some (r, w')"
  shows "world_stable E w w'"
  using stb.request_keeps[OF assms] .

theorem request_world_stable_witness:
  "world_stable sample_engine sample_world (sample_world\<lparr>w_state := store_after\<rparr>)"
  using request_world_stable[OF store_request[of 0]] .

end
