(* ===== verification/Ws_Session.thy ===== *)
theory Ws_Session
  imports Inbound Engine_Frames
begin

text \<open>
  WebSocket sessions (\<open>handle_ws_upgrade\<close>, \<open>run_ws_connection\<close>, \<open>dispatch_ws_frame\<close> of
  \<open>src/router/mod.rs\<close>): the handshake with its guards, the read loop of an accepted connection and the
  DSL run of one frame.

  A session is the list of what happens on it, in order: frames that arrive, an error of the stream,
  and turns of the writer task, which takes the oldest message off the outbound queue. What other
  tasks do to the world in between is an event too (\<open>Meanwhile\<close>). The session ends at a close frame, at
  a stream error or at the end of the stream.
\<close>

datatype ws_message = WsText string | WsBinary string | WsClose | WsControl

datatype ws_event = FrameIn ws_message | StreamError | WriterTurn | Meanwhile "world \<Rightarrow> world"

datatype upgrade_outcome =
    UpgradeRefused reply
  | UpgradeAccepted string dsl "json hmap" "string hmap"

section \<open>The handshake\<close>

definition ws_refusals :: "router \<Rightarrow> refusals" where
  "ws_refusals R = \<lparr>
     on_unmet = \<lambda>e. text_reply 500 (show_error (rt_proxy R) e),
     on_nested = \<lambda>e. text_reply 500 (show_error (rt_proxy R) e),
     on_failing = \<lambda>e. json_error 500 (''WS guard error: '' @ show_error (rt_proxy R) e),
     on_denied = \<lambda>res. json_reply (status_or (er_status res) 403)
       (opt_or (er_value res) (json_object [(''error'', JString ''WS guard denied'')]))\<rparr>"

text \<open>This path checks no guard declaration, so nothing is ever unmet.\<close>

definition ws_guards ::
  "router \<Rightarrow> runner \<Rightarrow> (string \<times> dsl) list \<Rightarrow> execution_context \<Rightarrow> world \<Rightarrow> (reply option \<times> world) option" where
  "ws_guards R = guard_loop (ws_refusals R) (\<lambda>_ _. Inr ())"

definition ws_dsl :: "http_dsls \<Rightarrow> string \<Rightarrow> string \<Rightarrow> dsl option" where
  "ws_dsl snapshot project dsl_key =
     Option.bind (Option.bind (map_of snapshot project) (\<lambda>ms. map_of ms ''WS'')) (\<lambda>ds. map_of ds dsl_key)"

definition handle_ws_upgrade ::
  "router \<Rightarrow> runner \<Rightarrow> request \<Rightarrow> world \<Rightarrow> (upgrade_outcome \<times> world) option" where
  "handle_ws_upgrade R run rq w =
     (case path_segments (in_path rq) of
        [] \<Rightarrow> Some (UpgradeRefused (text_reply 404 ''Not found''), w)
      | [project] \<Rightarrow> Some (UpgradeRefused (text_reply 404 ''Not found''), w)
      | project # rest \<Rightarrow>
          (let dsl_key = ''WS/'' @ join_with ''/'' rest in
           case ws_dsl (opt_or (dsls w) []) project dsl_key of
             None \<Rightarrow> Some (UpgradeRefused (json_error 404 ''Not Found''), w)
           | Some d \<Rightarrow>
               (let query = query_map R (in_query rq); headers = header_strings R (in_headers rq);
                    guard_ctx = ctx_with_state [] query headers ''ws-upgrade'' project in
                map_option (\<lambda>(refusal, w'). (case refusal of
                    Some r \<Rightarrow> UpgradeRefused r
                  | None \<Rightarrow> UpgradeAccepted project d query headers, w'))
                  (ws_guards R run (applicable_guards_for (rt_engine R) w project dsl_key) guard_ctx w))))"

section \<open>The connection\<close>

definition parse_payload :: "router \<Rightarrow> string \<Rightarrow> json" where
  "parse_payload R t = (case json_from_slice (rt_inbound R) t of Inr v \<Rightarrow> v | Inl _ \<Rightarrow> JString t)"

definition dispatch_ws_frame ::
  "runner \<Rightarrow> string \<Rightarrow> string \<Rightarrow> json \<Rightarrow> dsl \<Rightarrow> json hmap \<Rightarrow> string hmap \<Rightarrow> world \<Rightarrow> world option" where
  "dispatch_ws_frame run project cid payload d query headers w =
     (let body = (case payload of JObject m \<Rightarrow> m | other \<Rightarrow> [(''value'', other)]);
          c = with_connection_id (ctx_with_state body query headers ''ws'' project) cid
      in map_option (\<lambda>(_, _, w'). w') (run d c w))"

text \<open>The text that a frame dispatches, if any.\<close>

definition frame_text :: "router \<Rightarrow> ws_message \<Rightarrow> string option" where
  "frame_text R f =
     (case f of
        WsText t \<Rightarrow> Some t
      | WsBinary b \<Rightarrow> if utf8_ok (rt_inbound R) b then Some b else None
      | _ \<Rightarrow> None)"

fun ws_read_loop ::
  "router \<Rightarrow> runner \<Rightarrow> string \<Rightarrow> string \<Rightarrow> dsl \<Rightarrow> json hmap \<Rightarrow> string hmap \<Rightarrow> ws_event list \<Rightarrow> world \<Rightarrow> world option" where
  "ws_read_loop R run project cid d query headers [] w = Some w"
| "ws_read_loop R run project cid d query headers (ev # evs) w =
     (case ev of
        StreamError \<Rightarrow> Some w
      | FrameIn f \<Rightarrow>
          if f = WsClose then Some w
          else (case frame_text R f of
                  None \<Rightarrow> ws_read_loop R run project cid d query headers evs w
                | Some t \<Rightarrow>
                    Option.bind (dispatch_ws_frame run project cid (parse_payload R t) d query headers w)
                      (ws_read_loop R run project cid d query headers evs))
      | WriterTurn \<Rightarrow> ws_read_loop R run project cid d query headers evs
          (w\<lparr>ws_reg := snd (writer_recv cid (ws_reg w))\<rparr>)
      | Meanwhile g \<Rightarrow> ws_read_loop R run project cid d query headers evs (g w))"

definition run_ws_connection ::
  "router \<Rightarrow> runner \<Rightarrow> string \<Rightarrow> string \<Rightarrow> dsl \<Rightarrow> json hmap \<Rightarrow> string hmap \<Rightarrow> ws_event list \<Rightarrow> world \<Rightarrow> world option" where
  "run_ws_connection R run cid project d query headers evs w =
     (let w1 = w\<lparr>ws_reg := ws_register cid (bounded_sender DEFAULT_OUTBOUND_QUEUE_CAPACITY) (ws_reg w)\<rparr>
      in map_option (\<lambda>w2. w2\<lparr>ws_reg := ws_unregister cid (ws_reg w2)\<rparr>)
           (ws_read_loop R run project cid d query headers evs w1))"

section \<open>What a session keeps\<close>

definition interference_ok :: "(world \<Rightarrow> world \<Rightarrow> bool) \<Rightarrow> ws_event list \<Rightarrow> bool" where
  "interference_ok Q evs \<longleftrightarrow> (\<forall>g w. Meanwhile g \<in> set evs \<longrightarrow> Q w (g w))"

lemma interference_Cons:
  "interference_ok Q (ev # evs) \<Longrightarrow> interference_ok Q evs"
  "interference_ok Q (Meanwhile g # evs) \<Longrightarrow> Q w (g w)"
  by (auto simp: interference_ok_def)

locale reader_relation = world_relation +
  assumes writer_law: "R p w (w\<lparr>ws_reg := snd (writer_recv cid (ws_reg w))\<rparr>)"
begin

lemma frame_keeps:
  assumes "dispatch_ws_frame (engine_run n E) p cid v d query headers w = Some w'"
  shows "R p w w'"
  using assms run_keeps(2)
  by (fastforce simp: dispatch_ws_frame_def Let_def with_connection_id_def ctx_with_state_def)

lemma read_loop_keeps:
  assumes "interference_ok (R p) evs"
    and "ws_read_loop Rt (engine_run n E) p cid d query headers evs w = Some w'"
  shows "R p w w'"
  using assms
proof (induction evs arbitrary: w)
  case Nil
  then show ?case by (simp add: reflexive)
next
  case (Cons ev evs)
  note IH = Cons.IH[OF interference_Cons(1)[OF Cons.prems(1)]]
  show ?case
  proof (cases ev)
    case (FrameIn f)
    show ?thesis
    proof (cases "f = WsClose \<or> frame_text Rt f = None")
      case True
      then show ?thesis using Cons.prems(2) FrameIn IH by (auto simp: reflexive split: if_splits)
    next
      case False
      then obtain t w1 where "frame_text Rt f = Some t"
        "dispatch_ws_frame (engine_run n E) p cid (parse_payload Rt t) d query headers w = Some w1"
        "ws_read_loop Rt (engine_run n E) p cid d query headers evs w1 = Some w'"
        using Cons.prems(2) FrameIn by (auto simp: bind_eq_Some_conv)
      then show ?thesis using frame_keeps IH transitive by blast
    qed
  next
    case StreamError
    then show ?thesis using Cons.prems(2) by (simp add: reflexive)
  next
    case WriterTurn
    then show ?thesis using Cons.prems(2) IH writer_law transitive by fastforce
  next
    case (Meanwhile g)
    then have "R p w (g w)" using Cons.prems(1) interference_Cons(2) by blast
    moreover have "R p (g w) w'" using Cons.prems(2) Meanwhile IH by simp
    ultimately show ?thesis by (rule transitive)
  qed
qed

end

locale session_relation = reader_relation +
  assumes register_law: "R p w (w\<lparr>ws_reg := ws_register cid (bounded_sender capacity) (ws_reg w)\<rparr>)"
    and unregister_law: "R p w (w\<lparr>ws_reg := ws_unregister cid (ws_reg w)\<rparr>)"
begin

lemma session_keeps:
  assumes "interference_ok (R p) evs"
    and "run_ws_connection Rt (engine_run n E) cid p d query headers evs w = Some w'"
  shows "R p w w'"
proof -
  let ?w1 = "w\<lparr>ws_reg := ws_register cid (bounded_sender DEFAULT_OUTBOUND_QUEUE_CAPACITY) (ws_reg w)\<rparr>"
  obtain w2 where "ws_read_loop Rt (engine_run n E) p cid d query headers evs ?w1 = Some w2"
    and w': "w' = w2\<lparr>ws_reg := ws_unregister cid (ws_reg w2)\<rparr>"
    using assms(2) by (auto simp: run_ws_connection_def Let_def)
  from this(1) have "R p ?w1 w2" by (rule read_loop_keeps[OF assms(1)])
  then have "R p w w2" using register_law transitive by blast
  moreover have "R p w2 w'" unfolding w' by (rule unregister_law)
  ultimately show ?thesis by (rule transitive)
qed

end

interpretation wfs: session_relation E "\<lambda>p w w'. world_wf w \<longrightarrow> world_wf w'" for E
  by unfold_locales
    (auto simp: world_wf_def ws_wf_recv ws_wf_register ws_wf_unregister bounded_sender_def)

interpretation isos: session_relation E "same_other_projects E" for E
  by unfold_locales (auto simp: same_other_projects_def)

lemma writer_recv_ids: "ws_ids (snd (writer_recv cid reg)) = ws_ids reg"
  by (auto simp: ws_ids_def writer_recv_def hm_insert_keys split: option.splits list.splits)

interpretation stbr: reader_relation E "\<lambda>_. world_stable E" for E
  by unfold_locales (simp add: world_stable_def writer_recv_ids)

lemma register_unregister_ids:
  assumes "cid \<notin> set (ws_ids reg)" "ws_ids reg2 = ws_ids (ws_register cid s reg)"
  shows "ws_ids (ws_unregister cid reg2) = ws_ids reg"
proof -
  have remove: "map fst (hm_remove cid m) = filter (\<lambda>k. k \<noteq> cid) (map fst m)" for m :: ws_registry
    by (induction m) auto
  have insert: "cid \<notin> fst ` set m \<Longrightarrow> map fst (hm_insert cid v m) = map fst m @ [cid]" for v and m :: ws_registry
    by (induction m) auto
  have "filter (\<lambda>k. k \<noteq> cid) (map fst reg) = map fst reg"
    using assms(1) by (auto simp: ws_ids_def filter_id_conv)
  then show ?thesis
    using assms unfolding ws_ids_def ws_unregister_def ws_register_def remove by (simp add: insert)
qed

section \<open>Frames in order\<close>

definition ends_session :: "ws_event \<Rightarrow> bool" where
  "ends_session ev \<longleftrightarrow> ev = StreamError \<or> ev = FrameIn WsClose"

lemma read_loop_append:
  "\<not> list_ex ends_session evs \<Longrightarrow>
   ws_read_loop R run p cid d query headers (evs @ rest) w =
     Option.bind (ws_read_loop R run p cid d query headers evs w) (ws_read_loop R run p cid d query headers rest)"
  by (induction evs arbitrary: w)
    (auto simp: ends_session_def split: ws_event.splits option.splits bind_splits)

lemma read_loop_end:
  "ends_session ev \<Longrightarrow> ws_read_loop R run p cid d query headers (ev # rest) w = Some w"
  by (auto simp: ends_session_def)

section \<open>Properties\<close>



text \<open>
  Frames are served in order, and no outcome of a frame ends the session: after any prefix of
  events that holds no close frame and no stream error, a text frame, or a binary one that is
  UTF-8, runs the DSL once, on the world as the prefix left it, with the payload as its body and the
  connection id in its context; whether that run returns or errs, the session goes on with the next
  event. At a close frame it stops and what follows is not read.
\<close>

theorem ws_frames_served:
  assumes "\<not> list_ex ends_session evs"
    and "ws_read_loop R run project cid d query headers evs w = Some w1"
    and "frame_text R f = Some t"
    and "body = (case parse_payload R t of JObject m \<Rightarrow> m | other \<Rightarrow> [(''value'', other)])"
    and "run d (with_connection_id (ctx_with_state body query headers ''ws'' project) cid) w1 = Some (r, c2, w2)"
  shows "ws_read_loop R run project cid d query headers (evs @ FrameIn f # rest) w =
      ws_read_loop R run project cid d query headers rest w2 \<and>
    ws_read_loop R run project cid d query headers (evs @ FrameIn WsClose # rest) w = Some w1"
proof -
  have "f \<noteq> WsClose" using assms(3) by (auto simp: frame_text_def)
  moreover have "dispatch_ws_frame run project cid (parse_payload R t) d query headers w1 = Some w2"
    using assms(4,5) by (simp add: dispatch_ws_frame_def)
  ultimately show ?thesis
    using assms(2,3) by (simp add: read_loop_append[OF assms(1)])
qed

theorem ws_frames_served_witness:
  "ws_read_loop sample_router (engine_run 1 sample_engine) ''demo'' ''client:a'' store_dsl [] []
      ([WriterTurn] @ FrameIn (WsText ''x'') # [FrameIn WsControl]) sample_world =
     Some (sample_world\<lparr>w_state := store_after\<rparr>)"
proof -
  let ?run = "engine_run 1 sample_engine"
  have 1: "\<not> list_ex ends_session [WriterTurn]" by (simp add: ends_session_def)
  have 2: "ws_read_loop sample_router ?run ''demo'' ''client:a'' store_dsl [] [] [WriterTurn] sample_world = Some sample_world"
    by (simp add: writer_recv_def)
  have 3: "frame_text sample_router (WsText ''x'') = Some ''x''" by (simp add: frame_text_def)
  have 4: "[(''value'', JString ''x'')] = (case parse_payload sample_router ''x'' of JObject m \<Rightarrow> m | other \<Rightarrow> [(''value'', other)])"
    by (simp add: parse_payload_def sample_inbound_def)
  have 5: "?run store_dsl (with_connection_id (ctx_with_state [(''value'', JString ''x'')] [] [] ''ws'' ''demo'') ''client:a'')
      sample_world = Some (Inr stored_result, with_connection_id (ctx_with_state [(''value'', JString ''x'')] [] [] ''ws'' ''demo'') ''client:a'',
        sample_world\<lparr>w_state := store_after\<rparr>)"
    by (simp add: with_connection_id_def ctx_with_state_def)
  show ?thesis
    using ws_frames_served[OF 1 2 3 4 5, of "[FrameIn WsControl]", THEN conjunct1] by (simp add: frame_text_def)
qed


definition ws_world :: world where
  "ws_world = sample_world\<lparr>dsls := Some [(''demo'', [(''WS'', [(''WS/admin/chat'', store_dsl)])])],
     guards := [(''demo'', [(''WS/admin'', deny_guard)])]\<rparr>"

lemma ws_world_facts:
  "path_segments ''/demo/admin/chat'' = [''demo'', ''admin'', ''chat'']"
  "''WS/'' @ join_with ''/'' [''admin'', ''chat''] = ''WS/admin/chat''"
  "ws_dsl (opt_or (dsls ws_world) []) ''demo'' ''WS/admin/chat'' = Some store_dsl"
  "applicable_guards_for sample_engine ws_world ''demo'' ''WS/admin/chat'' = [(''WS/admin'', deny_guard)]"
  by code_simp+


end
