(* ===== verification/Request_Handler.thy ===== *)
theory Request_Handler
  imports Ws_Session
begin

text \<open>
  The HTTP entry point of the router (\<open>handle_request\<close> and \<open>handle_request_inner\<close> of
  \<open>src/router/mod.rs\<close>): WebSocket upgrades, the admission checks, the dispatch of proxied routes, the
  gate in front of internal DSLs, the body limits, the run of the DSL and the reply.

  The access log and the tracing span are left out. A reply that streams an upstream body still
  holds the permit of its route (\<open>Answered\<close> names it). Early replies carry no trace headers, as in
  the source.
\<close>

datatype handled =
    Answered reply "string option"
  | Upgraded header_map string dsl "json hmap" "string hmap"

section \<open>Admission\<close>

definition method_listed :: "string list \<Rightarrow> string \<Rightarrow> bool" where
  "method_listed ms meth \<longleftrightarrow> list_ex (\<lambda>m. eq_ignore_ascii_case m meth) ms"

definition csrf_headers :: "router \<Rightarrow> header_map \<Rightarrow> string hmap" where
  "csrf_headers R h =
     List.map_filter (\<lambda>n. map_option (Pair n) (hdr_text R h n)) [''origin'', ''referer'']"

definition admission :: "router \<Rightarrow> request \<Rightarrow> reply option" where
  "admission R rq =
     (let cfg = rt_config R; meth = in_method rq in
      if \<not> method_listed (allowed_method_types cfg) meth then Some (json_error 405 ''Method Not Allowed'')
      else if csrf_allowed_origins cfg \<noteq> [] \<and> method_listed (csrf_enforce_on_methods cfg) meth \<and>
        \<not> origin_allowed (referer_origin (rt_inbound R)) (csrf_headers R (in_headers rq)) (csrf_allowed_origins cfg)
      then Some (json_error 403 ''CSRF: origin not allowed'')
      else if require_if_match cfg \<and> method_listed (if_match_enforce_on_methods cfg) meth \<and>
        \<not> hdr_contains (in_headers rq) ''if-match''
      then Some (json_error 428 ''If-Match header is required for this method'')
      else None)"

definition is_ws_upgrade :: "router \<Rightarrow> request \<Rightarrow> bool" where
  "is_ws_upgrade R rq \<longleftrightarrow>
     (case hdr_text R (in_headers rq) ''upgrade'' of
        Some s \<Rightarrow> eq_ignore_ascii_case s ''websocket'' | None \<Rightarrow> False) \<and> in_method rq = ''GET''"

section \<open>Proxied routes\<close>

definition proxy_refusals :: "router \<Rightarrow> refusals" where
  "proxy_refusals R = \<lparr>
     on_unmet = \<lambda>e. json_error 400 (show_error (rt_proxy R) e),
     on_nested = \<lambda>e. json_error 500 (show_error (rt_proxy R) e),
     on_failing = \<lambda>_. json_error 500 ''guard execution failed'',
     on_denied = build_guard_short_circuit R\<rparr>"

definition proxy_guards ::
  "router \<Rightarrow> runner \<Rightarrow> string \<Rightarrow> (string \<times> dsl) list \<Rightarrow> execution_context \<Rightarrow> world \<Rightarrow> (reply option \<times> world) option" where
  "proxy_guards R run meth = guard_loop (proxy_refusals R) (declaration_holds meth) run"

definition proxy_target ::
  "world \<Rightarrow> string \<Rightarrow> string \<Rightarrow> string \<Rightarrow> (proxy_declaration \<times> string \<times> string list) option" where
  "proxy_target w project upper_method endpoint_path =
     (case resolve_dsl_with_path_params (opt_or (dsls w) []) project upper_method endpoint_path of
        None \<Rightarrow> None
      | Some (d, matched_key, path_params) \<Rightarrow>
          map_option (\<lambda>p. (p, matched_key, path_params)) (Option.bind (dsl_declaration d) proxy))"

definition request_traceparent :: "router \<Rightarrow> request \<Rightarrow> world \<Rightarrow> string" where
  "request_traceparent R rq w =
     opt_or (map_of (request_headers_map R (in_headers rq)) ''traceparent'')
       (generate_traceparent (rt_engine R) (length (sent w)))"

definition request_origin_of :: "router \<Rightarrow> request \<Rightarrow> string" where
  "request_origin_of R rq =
     resolve_origin (parse_ip (net (rt_engine R))) (show_ip (rt_inbound R)) (request_headers_map R (in_headers rq))
       (in_peer rq) (trusted_proxies (rt_config R))"

text \<open>The guards of a proxied route see the request without its body.\<close>

definition proxy_context :: "router \<Rightarrow> request \<Rightarrow> string \<Rightarrow> string list \<Rightarrow> world \<Rightarrow> execution_context" where
  "proxy_context R rq project path_params w =
     request_context project [] (query_map R (in_query rq)) (request_headers_map R (in_headers rq))
       (request_origin_of R rq) path_params (request_traceparent R rq w)"

definition proxy_request ::
  "router \<Rightarrow> runner \<Rightarrow> request \<Rightarrow> string \<Rightarrow> proxy_declaration \<Rightarrow> string \<Rightarrow> string list \<Rightarrow> world \<Rightarrow> semaphores \<Rightarrow>
   (handled \<times> world \<times> semaphores) option" where
  "proxy_request R run rq project decl matched_key path_params w sems =
     (let E = rt_engine R in
      case proxy_guards R run (to_uppercase (in_method rq)) (applicable_guards_for E w project matched_key)
             (proxy_context R rq project path_params w) w of
        None \<Rightarrow> None
      | Some (Some r, w') \<Rightarrow> Some (Answered r None, w', sems)
      | Some (None, w') \<Rightarrow>
          (case forward (rt_proxy R) (net E) (http_client E) (length (sent w')) decl
                  (project @ ''|'' @ matched_key) (request_traceparent R rq w) rq sems of
             (r, permit, sems') \<Rightarrow> Some (Answered r permit, w', sems')))"

section \<open>The reply of a DSL\<close>

definition final_status :: "router \<Rightarrow> dsl_execution_result \<Rightarrow> u16" where
  "final_status R res =
     (if er_status res = 200 then
        (if er_value res \<noteq> None then opt_or (dsl_with_response_status (rt_config R)) (er_status res)
         else opt_or (dsl_without_response_status (rt_config R)) (er_status res))
      else er_status res)"

definition wants_non_json :: "dsl_execution_result \<Rightarrow> bool" where
  "wants_non_json res =
     (case find (\<lambda>(k, _). eq_ignore_ascii_case k ''content-type'') (er_headers res) of
        None \<Rightarrow> False
      | Some (_, ct) \<Rightarrow> \<not> looks_json ct)"

definition raw_string :: "router \<Rightarrow> dsl_execution_result \<Rightarrow> string option" where
  "raw_string R res =
     (if \<not> opt_or (er_wrapper res) (default_wrapper (rt_config R)) \<and> wants_non_json res
      then Option.bind (er_value res) as_str else None)"

definition result_reply :: "router \<Rightarrow> dsl_execution_result \<Rightarrow> reply" where
  "result_reply R res =
     (let status = status_or (final_status R res) 200;
          raw = opt_or (er_value res) (JObject []);
          body = (if opt_or (er_wrapper res) (default_wrapper (rt_config R))
                  then json_object [(''response'', raw)] else raw);
          r = (case raw_string R res of Some s \<Rightarrow> text_reply status s | None \<Rightarrow> json_reply status body)
      in r\<lparr>rp_headers := insert_valid R (er_headers res) (rp_headers r)\<rparr>)"

definition error_reply :: "router \<Rightarrow> string \<Rightarrow> string \<Rightarrow> ruuter_error \<Rightarrow> world \<Rightarrow> reply" where
  "error_reply R project endpoint_path e w =
     (case e of
        FileNotFound _ \<Rightarrow>
          (let allowed = methods_allowed_for_path (opt_or (dsls w) []) project endpoint_path in
           if allowed = [] then json_error 404 ''Not Found''
           else (let r = json_reply 405 (json_object [(''error'', JString ''Method Not Allowed''),
                   (''allow'', JArray (map JString allowed))])
                 in r\<lparr>rp_headers := insert_valid R [(''Allow'', join_with '', '' allowed)] (rp_headers r)\<rparr>))
      | BadRequest msg \<Rightarrow> json_error 400 (show_reason (rt_inbound R) msg)
      | _ \<Rightarrow> json_error 500 (show_error (rt_proxy R) e @ show_chain (rt_inbound R) e))"

definition echo_trace :: "router \<Rightarrow> string \<Rightarrow> header_map \<Rightarrow> header_map" where
  "echo_trace R tp h =
     (let h1 = (if header_value_ok (rt_proxy R) tp then hdr_insert ''traceparent'' tp h else h) in
      case trace_id_from tp of
        None \<Rightarrow> h1
      | Some tid \<Rightarrow> if header_value_ok (rt_proxy R) tid then hdr_insert ''x-trace-id'' tid h1 else h1)"

definition finish_reply :: "router \<Rightarrow> request \<Rightarrow> world \<Rightarrow> reply \<Rightarrow> reply" where
  "finish_reply R rq w r =
     (let tp = opt_or (hdr_text R (in_headers rq) ''traceparent'')
            (generate_traceparent (rt_engine R) (length (sent w)))
      in r\<lparr>rp_headers := apply_default_response_headers R (response_default_headers (rt_config R))
           (echo_trace R tp (rp_headers r))\<rparr>)"

section \<open>DSL routes\<close>

definition gated :: "router \<Rightarrow> world \<Rightarrow> string \<Rightarrow> string \<Rightarrow> string \<Rightarrow> bool" where
  "gated R w project upper_method endpoint_path =
     (case resolve_dsl_with_path_params (opt_or (dsls w) []) project upper_method endpoint_path of
        None \<Rightarrow> False
      | Some (d, _, _) \<Rightarrow> effective_internal d (default_internal (rt_config R)))"

definition inbound_too_large :: "router \<Rightarrow> nat \<Rightarrow> reply" where
  "inbound_too_large R declared = json_reply 413 (json_object
     [(''error'', JString ''body_too_large''), (''declared'', json_usize declared),
      (''cap'', json_usize MAX_INBOUND_BODY_BYTES),
      (''message'', JString (''declared Content-Length '' @ show_usize (rt_inbound R) declared @
         '' exceeds inbound body cap '' @ show_usize (rt_inbound R) MAX_INBOUND_BODY_BYTES @ '' (h2ck.me v1 T-8)''))])"

text \<open>The body of the request, decoded; \<open>Inl\<close> is the reply that rejects it.\<close>

definition inbound_body :: "router \<Rightarrow> request \<Rightarrow> string hmap \<Rightarrow> reply + json hmap" where
  "inbound_body R rq headers_map =
     (let declared = Option.bind (hdr_text R (in_headers rq) ''content-length'') (parse_usize (net (rt_engine R))) in
      if MAX_INBOUND_BODY_BYTES < opt_or declared 0 then Inl (inbound_too_large R (opt_or declared 0))
      else case read_limited MAX_INBOUND_BODY_BYTES (in_frames rq) [] of
        Inl e \<Rightarrow> Inl (json_error 400 (''body read error: '' @ e))
      | Inr body \<Rightarrow> decode_body R (opt_or (map_of headers_map ''content-type'') []) body)"

definition dsl_request :: "router \<Rightarrow> runner \<Rightarrow> request \<Rightarrow> string \<Rightarrow> string \<Rightarrow> world \<Rightarrow> (reply \<times> world) option" where
  "dsl_request R run rq project endpoint_path w =
     (let E = rt_engine R; headers_map = request_headers_map R (in_headers rq) in
      if gated R w project (to_uppercase (in_method rq)) endpoint_path then Some (json_error 404 ''Not Found'', w)
      else case inbound_body R rq headers_map of
        Inl r \<Rightarrow> Some (r, w)
      | Inr body_map \<Rightarrow>
          map_option (\<lambda>(outcome, w'). (finish_reply R rq w' (case outcome of
              Inr res \<Rightarrow> result_reply R res
            | Inl e \<Rightarrow> error_reply R project endpoint_path e w'), w'))
            (execute_dsl E run project (in_method rq) endpoint_path body_map
              (query_map R (in_query rq)) headers_map (request_origin_of R rq) w))"

section \<open>The handler\<close>

definition upgrade_handled :: "header_map \<Rightarrow> upgrade_outcome \<Rightarrow> handled" where
  "upgrade_handled accept_headers out =
     (case out of
        UpgradeRefused r \<Rightarrow> Answered r None
      | UpgradeAccepted project d query headers \<Rightarrow> Upgraded accept_headers project d query headers)"

definition handle_request_inner ::
  "router \<Rightarrow> runner \<Rightarrow> request \<Rightarrow> world \<Rightarrow> semaphores \<Rightarrow> (handled \<times> world \<times> semaphores) option" where
  "handle_request_inner R run rq w sems =
     (if is_ws_upgrade R rq then
        (case ws_handshake (rt_inbound R) rq of
           Inl rejection \<Rightarrow> Some (Answered rejection None, w, sems)
         | Inr accept_headers \<Rightarrow>
             map_option (\<lambda>(out, w'). (upgrade_handled accept_headers out, w', sems)) (handle_ws_upgrade R run rq w))
      else case admission R rq of
        Some r \<Rightarrow> Some (Answered r None, w, sems)
      | None \<Rightarrow>
      (case split_request_path (in_path rq) of
         None \<Rightarrow> Some (Answered (text_reply 404 ''Not found'') None, w, sems)
       | Some (project, endpoint_path) \<Rightarrow>
           (case proxy_target w project (to_uppercase (in_method rq)) endpoint_path of
              Some (decl, matched_key, path_params) \<Rightarrow>
                proxy_request R run rq project decl matched_key path_params w sems
            | None \<Rightarrow>
                map_option (\<lambda>(r, w'). (Answered r None, w', sems))
                  (dsl_request R run rq project endpoint_path w))))"

definition with_trace :: "router \<Rightarrow> world \<Rightarrow> request \<Rightarrow> request" where
  "with_trace R w rq =
     (case hdr_text R (in_headers rq) ''traceparent'' of
        Some _ \<Rightarrow> rq
      | None \<Rightarrow>
          (let tp = generate_traceparent (rt_engine R) (length (sent w)) in
           if header_value_ok (rt_proxy R) tp
           then rq\<lparr>in_headers := hdr_insert ''traceparent'' tp (in_headers rq)\<rparr> else rq))"

definition handle_request ::
  "router \<Rightarrow> runner \<Rightarrow> request \<Rightarrow> world \<Rightarrow> semaphores \<Rightarrow> (handled \<times> world \<times> semaphores) option" where
  "handle_request R run rq w sems = handle_request_inner R run (with_trace R w rq) w sems"

section \<open>Headers\<close>

lemma hdr_get_insert: "hdr_get (hdr_insert n v h) m = (if m = n then Some v else hdr_get h m)"
proof -
  have "map_of (filter (\<lambda>(k, _). k \<noteq> n) h) m = (if m = n then None else map_of h m)"
    by (induction h) auto
  then show ?thesis by (simp add: hdr_get_def hdr_insert_def map_add_def split: option.splits)
qed

lemma hdr_contains_get: "hdr_contains h n \<longleftrightarrow> hdr_get h n \<noteq> None"
  by (simp add: hdr_contains_def hdr_get_def map_of_eq_None_iff)

lemma defaults_keep: "hdr_get h n = Some v \<Longrightarrow> hdr_get (apply_default_response_headers R ds h) n = Some v"
proof (induction R ds h rule: apply_default_response_headers.induct)
  case (2 R k d rest h)
  have "\<not> hdr_contains h x \<Longrightarrow> n \<noteq> x" for x using "2.prems" by (auto simp: hdr_contains_get)
  then show ?case
    using 2 by (cases "header_name (rt_inbound R) k") (auto simp: hdr_get_insert)
qed simp

lemma with_trace_fields [simp]:
  "in_path (with_trace R w rq) = in_path rq" "in_method (with_trace R w rq) = in_method rq"
  "in_query (with_trace R w rq) = in_query rq" "in_peer (with_trace R w rq) = in_peer rq"
  "in_frames (with_trace R w rq) = in_frames rq"
  by (simp_all add: with_trace_def Let_def split: option.splits)

lemma with_trace_get: "n \<noteq> ''traceparent'' \<Longrightarrow> hdr_get (in_headers (with_trace R w rq)) n = hdr_get (in_headers rq) n"
  by (simp add: with_trace_def Let_def hdr_get_insert split: option.splits)

lemma with_trace_csrf: "csrf_headers R (in_headers (with_trace R w rq)) = csrf_headers R (in_headers rq)"
  unfolding csrf_headers_def List.map_filter_def by (simp add: hdr_text_def with_trace_get)

lemma with_trace_checks [simp]:
  "is_ws_upgrade R (with_trace R w rq) = is_ws_upgrade R rq" "admission R (with_trace R w rq) = admission R rq"
  by (simp_all add: is_ws_upgrade_def admission_def Let_def with_trace_csrf hdr_text_def hdr_contains_get with_trace_get)

section \<open>What the handler keeps\<close>

context world_relation
begin

lemma keeps_turn:
  assumes "keeps_runner R run" "push_guard k c = Inr c1" "run g c1 w = Some (r, c2, w')"
  shows "same_frame c (pop_guard c2) \<and> R (ctx_project c) w w'"
proof -
  have c1: "c1 = c\<lparr>guard_stack := guard_stack c @ [k]\<rparr>" using assms(2) by (simp add: push_guard_ok_iff)
  then have "same_frame c1 c2 \<and> R (ctx_project c) w w'"
    using keepsD[OF keeps_runnerD[OF assms(1)] _ assms(3), of "ctx_project c"] by simp
  then show ?thesis by (simp add: same_frame_def pop_guard_def c1)
qed

lemma keeps_chain:
  assumes "keeps_runner R run" "guard_chain checks skips run gs c w v c' w'"
  shows "same_frame c c' \<and> R (ctx_project c) w w'"
  using assms(2)
proof induction
  case (failing c k g c1 w e c2 w2 gs)
  then show ?case using keeps_turn[OF assms(1)] by blast
next
  case (deny c k g c1 w res c2 w2 gs)
  then show ?case using keeps_turn[OF assms(1)] by blast
next
  case (pass c k g c1 w res c2 w2 gs v c' w')
  then have "same_frame c (pop_guard c2)" "R (ctx_project c) w w2" using keeps_turn[OF assms(1)] by blast+
  then show ?case using pass.IH same_frame_trans transitive by (metis same_frame_def)
qed (auto simp: reflexive)

lemma keeps_guard_loop:
  "keeps_runner R run \<Longrightarrow> guard_loop F checks run gs c w = Some (out, w') \<Longrightarrow> R (ctx_project c) w w'"
  using guard_loop_refines keeps_chain by blast

lemma keeps_upgrade:
  assumes "keeps_runner R run" "handle_ws_upgrade Rt run rq w = Some (out, w')"
    and "path_segments (in_path rq) = project # rest"
  shows "R project w w'"
proof (cases "rest = [] \<or> ws_dsl (opt_or (dsls w) []) project (''WS/'' @ join_with ''/'' rest) = None")
  case True
  then show ?thesis
    using assms(2,3) by (cases rest) (auto simp: handle_ws_upgrade_def reflexive)
next
  case False
  then obtain d where "rest \<noteq> []" "ws_dsl (opt_or (dsls w) []) project (''WS/'' @ join_with ''/'' rest) = Some d"
    by auto
  then show ?thesis
    using assms keeps_guard_loop[OF assms(1)]
    by (cases rest) (fastforce simp: handle_ws_upgrade_def Let_def ws_guards_def ctx_with_state_def)+
qed

lemma keeps_proxy_request:
  assumes "keeps_runner R run" "proxy_request Rt run rq project decl key pp w sems = Some (out, w', sems')"
  shows "R project w w'"
proof -
  obtain r where "proxy_guards Rt run (to_uppercase (in_method rq)) (applicable_guards_for (rt_engine Rt) w project key)
      (proxy_context Rt rq project pp w) w = Some (r, w')"
    using assms(2) by (auto simp: proxy_request_def Let_def split: option.splits prod.splits)
  moreover have "ctx_project (proxy_context Rt rq project pp w) = project" by (simp add: proxy_context_def)
  ultimately show ?thesis using keeps_guard_loop[OF assms(1)] unfolding proxy_guards_def by metis
qed

lemma keeps_dsl_request:
  assumes "keeps_runner R run" "rt_engine Rt = E" "dsl_request Rt run rq project path w = Some (r, w')"
  shows "R project w w'"
proof (cases "gated Rt w project (to_uppercase (in_method rq)) path")
  case False
  then show ?thesis
    using assms(2,3) execute_dsl_world[OF assms(1)]
    by (cases "inbound_body Rt rq (request_headers_map Rt (in_headers rq))")
      (auto simp: dsl_request_def Let_def reflexive)
qed (use assms(3) in \<open>simp add: dsl_request_def Let_def reflexive\<close>)

lemma handler_keeps:
  assumes "handle_request Rt (engine_run n E) rq w sems = Some (out, w', sems')" "rt_engine Rt = E"
    and path: "split_request_path (in_path rq) = Some (project, path)"
  shows "R project w w'"
proof -
  let ?rq = "with_trace Rt w rq"
  note K = keeps_engine_run[of n]
  obtain rest where seg: "path_segments (in_path ?rq) = project # rest"
    using path by (auto simp: split_request_path_def split: list.splits)
  consider "w' = w"
    | u where "handle_ws_upgrade Rt (engine_run n E) ?rq w = Some (u, w')"
    | decl key pp where "proxy_request Rt (engine_run n E) ?rq project decl key pp w sems = Some (out, w', sems')"
    | r where "dsl_request Rt (engine_run n E) ?rq project path w = Some (r, w')"
    using assms(1) path
    by (auto simp: handle_request_def handle_request_inner_def split: if_splits option.splits sum.splits)
  then show ?thesis
    using keeps_upgrade[OF K _ seg] keeps_proxy_request[OF K] keeps_dsl_request[OF K assms(2)]
    by cases (auto simp: reflexive)
qed

end

definition permit_of :: "handled \<Rightarrow> string option" where
  "permit_of out = (case out of Answered _ p \<Rightarrow> p | Upgraded _ _ _ _ _ \<Rightarrow> None)"

lemma upgrade_permit [simp]: "permit_of (upgrade_handled h out) = None"
  by (cases out) (simp_all add: upgrade_handled_def permit_of_def)

lemma answered_permit [simp]: "permit_of (Answered r p) = p"
  by (simp add: permit_of_def)

lemma proxy_request_permits:
  assumes "sem_wf sems" "proxy_request R run rq project decl key pp w sems = Some (out, w', sems')"
  shows "sem_wf sems' \<and> held sems' k = held sems k + (if permit_of out = Some k then 1 else 0)"
  using assms forward_permits[OF assms(1)]
  by (fastforce simp: proxy_request_def Let_def split: option.splits prod.splits)

lemma handler_permits:
  assumes "sem_wf sems" "handle_request R run rq w sems = Some (out, w', sems')"
  shows "sem_wf sems' \<and> held sems' k = held sems k + (if permit_of out = Some k then 1 else 0)"
proof -
  consider "sems' = sems" "permit_of out = None"
    | project decl key pp where "proxy_request R run (with_trace R w rq) project decl key pp w sems = Some (out, w', sems')"
    using assms(2)
    by (auto simp: handle_request_def handle_request_inner_def split: if_splits option.splits sum.splits)
  then show ?thesis
    using assms(1) proxy_request_permits[OF assms(1)] by cases auto
qed

lemma handler_no_path:
  assumes "split_request_path (in_path rq) = None" "handle_request R run rq w sems = Some (out, w', sems')"
  shows "w' = w"
proof -
  have "path_segments (in_path rq) = []"
    using assms(1) by (auto simp: split_request_path_def split: list.splits)
  then show ?thesis
    using assms
    by (auto simp: handle_request_def handle_request_inner_def handle_ws_upgrade_def
        split: if_splits option.splits sum.splits)
qed

section \<open>Body limits\<close>

lemma read_limited_ok:
  "read_limited limit fs buf = Inr body \<Longrightarrow> length buf \<le> limit \<Longrightarrow>
   length body \<le> limit \<and> body = buf @ frame_bytes fs"
  by (induction limit fs buf rule: read_limited.induct) (auto split: frame.splits if_splits)

lemma read_limited_complete:
  "length buf + length (frame_bytes fs) \<le> limit \<Longrightarrow> \<forall>f \<in> set fs. \<forall>e. f \<noteq> Broken e \<Longrightarrow>
   read_limited limit fs buf = Inr (buf @ frame_bytes fs)"
  by (induction limit fs buf rule: read_limited.induct) (auto split: frame.splits)

lemma read_part_ok:
  "read_part psize fs buf = Inr bytes \<Longrightarrow> (\<forall>n. psize = Some n \<longrightarrow> length buf \<le> n) \<Longrightarrow>
   (\<forall>n. psize = Some n \<longrightarrow> length bytes \<le> n)"
  by (induction psize fs buf rule: read_part.induct) (auto simp: Let_def split: frame.splits option.splits if_splits)

lemma multipart_part_count:
  "parse_multipart_body lossy flds err max_parts psize k out = Inr m \<Longrightarrow>
   (\<forall>cap. max_parts = Some cap \<longrightarrow> flds \<noteq> [] \<longrightarrow> k + length flds \<le> cap) \<and>
   (\<forall>fld \<in> set flds. \<exists>bytes. read_part psize (mp_chunks fld) [] = Inr bytes)"
  by (induction lossy flds err max_parts psize k out rule: parse_multipart_body.induct)
    (fastforce simp: Let_def split: if_splits sum.splits option.splits)+

section \<open>A concrete request\<close>

definition get_store :: request where
  "get_store = request_to ''GET'' ''/demo/store''"

lemma upper_GET [simp]: "to_uppercase ''GET'' = ''GET''"
  by code_simp

lemma get_store_steps:
  "split_request_path (in_path get_store) = Some (''demo'', ''store'')"
  "admission sample_router get_store = None" "is_ws_upgrade sample_router get_store = False"
  "to_uppercase (in_method get_store) = ''GET''" "in_method get_store = ''GET''" "in_frames get_store = []"
  "hdr_get (in_headers get_store) n = None"
  by (simp_all add: get_store_def request_to_def hdr_text_def hdr_get_def admission_def is_ws_upgrade_def
      method_listed_def sample_config_def eq_ignore_ascii_case_def Let_def) (code_simp)+

lemma store_execution:
  "execute_dsl sample_engine (engine_run (Suc n) sample_engine) ''demo'' ''GET'' ''store'' b q h src sample_world =
     Some (Inr stored_result, sample_world\<lparr>w_state := store_after\<rparr>)"
  by (simp add: execute_dsl_def sample_resolve sample_guards_for guarded_run_def bindc_def filter_request_def)

lemma store_dsl_request:
  assumes "in_method rq = ''GET''" "in_frames rq = []" "hdr_text sample_router (in_headers rq) ''content-length'' = None"
  shows "dsl_request sample_router (engine_run (Suc n) sample_engine) rq ''demo'' ''store'' sample_world =
     Some (finish_reply sample_router rq (sample_world\<lparr>w_state := store_after\<rparr>) (result_reply sample_router stored_result),
       sample_world\<lparr>w_state := store_after\<rparr>)"
proof -
  have "\<not> gated sample_router sample_world ''demo'' (to_uppercase (in_method rq)) ''store''"
    using assms(1) by (simp add: gated_def sample_resolve effective_internal_def sample_config_def)
  moreover have "inbound_body sample_router rq h = Inr []" for h
    using assms(2,3) by (simp add: inbound_body_def Let_def decode_body_def)
  ultimately show ?thesis
    using assms(1) by (simp add: dsl_request_def store_execution del: engine_run.simps)
qed

lemma store_handled:
  "\<exists>r. handle_request sample_router (engine_run (Suc n) sample_engine) get_store sample_world sems =
     Some (Answered r None, sample_world\<lparr>w_state := store_after\<rparr>, sems) \<and> rp_status r = 201 \<and>
     (\<exists>v. rp_body r = ReplyJson v)"
proof -
  have "proxy_target sample_world ''demo'' ''GET'' ''store'' = None"
    by (simp add: proxy_target_def sample_resolve)
  moreover have "hdr_text sample_router (in_headers (with_trace sample_router sample_world get_store)) ''content-length'' = None"
    by (simp add: hdr_text_def with_trace_get get_store_steps)
  ultimately show ?thesis
    using store_dsl_request[of "with_trace sample_router sample_world get_store" n]
    by (simp add: handle_request_def handle_request_inner_def get_store_steps finish_reply_def result_reply_def
        stored_result_def final_status_def raw_string_def json_reply_def sample_config_def status_or_def Let_def
        del: engine_run.simps)
qed

section \<open>Properties\<close>

text \<open>
  C1. Projects are isolated, end to end: when the engine has no self-call shortcut and no default
  exception DSL, an HTTP request whose path names one project leaves what every other project can
  observe of the state store unchanged, through WebSocket handshakes, proxied routes, guards and DSL
  runs alike, whatever the headers, the body and the DSLs are.
\<close>

theorem handler_isolates_projects:
  assumes "\<not> crosses_projects (rt_engine R)" "q \<noteq> project"
    and "split_request_path (in_path rq) = Some (project, path)"
    and "handle_request R (engine_run n (rt_engine R)) rq w sems = Some (out, w', sems')"
  shows "project_view (w_state w') q = project_view (w_state w) q"
  using iso.handler_keeps[OF assms(4) refl assms(3)] assms(1,2) by (simp add: same_other_projects_def)

theorem handler_isolates_projects_witness:
  "\<not> crosses_projects sample_engine \<and> ''other'' \<noteq> ''demo'' \<and>
   project_view (w_state (sample_world\<lparr>w_state := store_after\<rparr>)) ''other'' = project_view (w_state sample_world) ''other''"
proof -
  have hyps: "\<not> crosses_projects (rt_engine sample_router)" "''other'' \<noteq> ''demo''"
    by (simp_all add: crosses_projects_def)
  obtain r where "handle_request sample_router (engine_run (Suc 0) (rt_engine sample_router)) get_store sample_world [] =
      Some (Answered r None, sample_world\<lparr>w_state := store_after\<rparr>, [])"
    using store_handled[of 0 "[]"] by auto
  from handler_isolates_projects[OF hyps get_store_steps(1) this] hyps show ?thesis
    by (intro conjI) simp_all
qed

lemma handler_invariants:
  assumes "world_wf w" "sem_wf sems"
    and "handle_request R (engine_run n (rt_engine R)) rq w sems = Some (out, w', sems')"
  shows "world_wf w' \<and> sem_wf sems' \<and> held sems' k = held sems k + (if permit_of out = Some k then 1 else 0)"
proof (cases "split_request_path (in_path rq)")
  case None
  then show ?thesis using handler_no_path[OF None assms(3)] handler_permits[OF assms(2,3)] assms(1) by simp
next
  case (Some pp)
  obtain project path where pp: "pp = (project, path)" by (cases pp)
  have "world_wf w'" using wfl.handler_keeps[OF assms(3) refl Some[unfolded pp]] assms(1) by simp
  then show ?thesis using handler_permits[OF assms(2,3)] by simp
qed

text \<open>
  C2. The invariants of the process survive every request: from well-formed stores and semaphores, and
  whatever the request is, the handler leaves every store well-formed (unique keys, entry caps, queue,
  flight and detach bounds) and every proxied route within its in-flight cap, and holds exactly the
  permit its reply names.
\<close>

theorem handler_keeps_invariants:
  assumes "world_wf w" "sem_wf sems"
    and "handle_request R (engine_run n (rt_engine R)) rq w sems = Some (out, w', sems')"
  shows "world_wf w' \<and> sem_wf sems' \<and> held sems' k = held sems k + (if permit_of out = Some k then 1 else 0)"
  using assms by (rule handler_invariants)

lemma sample_world_wf: "world_wf sample_world"
  by (simp add: world_wf_def wf_store_def store_with_max_def current_count_def project_entries_def
      ws_wf_def sf_new_wf)

theorem handler_keeps_invariants_witness:
  "world_wf sample_world \<and> sem_wf [(''r'', 2, 1)] \<and> world_wf (sample_world\<lparr>w_state := store_after\<rparr>)"
proof -
  have wf: "sem_wf [(''r'', 2, 1)]" by (simp add: sem_wf_def)
  obtain r where "handle_request sample_router (engine_run (Suc 0) (rt_engine sample_router)) get_store sample_world
      [(''r'', 2, 1)] = Some (Answered r None, sample_world\<lparr>w_state := store_after\<rparr>, [(''r'', 2, 1)])"
    using store_handled[of 0 "[(''r'', 2, 1)]"] by auto
  from handler_keeps_invariants[OF sample_world_wf wf this, THEN conjunct1] show ?thesis
    using wf sample_world_wf by (intro conjI)
qed


definition hidden_dsl :: dsl where
  "hidden_dsl = dsl_new [(''d'', Declaration (declaration_default\<lparr>internal := Some True\<rparr>)),
     (''out'', return_of (JString ''secret'') 200)]"

definition hidden_world :: world where
  "hidden_world = sample_world\<lparr>dsls := Some [(''demo'', [(''GET'', [(''GET/store'', hidden_dsl)])])]\<rparr>"

lemma hidden_resolve:
  "resolve_dsl_with_path_params (opt_or (dsls hidden_world) []) ''demo'' ''GET'' ''store'' = Some (hidden_dsl, ''GET/store'', [])"
  by code_simp



definition relayed_dsl :: dsl where
  "relayed_dsl = dsl_new [(''d'', Declaration (declaration_default\<lparr>internal := Some True,
     proxy := Some sample_declaration\<rparr>))]"

definition relayed_world :: world where
  "relayed_world = sample_world\<lparr>dsls := Some [(''demo'', [(''GET'', [(''GET/admin/up'', relayed_dsl)])])]\<rparr>"

definition get_relayed :: request where
  "get_relayed = request_to ''GET'' ''/demo/admin/up''"

lemma get_relayed_steps:
  "split_request_path (in_path get_relayed) = Some (''demo'', ''admin/up'')"
  "admission sample_router get_relayed = None" "\<not> is_ws_upgrade sample_router get_relayed"
  "in_method get_relayed = ''GET''"
  "resolve_dsl_with_path_params (opt_or (dsls relayed_world) []) ''demo'' ''GET'' ''admin/up'' = Some (relayed_dsl, ''GET/admin/up'', [])"
  "applicable_guards_for sample_engine relayed_world ''demo'' ''GET/admin/up'' = [(''GET/admin'', deny_guard)]"
  by (simp_all add: get_relayed_def request_to_def hdr_text_def hdr_get_def admission_def is_ws_upgrade_def
      method_listed_def sample_config_def eq_ignore_ascii_case_def Let_def) (code_simp)+

lemma relayed_target:
  "proxy_target relayed_world ''demo'' ''GET'' ''admin/up'' = Some (sample_declaration, ''GET/admin/up'', [])"
  by (simp add: proxy_target_def get_relayed_steps relayed_dsl_def dsl_new_def declaration_default_def)


text \<open>
  What a client learns about an unknown route: an admitted request with a readable body whose
  path resolves for its method to nothing runs nothing and is answered 404, unless the path resolves
  for some other method; then it is answered 405, and its \<open>Allow\<close> header lists exactly the methods for
  which it does, in order. The list is not filtered: it names the methods of internal DSLs too.
\<close>

theorem unknown_route_reply:
  assumes "\<not> is_ws_upgrade R rq" "admission R rq = None"
    and "split_request_path (in_path rq) = Some (project, path)"
    and "resolve_dsl_with_path_params (opt_or (dsls w) []) project (to_uppercase (in_method rq)) path = None"
    and "inbound_body R (with_trace R w rq) (request_headers_map R (in_headers (with_trace R w rq))) = Inr body"
    and "header_name (rt_inbound R) ''Allow'' = Some ''allow''" "header_value_ok (rt_proxy R) (join_with '', '' allow)"
    and "allow = methods_allowed_for_path (opt_or (dsls w) []) project path"
  shows "\<exists>r. handle_request R run rq w sems = Some (Answered r None, w, sems) \<and>
    set allow = {m. resolve_dsl_with_path_params (opt_or (dsls w) []) project m path \<noteq> None} \<and>
    (if allow = [] then rp_status r = 404
     else rp_status r = 405 \<and> hdr_get (rp_headers r) ''allow'' = Some (join_with '', '' allow))"
proof -
  let ?rq = "with_trace R w rq"
  let ?e = "error_reply R project path (FileNotFound (DslNotFound (to_uppercase (in_method rq)) path)) w"
  have h: "handle_request R run rq w sems = Some (Answered (finish_reply R ?rq w ?e) None, w, sems)"
    using assms(1-5)
    by (simp add: handle_request_def handle_request_inner_def proxy_target_def dsl_request_def gated_def execute_dsl_def Let_def)
  have set: "set allow = {m. resolve_dsl_with_path_params (opt_or (dsls w) []) project m path \<noteq> None}"
    unfolding assms(8) using methods_allowed_agrees_with_resolution by blast
  have "if allow = [] then rp_status ?e = 404
     else rp_status ?e = 405 \<and> hdr_get (rp_headers ?e) ''allow'' = Some (join_with '', '' allow)"
    using assms(6-8) by (simp add: error_reply_def json_error_def json_reply_def Let_def hdr_get_insert)
  moreover have "rp_status (finish_reply R ?rq w ?e) = rp_status ?e"
    "hdr_get (rp_headers ?e) ''allow'' = Some v \<Longrightarrow> hdr_get (rp_headers (finish_reply R ?rq w ?e)) ''allow'' = Some v" for v
    by (auto simp: finish_reply_def Let_def echo_trace_def hdr_get_insert intro!: defaults_keep split: option.splits)
  ultimately show ?thesis using h set by (auto split: if_splits)
qed

theorem unknown_route_reply_witness:
  "\<exists>r. handle_request sample_router (engine_run 1 sample_engine) (request_to ''POST'' ''/demo/store'') hidden_world [] =
     Some (Answered r None, hidden_world, []) \<and> rp_status r = 405 \<and> hdr_get (rp_headers r) ''allow'' = Some ''GET''"
proof -
  let ?rq = "request_to ''POST'' ''/demo/store''"
  have 1: "\<not> is_ws_upgrade sample_router ?rq" "admission sample_router ?rq = None" "in_method ?rq = ''POST''"
    "in_frames ?rq = []"
    by (simp_all add: request_to_def hdr_text_def hdr_get_def admission_def is_ws_upgrade_def
      method_listed_def sample_config_def eq_ignore_ascii_case_def Let_def)
  have 2: "split_request_path (in_path ?rq) = Some (''demo'', ''store'')"
    "resolve_dsl_with_path_params (opt_or (dsls hidden_world) []) ''demo'' (to_uppercase (in_method ?rq)) ''store'' = None"
    "[''GET''] = methods_allowed_for_path (opt_or (dsls hidden_world) []) ''demo'' ''store''"
    by code_simp+
  have "hdr_get (in_headers ?rq) n = None" for n by (simp add: request_to_def hdr_get_def)
  then have 3: "inbound_body sample_router (with_trace sample_router hidden_world ?rq) h = Inr []" for h
    by (simp add: inbound_body_def decode_body_def hdr_text_def with_trace_get 1 Let_def)
  have "to_ascii_lowercase ''Allow'' = ''allow''" by code_simp
  then have 4: "header_name (rt_inbound sample_router) ''Allow'' = Some ''allow''"
    "header_value_ok (rt_proxy sample_router) (join_with '', '' [''GET''])"
    by (simp_all add: sample_inbound_def sample_proxy_def)
  from unknown_route_reply[OF 1(1,2) 2(1,2) 3 4 2(3), of "engine_run 1 sample_engine" "[]"] show ?thesis
    by (elim exE conjE) auto
qed

text \<open>
  Every DSL reply is traceable and defaults never override: when a request that carries a
  traceparent reaches its DSL, the reply echoes that traceparent and its trace id, whatever headers
  the DSL set, and every other header the DSL or the error reply set is still there after the
  configured default headers are applied.
\<close>

theorem dsl_reply_traced:
  assumes "hdr_text R (in_headers rq) ''traceparent'' = Some tp"
    and "header_value_ok (rt_proxy R) tp" "trace_id_from tp = Some tid" "header_value_ok (rt_proxy R) tid"
    and "\<not> gated R w project (to_uppercase (in_method rq)) path"
    and "inbound_body R rq (request_headers_map R (in_headers rq)) = Inr body"
    and "dsl_request R run rq project path w = Some (r, w')"
  shows "\<exists>outcome r0. execute_dsl (rt_engine R) run project (in_method rq) path body (query_map R (in_query rq))
       (request_headers_map R (in_headers rq)) (request_origin_of R rq) w = Some (outcome, w') \<and>
     r0 = (case outcome of Inr res \<Rightarrow> result_reply R res | Inl e \<Rightarrow> error_reply R project path e w') \<and>
     rp_status r = rp_status r0 \<and> rp_body r = rp_body r0 \<and>
     hdr_get (rp_headers r) ''traceparent'' = Some tp \<and> hdr_get (rp_headers r) ''x-trace-id'' = Some tid \<and>
     (\<forall>n v. n \<notin> {''traceparent'', ''x-trace-id''} \<and> hdr_get (rp_headers r0) n = Some v \<longrightarrow>
        hdr_get (rp_headers r) n = Some v)"
proof -
  obtain outcome where ex: "execute_dsl (rt_engine R) run project (in_method rq) path body (query_map R (in_query rq))
       (request_headers_map R (in_headers rq)) (request_origin_of R rq) w = Some (outcome, w')"
    and r: "r = finish_reply R rq w' (case outcome of Inr res \<Rightarrow> result_reply R res | Inl e \<Rightarrow> error_reply R project path e w')"
    using assms(5-7) by (auto simp: dsl_request_def Let_def)
  have "hdr_get (rp_headers (finish_reply R rq w' r0)) ''traceparent'' = Some tp \<and>
      hdr_get (rp_headers (finish_reply R rq w' r0)) ''x-trace-id'' = Some tid \<and>
      (n \<notin> {''traceparent'', ''x-trace-id''} \<and> hdr_get (rp_headers r0) n = Some v \<longrightarrow>
        hdr_get (rp_headers (finish_reply R rq w' r0)) n = Some v)" for r0 n v
    using assms(1-4) by (auto simp: finish_reply_def Let_def echo_trace_def hdr_get_insert intro!: defaults_keep)
  moreover have "rp_status (finish_reply R rq w' r0) = rp_status r0" "rp_body (finish_reply R rq w' r0) = rp_body r0" for r0
    by (simp_all add: finish_reply_def Let_def)
  ultimately show ?thesis using ex r by blast
qed

definition sample_tp :: string where
  "sample_tp = ''00-'' @ replicate 32 (CHR ''a'') @ ''-'' @ replicate 16 (CHR ''b'') @ ''-01''"

theorem dsl_reply_traced_witness:
  "\<exists>r. dsl_request sample_router (engine_run 1 sample_engine) (get_store\<lparr>in_headers := [(''traceparent'', sample_tp)]\<rparr>)
      ''demo'' ''store'' sample_world = Some (r, sample_world\<lparr>w_state := store_after\<rparr>) \<and>
    hdr_get (rp_headers r) ''traceparent'' = Some sample_tp \<and>
    hdr_get (rp_headers r) ''x-trace-id'' = Some (replicate 32 (CHR ''a''))"
proof -
  let ?rq = "get_store\<lparr>in_headers := [(''traceparent'', sample_tp)]\<rparr>"
  let ?r = "finish_reply sample_router ?rq (sample_world\<lparr>w_state := store_after\<rparr>) (result_reply sample_router stored_result)"
  have 1: "hdr_text sample_router (in_headers ?rq) ''traceparent'' = Some sample_tp"
    "header_value_ok (rt_proxy sample_router) sample_tp"
    "header_value_ok (rt_proxy sample_router) (replicate 32 (CHR ''a''))"
    "hdr_text sample_router [(''traceparent'', sample_tp)] ''content-length'' = None"
    by (simp_all add: hdr_text_def hdr_get_def sample_proxy_def)
  have 2: "trace_id_from sample_tp = Some (replicate 32 (CHR ''a''))" by code_simp
  have 3: "\<not> gated sample_router sample_world ''demo'' (to_uppercase (in_method ?rq)) ''store''"
    by (simp add: gated_def sample_resolve effective_internal_def sample_config_def get_store_steps)
  have 4: "inbound_body sample_router ?rq h = Inr []" for h
    by (simp add: inbound_body_def Let_def decode_body_def 1(4) get_store_steps)
  have 5: "dsl_request sample_router (engine_run 1 sample_engine) ?rq ''demo'' ''store'' sample_world =
      Some (?r, sample_world\<lparr>w_state := store_after\<rparr>)"
    using store_dsl_request[of ?rq 0] by (simp add: get_store_steps 1(4))
  from dsl_reply_traced[OF 1(1,2) 2 1(3) 3 4 5] 5 show ?thesis by auto
qed


text \<open>
  A guard can deny and the client still read success: a guard (or any DSL) that answers with a
  status of 1000 or more ends the request, its DSL does not run, but the reply is sent with status
  200; the proxied route and the WebSocket handshake send 403 for the same guard result.
\<close>

theorem guard_denial_reads_as_success:
  assumes "999 < er_status res"
  shows "rp_status (result_reply R res) = 200 \<and> rp_status (build_guard_short_circuit R res) = 403 \<and>
    rp_status (on_denied (ws_refusals R) res) = 403"
proof -
  have "er_status res \<noteq> 200" using assms by auto
  then have "final_status R res = er_status res" by (simp add: final_status_def)
  moreover have "status_or (er_status res) d = d" for d
    using assms by (auto simp: status_or_def)
  ultimately show ?thesis
    by (simp add: result_reply_def build_guard_short_circuit_def ws_refusals_def Let_def json_reply_def
        text_reply_def split: option.splits)
qed

theorem guard_denial_reads_as_success_witness:
  "400 \<le> er_status (denied_result\<lparr>er_status := 1403\<rparr>) \<and>
   rp_status (result_reply sample_router (denied_result\<lparr>er_status := 1403\<rparr>)) = 200"
  using guard_denial_reads_as_success[of "denied_result\<lparr>er_status := 1403\<rparr>" sample_router] by simp

end
