(* ===== verification/Interpolate.thy ===== *)
theory Interpolate
  imports Ruuter_Prelude
begin

text \<open>
  Constant interpolation (\<open>src/dsl/interpolate.rs\<close>), shared by the DSL parser and the source
  configurations. The regular expression \<open>\[#([^\]]+)\]|#\{([^}]+)\}\<close> is written out as a matcher; its
  leftmost, non-overlapping matches cut a text into plain characters and references.

  The lemmas show that the cut loses nothing, that substitution touches references only, depends on
  the constants it names only and is not applied again to what it inserted, and when the strict
  variant of the source configurations accepts.
\<close>

section \<open>Matching\<close>

definition match_form :: "string \<Rightarrow> char \<Rightarrow> string \<Rightarrow> (string \<times> nat) option" where
  "match_form opening closing s =
     (let body = drop (length opening) s; key = takeWhile (\<lambda>c. c \<noteq> closing) body in
      if starts_with s opening \<and> key \<noteq> [] \<and> length key < length body
      then Some (key, length opening + length key + 1) else None)"

definition match_ref :: "string \<Rightarrow> (string \<times> nat) option" where
  "match_ref s =
     (case match_form ''[#'' (CHR '']'') s of
        Some m \<Rightarrow> Some m
      | None \<Rightarrow> match_form ''#{'' (CHR ''}'') s)"

datatype piece = Plain char | Ref string string

lemma match_ref_pos: "match_ref s = Some (k, n) \<Longrightarrow> 0 < n"
  by (auto simp: match_ref_def match_form_def Let_def split: option.splits if_splits)

function scan_refs :: "string \<Rightarrow> piece list" where
  "scan_refs [] = []"
| "scan_refs (c # cs) =
     (case match_ref (c # cs) of
        Some (key, n) \<Rightarrow> Ref key (take n (c # cs)) # scan_refs (drop n (c # cs))
      | None \<Rightarrow> Plain c # scan_refs cs)"
  by pat_completeness auto
termination
  by (relation "measure length") (auto dest: match_ref_pos)

definition substitute :: "string \<Rightarrow> (string \<Rightarrow> string option) \<Rightarrow> string" where
  "substitute input lookup =
     concat (map (\<lambda>p. case p of
         Plain c \<Rightarrow> [c]
       | Ref key literal \<Rightarrow> (case lookup key of Some v \<Rightarrow> v | None \<Rightarrow> literal)) (scan_refs input))"

definition iter_refs :: "string \<Rightarrow> (string \<times> string) list" where
  "iter_refs input =
     concat (map (\<lambda>p. case p of Ref key literal \<Rightarrow> [(key, literal)] | Plain _ \<Rightarrow> []) (scan_refs input))"

text \<open>The strict variant of \<open>src/sources/config.rs\<close>: the first undefined constant is an error.\<close>

definition strict_substitute :: "string \<Rightarrow> string hmap \<Rightarrow> string + string" where
  "strict_substitute s constants =
     (case find (\<lambda>(key, _). map_of constants key = None) (iter_refs s) of
        Some (key, _) \<Rightarrow> Inl (''undefined constant [#'' @ key @ '']'')
      | None \<Rightarrow> Inr (substitute s (map_of constants)))"

section \<open>Lemmas\<close>

definition piece_text :: "piece \<Rightarrow> string" where
  "piece_text p = (case p of Plain c \<Rightarrow> [c] | Ref _ literal \<Rightarrow> literal)"

lemma scan_lossless: "concat (map piece_text (scan_refs s)) = s"
  by (induction s rule: scan_refs.induct)
    (auto simp: piece_text_def split: option.splits simp del: take_Cons' drop_Cons')

lemma match_form_literal:
  assumes "match_form opening closing s = Some (k, n)"
  shows "take n s = opening @ k @ [closing] \<and> k \<noteq> [] \<and> closing \<notin> set k"
proof -
  let ?b = "drop (length opening) s"
  have k: "k = takeWhile (\<lambda>c. c \<noteq> closing) ?b" "k \<noteq> []" "length k < length ?b"
    and n: "n = length opening + (length k + 1)" and pre: "take (length opening) s = opening"
    using assms by (auto simp: match_form_def starts_with_def Let_def split: if_splits)
  have "take (length k) ?b = k" unfolding k(1) by (metis takeWhile_eq_take)
  moreover have "?b ! length k = closing"
    using nth_length_takeWhile[of "\<lambda>c. c \<noteq> closing" ?b] k by simp
  ultimately have "take (length k + 1) ?b = k @ [closing]"
    using k(3) by (simp add: take_Suc_conv_app_nth)
  moreover have "take n s = take (length opening) s @ take (length k + 1) ?b" unfolding n by (rule take_add)
  ultimately have "take n s = opening @ k @ [closing]" using pre by simp
  moreover have "closing \<notin> set k" unfolding k(1) by (auto dest: set_takeWhileD)
  ultimately show ?thesis using k(2) by simp
qed

lemma match_ref_literal:
  assumes "match_ref s = Some (k, n)"
  shows "k \<noteq> [] \<and> (take n s = ''[#'' @ k @ '']'' \<and> CHR '']'' \<notin> set k \<or> take n s = ''#{'' @ k @ ''}'' \<and> CHR ''}'' \<notin> set k)"
  using assms by (auto simp: match_ref_def dest!: match_form_literal split: option.splits)

lemma scan_ref_shape:
  "Ref k lit \<in> set (scan_refs s) \<Longrightarrow>
   k \<noteq> [] \<and> (lit = ''[#'' @ k @ '']'' \<and> CHR '']'' \<notin> set k \<or> lit = ''#{'' @ k @ ''}'' \<and> CHR ''}'' \<notin> set k)"
proof (induction s rule: scan_refs.induct)
  case (2 c cs)
  then show ?case
    by (cases "match_ref (c # cs)") (auto dest: match_ref_literal simp del: take_Cons' drop_Cons')
qed simp

lemma iter_refs_iff: "(k, lit) \<in> set (iter_refs s) \<longleftrightarrow> Ref k lit \<in> set (scan_refs s)"
  by (force simp: iter_refs_def split: piece.splits)

lemma substitute_cong:
  assumes "\<And>k lit. (k, lit) \<in> set (iter_refs s) \<Longrightarrow> f k = g k"
  shows "substitute s f = substitute s g"
  unfolding substitute_def
  by (rule arg_cong[where f = concat], rule map_cong) (auto split: piece.splits simp: assms iter_refs_iff)

lemma substitute_none:
  assumes "\<And>k lit. (k, lit) \<in> set (iter_refs s) \<Longrightarrow> f k = None"
  shows "substitute s f = s"
proof -
  have "substitute s f = concat (map piece_text (scan_refs s))"
    unfolding substitute_def piece_text_def
    by (rule arg_cong[where f = concat], rule map_cong) (auto split: piece.splits simp: assms iter_refs_iff)
  then show ?thesis by (simp add: scan_lossless)
qed

lemma strict_defined:
  assumes "find (\<lambda>(key, _). map_of constants key = None) (iter_refs s) = None"
  shows "fst ` set (iter_refs s) \<subseteq> dom (map_of constants)"
  using assms by (auto simp: find_None_iff)

lemma strict_replaced:
  assumes "find (\<lambda>(key, _). map_of constants key = None) (iter_refs s) = None"
  shows "substitute s (map_of constants) =
    concat (map (\<lambda>p. case p of Plain c \<Rightarrow> [c] | Ref k _ \<Rightarrow> the (map_of constants k)) (scan_refs s))"
proof -
  have "Ref k lit \<in> set (scan_refs s) \<Longrightarrow> \<exists>v. map_of constants k = Some v" for k lit
    using strict_defined[OF assms] by (force simp: iter_refs_iff[symmetric])
  then show ?thesis
    unfolding substitute_def
    by (intro arg_cong[where f = concat] map_cong refl) (fastforce split: piece.splits)
qed

lemma first_undefined:
  assumes "find (\<lambda>(key, _). map_of constants key = None) (iter_refs s) = Some (k, lit)"
  shows "\<exists>pre post. iter_refs s = pre @ (k, lit) # post \<and> fst ` set pre \<subseteq> dom (map_of constants) \<and>
    map_of constants k = None"
proof -
  obtain i where i: "i < length (iter_refs s)" "case iter_refs s ! i of (key, _) \<Rightarrow> map_of constants key = None"
    "(k, lit) = iter_refs s ! i" "\<forall>j<i. \<not> (case iter_refs s ! j of (key, _) \<Rightarrow> map_of constants key = None)"
    using find_Some_iff[THEN iffD1, OF assms] by (elim exE conjE) (rule that)
  have "iter_refs s = take i (iter_refs s) @ (k, lit) # drop (Suc i) (iter_refs s)"
    unfolding i(3) using i(1) by (rule id_take_nth_drop)
  moreover have "fst ` set (take i (iter_refs s)) \<subseteq> dom (map_of constants)"
  proof
    fix x assume "x \<in> fst ` set (take i (iter_refs s))"
    then obtain j where "j < i" "x = fst (iter_refs s ! j)" by (auto simp: in_set_conv_nth)
    then show "x \<in> dom (map_of constants)" using i(4) by (auto simp: case_prod_unfold)
  qed
  moreover have "map_of constants k = None" using i(2) unfolding i(3)[symmetric] by simp
  ultimately show ?thesis by (intro exI conjI)
qed

section \<open>Properties\<close>

text \<open>
  Interpolation touches references and nothing else: a text is the concatenation of its plain
  characters and its references, every reference is \<open>[#NAME]\<close> or \<open>#{NAME}\<close> with a non-empty name that does
  not contain the closing delimiter, a text none of whose names is defined is left as it is, and
  constants that agree on the names of a text give the same result.
\<close>

theorem interpolation_touches_references_only:
  "concat (map piece_text (scan_refs s)) = s \<and>
   (\<forall>k lit. (k, lit) \<in> set (iter_refs s) \<longrightarrow> k \<noteq> [] \<and> (lit = ''[#'' @ k @ '']'' \<or> lit = ''#{'' @ k @ ''}'')) \<and>
   ((\<forall>k lit. (k, lit) \<in> set (iter_refs s) \<longrightarrow> f k = None) \<longrightarrow> substitute s f = s) \<and>
   ((\<forall>k lit. (k, lit) \<in> set (iter_refs s) \<longrightarrow> f k = g k) \<longrightarrow> substitute s f = substitute s g)"
proof (intro conjI allI impI)
  show "concat (map piece_text (scan_refs s)) = s" by (rule scan_lossless)
next
  fix k lit assume "(k, lit) \<in> set (iter_refs s)"
  then show "k \<noteq> []" "lit = ''[#'' @ k @ '']'' \<or> lit = ''#{'' @ k @ ''}''"
    using scan_ref_shape[of k lit s] by (auto simp: iter_refs_iff)
next
  assume "\<forall>k lit. (k, lit) \<in> set (iter_refs s) \<longrightarrow> f k = None"
  then show "substitute s f = s" by (intro substitute_none) blast
next
  assume "\<forall>k lit. (k, lit) \<in> set (iter_refs s) \<longrightarrow> f k = g k"
  then show "substitute s f = substitute s g" by (intro substitute_cong) blast
qed

theorem interpolation_touches_references_only_witness:
  "iter_refs ''a [#b] ${c} #{d}'' = [(''b'', ''[#b]''), (''d'', ''#{d}'')] \<and>
   substitute ''a [#b] ${c} #{d}'' (\<lambda>_. None) = ''a [#b] ${c} #{d}''"
proof -
  have "iter_refs ''a [#b] ${c} #{d}'' = [(''b'', ''[#b]''), (''d'', ''#{d}'')]" by code_simp
  then show ?thesis
    using interpolation_touches_references_only[of "''a [#b] ${c} #{d}''" "\<lambda>_. None" "\<lambda>_. None"] by simp
qed

text \<open>
  The strict variant never sends an unresolved reference: it accepts a text exactly when every
  name it references is defined, and then every reference has been replaced by its constant; an
  error names the first undefined constant of the text.
\<close>

theorem strict_substitute_complete:
  "(case strict_substitute s constants of
      Inr t \<Rightarrow> fst ` set (iter_refs s) \<subseteq> dom (map_of constants) \<and>
        t = concat (map (\<lambda>p. case p of Plain c \<Rightarrow> [c] | Ref k _ \<Rightarrow> the (map_of constants k)) (scan_refs s))
    | Inl e \<Rightarrow> (\<exists>pre k lit post. iter_refs s = pre @ (k, lit) # post \<and> fst ` set pre \<subseteq> dom (map_of constants) \<and>
        map_of constants k = None \<and> e = ''undefined constant [#'' @ k @ '']''))"
proof (cases "find (\<lambda>(key, _). map_of constants key = None) (iter_refs s)")
  case None
  show ?thesis unfolding strict_substitute_def None option.case sum.case
    by (rule conjI[OF strict_defined[OF None] strict_replaced[OF None]])
next
  case (Some r)
  obtain k lit where r: "r = (k, lit)" by (cases r)
  show ?thesis unfolding strict_substitute_def Some r option.case prod.case sum.case
    using first_undefined[OF Some[unfolded r]] by blast
qed

end
