(* ===== verification/Dsl_Parser.thy ===== *)
theory Dsl_Parser
  imports Declaration Interpolate
begin

text \<open>
  The DSL parser (\<open>src/dsl/parser.rs\<close>): constants are substituted in the text, the YAML document is read
  as an ordered map of steps, every step is dispatched on its keys to the one variant it declares, and
  the steps and the declaration are validated. YAML text and the decoding of one struct are the serde
  libraries' and are in \<open>serde_params\<close>, one function per struct; which of them is called, on what, and
  what is checked before and after is the parser's and is modelled. \<open>parse_error\<close> has one constructor
  per message.
\<close>

section \<open>Documents\<close>

datatype yaml =
    YNull
  | YBool bool
  | YNumber number
  | YString string
  | YSequence "yaml list"
  | YMapping "(yaml \<times> yaml) list"
  | YTagged string yaml

datatype parse_error =
    NotAMapping string
  | ManyActions string "string list"
  | UnknownCall string string
  | NoDiscriminator string
  | NotJson string string
  | NotDecoded string string
  | FirstNRequired string
  | FirstNMisplaced string aggregate_mode
  | EarlyExitMisplaced string
  | RemainingMisplaced string
  | StatusRangeInverted string u16 u16
  | UnknownPeerMethod string string
  | DetachDoEmpty string
  | DetachZeroTimeout string
  | DetachReturns string
  | BadPosture posture_error
  | ProxyWithSteps "string list"
  | BadYaml string

record serde_params =
  yaml_document :: "string \<Rightarrow> string + (string \<times> yaml) list"
  to_json :: "yaml \<Rightarrow> string + json"
  as_declaration :: "json \<Rightarrow> string + declaration_step"
  as_http_mock :: "json \<Rightarrow> string + http_mock_step"
  as_http :: "json \<Rightarrow> string + http_step"
  as_template :: "json \<Rightarrow> string + template_step"
  as_assign :: "json \<Rightarrow> string + assign_step"
  as_return :: "json \<Rightarrow> string + return_step"
  as_switch :: "json \<Rightarrow> string + switch_step"
  as_log :: "json \<Rightarrow> string + log_step"
  as_state :: "json \<Rightarrow> string + state_step"
  as_iterate :: "json \<Rightarrow> string + (json \<times> string \<times> dsl_step list \<times> json option \<times> string option \<times>
    nat option \<times> string option \<times> base_step_fields)"
  as_parallel_http :: "json \<Rightarrow> string + parallel_http_step"
  as_detach :: "json \<Rightarrow> string + (dsl_step list \<times> u64 option \<times> string option \<times> base_step_fields)"
  as_ws_send :: "json \<Rightarrow> string + ws_send_step"
  as_ws_tag :: "json \<Rightarrow> string + ws_tag_step"
  as_single_flight :: "json \<Rightarrow> string + (string \<times> u64 \<times> dsl_step list \<times> string option \<times> string option \<times>
    base_step_fields)"

section \<open>Dispatch\<close>

datatype step_variant = VDeclaration | VHttpMock | VHttp | VTemplate | VAssign | VReturn | VSwitch | VLog
  | VState | VIterate | VParallelHttp | VDetach | VWsSend | VWsTag | VSingleFlight

definition key_present :: "(yaml \<times> yaml) list \<Rightarrow> string \<Rightarrow> bool" where
  "key_present m k \<longleftrightarrow> hm_contains m (YString k)"

definition str_field :: "(yaml \<times> yaml) list \<Rightarrow> string \<Rightarrow> string option" where
  "str_field m k = (case map_of m (YString k) of Some (YString s) \<Rightarrow> Some s | _ \<Rightarrow> None)"

definition DECLARATION_FIELDS :: "string list" where
  "DECLARATION_FIELDS = [''version'', ''description'', ''returns'', ''namespace'', ''allowed_body'',
     ''allowed_header'', ''allowed_params'', ''override_ancestors'', ''allowlist'', ''strict'', ''proxy'',
     ''internal'']"

definition CONTROL_FIELDS :: "string list" where
  "CONTROL_FIELDS = [''next'', ''skip'', ''sleep'', ''maxRecursions'', ''max_recursions'', ''reloadDsl'',
     ''reloadDsls'', ''reload_dsl'', ''reload_dsls'']"

definition present_actions :: "(yaml \<times> yaml) list \<Rightarrow> string list" where
  "present_actions m = filter (key_present m) ACTION_STEP_KEYS"

definition variant_hint :: "string \<Rightarrow> (yaml \<times> yaml) list \<Rightarrow> parse_error + step_variant" where
  "variant_hint name m =
     (case str_field m ''call'' of
        Some c \<Rightarrow>
          if c = ''declare'' then Inr VDeclaration
          else if c = ''reflect.mock'' then Inr VHttpMock
          else if starts_with c ''http.'' then Inr VHttp
          else Inl (UnknownCall name c)
      | None \<Rightarrow>
          if key_present m ''template'' then Inr VTemplate
          else if key_present m ''assign'' then Inr VAssign
          else if key_present m ''return'' then Inr VReturn
          else if key_present m ''switch'' then Inr VSwitch
          else if key_present m ''log'' then Inr VLog
          else if key_present m ''state'' then Inr VState
          else if key_present m ''iterate'' then Inr VIterate
          else if key_present m ''parallel_http'' then Inr VParallelHttp
          else if key_present m ''detach'' then Inr VDetach
          else if key_present m ''ws_send'' then Inr VWsSend
          else if key_present m ''ws_tag'' then Inr VWsTag
          else if key_present m ''single_flight'' then Inr VSingleFlight
          else if list_ex (key_present m) DECLARATION_FIELDS then Inr VDeclaration
          else if list_all (\<lambda>(k, _). case k of YString s \<Rightarrow> s \<in> set CONTROL_FIELDS | _ \<Rightarrow> False) m
          then Inr VDeclaration
          else Inl (NoDiscriminator name))"

section \<open>Validation\<close>

definition validate_parallel_http :: "string \<Rightarrow> parallel_http_body \<Rightarrow> parse_error + unit" where
  "validate_parallel_http name body =
     bindr (case ph_aggregate body of
        FirstN \<Rightarrow> ensure (ph_first_n body \<noteq> None \<and> ph_first_n body \<noteq> Some 0) (FirstNRequired name)
      | mode \<Rightarrow>
          bindr (ensure (ph_first_n body = None) (FirstNMisplaced name mode)) (\<lambda>_.
          bindr (ensure (ph_early_exit_on body = None) (EarlyExitMisplaced name)) (\<lambda>_.
          ensure (ph_remaining_peers_after body = None) (RemainingMisplaced name)))) (\<lambda>_.
     bindr (case Option.bind (ph_early_exit_on body) status_range of
        None \<Rightarrow> Inr ()
      | Some (lo, hi) \<Rightarrow> ensure (lo \<le> hi) (StatusRangeInverted name lo hi)) (\<lambda>_.
     ensure (ph_call body \<in> {''http.get'', ''http.post'', ''http.put'', ''http.patch'', ''http.delete''})
       (UnknownPeerMethod name (ph_call body))))"

definition is_return :: "dsl_step \<Rightarrow> bool" where
  "is_return s = (case s of Return _ \<Rightarrow> True | _ \<Rightarrow> False)"

definition validate_detach :: "string \<Rightarrow> dsl_step list \<Rightarrow> u64 option \<Rightarrow> parse_error + unit" where
  "validate_detach name body timeout_ms =
     bindr (ensure (body \<noteq> []) (DetachDoEmpty name)) (\<lambda>_.
     bindr (ensure (timeout_ms \<noteq> Some 0) (DetachZeroTimeout name)) (\<lambda>_.
     ensure (\<not> list_ex is_return body) (DetachReturns name)))"

section \<open>Parsing\<close>

definition decoded :: "string \<Rightarrow> ('a \<Rightarrow> dsl_step) \<Rightarrow> string + 'a \<Rightarrow> parse_error + dsl_step" where
  "decoded name f r = (case r of Inl e \<Rightarrow> Inl (NotDecoded name e) | Inr x \<Rightarrow> Inr (f x))"

definition decode_step :: "serde_params \<Rightarrow> string \<Rightarrow> step_variant \<Rightarrow> json \<Rightarrow> parse_error + dsl_step" where
  "decode_step P name v j =
     (case v of
        VDeclaration \<Rightarrow> decoded name Declaration (as_declaration P j)
      | VHttpMock \<Rightarrow> decoded name HttpMock (as_http_mock P j)
      | VHttp \<Rightarrow> decoded name HttpCall (as_http P j)
      | VTemplate \<Rightarrow> decoded name Template (as_template P j)
      | VAssign \<Rightarrow> decoded name Assign (as_assign P j)
      | VReturn \<Rightarrow> decoded name Return (as_return P j)
      | VSwitch \<Rightarrow> decoded name Switch (as_switch P j)
      | VLog \<Rightarrow> decoded name Log (as_log P j)
      | VState \<Rightarrow> decoded name State (as_state P j)
      | VIterate \<Rightarrow> decoded name (\<lambda>(ov, a, d, c, i, mx, n, b). Iterate ov a d c i mx n b) (as_iterate P j)
      | VParallelHttp \<Rightarrow>
          (case as_parallel_http P j of
             Inl e \<Rightarrow> Inl (NotDecoded name e)
           | Inr p \<Rightarrow> bindr (validate_parallel_http name (ph_body p)) (\<lambda>_. Inr (ParallelHttp p)))
      | VDetach \<Rightarrow>
          (case as_detach P j of
             Inl e \<Rightarrow> Inl (NotDecoded name e)
           | Inr (d, t, n, b) \<Rightarrow> bindr (validate_detach name d t) (\<lambda>_. Inr (Detach d t n b)))
      | VWsSend \<Rightarrow> decoded name WsSend (as_ws_send P j)
      | VWsTag \<Rightarrow> decoded name WsTag (as_ws_tag P j)
      | VSingleFlight \<Rightarrow> decoded name (\<lambda>(k, t, d, r, n, b). SingleFlight k t d r n b) (as_single_flight P j))"

definition parse_step :: "serde_params \<Rightarrow> string \<Rightarrow> yaml \<Rightarrow> parse_error + dsl_step" where
  "parse_step P name v =
     (case v of
        YMapping m \<Rightarrow>
          bindr (ensure (length (present_actions m) \<le> 1) (ManyActions name (present_actions m))) (\<lambda>_.
          bindr (variant_hint name m) (\<lambda>hint.
            case to_json P v of
              Inl e \<Rightarrow> Inl (NotJson name e)
            | Inr j \<Rightarrow> decode_step P name hint j))
      | _ \<Rightarrow> Inl (NotAMapping name))"

fun parse_steps ::
  "serde_params \<Rightarrow> (string \<times> yaml) list \<Rightarrow> (string \<times> dsl_step) list \<Rightarrow> parse_error + (string \<times> dsl_step) list" where
  "parse_steps P [] steps = Inr steps"
| "parse_steps P ((name, v) # rest) steps =
     bindr (parse_step P name v) (\<lambda>s. parse_steps P rest (hm_insert name s steps))"

definition replace_constants :: "string hmap \<Rightarrow> string \<Rightarrow> string" where
  "replace_constants constants content = substitute content (map_of constants)"

definition is_declaration :: "dsl_step \<Rightarrow> bool" where
  "is_declaration s = (case s of Declaration _ \<Rightarrow> True | _ \<Rightarrow> False)"

definition parse_content :: "serde_params \<Rightarrow> string hmap \<Rightarrow> string \<Rightarrow> parse_error + dsl" where
  "parse_content P constants content =
     (case yaml_document P (replace_constants constants content) of
        Inl e \<Rightarrow> Inl (BadYaml e)
      | Inr doc \<Rightarrow>
          bindr (parse_steps P doc []) (\<lambda>steps.
            let d = dsl_new steps in
            case dsl_declaration d of
              None \<Rightarrow> Inr d
            | Some decl \<Rightarrow>
                (case validate_posture decl of
                   Inl e \<Rightarrow> Inl (BadPosture e)
                 | Inr _ \<Rightarrow>
                     let action_steps = map fst (filter (\<lambda>(_, s). \<not> is_declaration s) steps) in
                     if proxy decl \<noteq> None \<and> action_steps \<noteq> [] then Inl (ProxyWithSteps action_steps)
                     else Inr d)))"

section \<open>What a parsed DSL satisfies\<close>

fun variant_of :: "dsl_step \<Rightarrow> step_variant" where
  "variant_of (Assign _) = VAssign"
| "variant_of (Return _) = VReturn"
| "variant_of (HttpCall _) = VHttp"
| "variant_of (HttpMock _) = VHttpMock"
| "variant_of (Switch _) = VSwitch"
| "variant_of (Log _) = VLog"
| "variant_of (Template _) = VTemplate"
| "variant_of (State _) = VState"
| "variant_of (Iterate _ _ _ _ _ _ _ _) = VIterate"
| "variant_of (ParallelHttp _) = VParallelHttp"
| "variant_of (Detach _ _ _ _) = VDetach"
| "variant_of (WsSend _) = VWsSend"
| "variant_of (WsTag _) = VWsTag"
| "variant_of (SingleFlight _ _ _ _ _ _) = VSingleFlight"
| "variant_of (Declaration _) = VDeclaration"

text \<open>The variant each action key stands for, when it is the only one; \<open>call\<close> has three.\<close>

definition action_variants :: "string \<Rightarrow> step_variant set" where
  "action_variants k = (case map_of
     [(''assign'', {VAssign}), (''call'', {VDeclaration, VHttpMock, VHttp}), (''detach'', {VDetach}), (''iterate'', {VIterate}), (''log'', {VLog}),
      (''parallel_http'', {VParallelHttp}), (''return'', {VReturn}), (''single_flight'', {VSingleFlight}),
      (''state'', {VState}), (''switch'', {VSwitch}), (''template'', {VTemplate}), (''ws_send'', {VWsSend}),
      (''ws_tag'', {VWsTag})] k of None \<Rightarrow> {} | Some vs \<Rightarrow> vs)"

text \<open>The checks on one step, as the executors of \<open>Steps\<close> rely on them.\<close>

fun step_valid :: "dsl_step \<Rightarrow> bool" where
  "step_valid (ParallelHttp p) \<longleftrightarrow>
     (case ph_aggregate (ph_body p) of
        FirstN \<Rightarrow> (\<exists>n. ph_first_n (ph_body p) = Some n \<and> 0 < n)
      | _ \<Rightarrow> ph_first_n (ph_body p) = None \<and> ph_early_exit_on (ph_body p) = None \<and>
          ph_remaining_peers_after (ph_body p) = None) \<and>
     ph_call (ph_body p) \<in> {''http.get'', ''http.post'', ''http.put'', ''http.patch'', ''http.delete''}"
| "step_valid (Detach body timeout _ _) \<longleftrightarrow> body \<noteq> [] \<and> timeout \<noteq> Some 0 \<and> \<not> list_ex is_return body"
| "step_valid _ \<longleftrightarrow> True"

lemma decoded_Inr: "decoded name f r = Inr s \<longleftrightarrow> (\<exists>x. r = Inr x \<and> s = f x)"
  by (cases r) (auto simp: decoded_def)

lemma validate_parallel_ok:
  "validate_parallel_http name (ph_body p) = Inr u \<Longrightarrow> step_valid (ParallelHttp p)"
  by (cases "ph_aggregate (ph_body p)") (auto simp: validate_parallel_http_def bindr_Inr_iff word_neq_0_conv)

lemma validate_detach_ok: "validate_detach name d t = Inr u \<Longrightarrow> step_valid (Detach d t n b)"
  by (auto simp: validate_detach_def bindr_Inr_iff)

lemma decode_step_ok:
  assumes "decode_step P name v j = Inr s"
  shows "variant_of s = v" "step_valid s"
  using assms
  by (cases v; auto simp: decode_step_def decoded_Inr bindr_Inr_iff split: sum.splits
      dest: validate_parallel_ok validate_detach_ok)+

lemma parse_step_ok:
  assumes "parse_step P name v = Inr s"
  obtains m where "v = YMapping m" "length (present_actions m) \<le> 1" "variant_hint name m = Inr (variant_of s)"
    "step_valid s"
proof -
  obtain m where m: "v = YMapping m" using assms by (cases v) (auto simp: parse_step_def)
  then obtain hint j where "length (present_actions m) \<le> 1" "variant_hint name m = Inr hint"
    "decode_step P name hint j = Inr s"
    using assms by (cases "to_json P (YMapping m)") (auto simp: parse_step_def bindr_Inr_iff)
  then show thesis using that m decode_step_ok by metis
qed

lemma parse_steps_ok:
  assumes "parse_steps P doc acc = Inr steps" "distinct (map fst acc)" "\<forall>(n, s) \<in> set acc. step_valid s"
  shows "distinct (map fst steps) \<and> (\<forall>(n, s) \<in> set steps. step_valid s)"
  using assms
proof (induction P doc acc rule: parse_steps.induct)
  case (2 P name v rest acc)
  then obtain s where s: "parse_step P name v = Inr s" "parse_steps P rest (hm_insert name s acc) = Inr steps"
    by (auto simp: bindr_Inr_iff)
  have "step_valid s" using parse_step_ok[OF s(1)] by blast
  then have "\<forall>(n, t) \<in> set (hm_insert name s acc). step_valid t"
    using 2(4) by (induction acc) auto
  then show ?case using 2(1)[OF s(2)] 2(3) by (simp add: distinct_update)
qed simp

text \<open>Which key a dispatched variant answers to.\<close>

lemma action_key_present: "k \<in> set (present_actions m) \<longleftrightarrow> k \<in> set ACTION_STEP_KEYS \<and> key_present m k"
  by (auto simp: present_actions_def)

lemma str_field_present: "str_field m k = Some c \<Longrightarrow> key_present m k"
  by (auto simp: str_field_def key_present_def hm_contains_def split: option.splits)

lemma action_variants_simps [simp]:
  "action_variants ''template'' = {VTemplate}" "action_variants ''assign'' = {VAssign}" "action_variants ''return'' = {VReturn}"
  "action_variants ''switch'' = {VSwitch}" "action_variants ''log'' = {VLog}" "action_variants ''state'' = {VState}"
  "action_variants ''iterate'' = {VIterate}" "action_variants ''parallel_http'' = {VParallelHttp}"
  "action_variants ''detach'' = {VDetach}" "action_variants ''ws_send'' = {VWsSend}" "action_variants ''ws_tag'' = {VWsTag}"
  "action_variants ''single_flight'' = {VSingleFlight}" "action_variants ''call'' = {VDeclaration, VHttpMock, VHttp}"
  by (simp_all add: action_variants_def)

lemma action_key_cases:
  "k \<in> set ACTION_STEP_KEYS \<longleftrightarrow> k = ''call'' \<or> k = ''template'' \<or> k = ''assign'' \<or> k = ''return'' \<or> k = ''switch'' \<or> k = ''log'' \<or>
     k = ''state'' \<or> k = ''iterate'' \<or> k = ''parallel_http'' \<or> k = ''detach'' \<or> k = ''ws_send'' \<or> k = ''ws_tag'' \<or>
     k = ''single_flight''"
  unfolding ACTION_STEP_KEYS_def by auto

lemma hint_key:
  assumes "variant_hint name m = Inr v"
  shows "v = VDeclaration \<and> set (present_actions m) \<subseteq> {''call''} \<or> (\<exists>k \<in> set (present_actions m). v \<in> action_variants k)"
proof (cases "str_field m ''call''")
  case (Some c)
  then have "''call'' \<in> set (present_actions m)"
    by (simp add: action_key_present str_field_present ACTION_STEP_KEYS_def)
  moreover have "v \<in> action_variants ''call''"
    using assms Some by (auto simp: variant_hint_def action_variants_def split: if_splits)
  ultimately show ?thesis by blast
next
  case None
  have key: "\<exists>k \<in> set (present_actions m). v \<in> action_variants k"
    if "key_present m k" "k \<in> set ACTION_STEP_KEYS" "v \<in> action_variants k" for k
    using that by (auto simp: action_key_present)
  note other = key[of "''template''"] key[of "''assign''"] key[of "''return''"] key[of "''switch''"] key[of "''log''"]
    key[of "''state''"] key[of "''iterate''"] key[of "''parallel_http''"] key[of "''detach''"] key[of "''ws_send''"]
    key[of "''ws_tag''"] key[of "''single_flight''"]
  show ?thesis
  proof (cases "\<exists>k \<in> set (present_actions m). k \<noteq> ''call''")
    case True
    then obtain k where "k \<in> set ACTION_STEP_KEYS" "k \<noteq> ''call''" "key_present m k" by (auto simp: action_key_present)
    then have "\<exists>k \<in> set (present_actions m). v \<in> action_variants k"
      using assms None other by (auto simp: variant_hint_def action_key_cases split: if_splits)
    then show ?thesis by simp
  next
    case False
    then have absent: "\<not> key_present m k" if "k \<in> set ACTION_STEP_KEYS" "k \<noteq> ''call''" for k
      using that by (auto simp: action_key_present)
    then have "v = VDeclaration"
      using assms None by (auto simp: variant_hint_def action_key_cases split: if_splits)
    then show ?thesis using False by auto
  qed
qed

lemma single_action:
  assumes "parse_step P name v = Inr s"
  obtains m where "v = YMapping m"
    "case present_actions m of [] \<Rightarrow> variant_of s = VDeclaration | [k] \<Rightarrow> variant_of s \<in> action_variants k | _ \<Rightarrow> False"
proof -
  obtain m where m: "v = YMapping m" "length (present_actions m) \<le> 1" "variant_hint name m = Inr (variant_of s)"
    using parse_step_ok[OF assms] by blast
  show thesis
  proof (rule that[OF m(1)])
    from m(2) consider "present_actions m = []" | k where "present_actions m = [k]"
      by (cases "present_actions m") auto
    then show "case present_actions m of [] \<Rightarrow> variant_of s = VDeclaration
        | [k] \<Rightarrow> variant_of s \<in> action_variants k | _ \<Rightarrow> False"
      using hint_key[OF m(3)] by cases auto
  qed
qed

lemma parse_content_ok:
  assumes "parse_content P constants content = Inr d"
  obtains doc steps where "yaml_document P (replace_constants constants content) = Inr doc"
    "parse_steps P doc [] = Inr steps" "d = dsl_new steps"
    "\<And>decl. dsl_declaration d = Some decl \<Longrightarrow> validate_posture decl = Inr () \<and>
       (proxy decl \<noteq> None \<longrightarrow> (\<forall>(n, s) \<in> set steps. is_declaration s))"
proof -
  obtain doc where doc: "yaml_document P (replace_constants constants content) = Inr doc"
    using assms by (cases "yaml_document P (replace_constants constants content)") (auto simp: parse_content_def)
  obtain steps where steps: "parse_steps P doc [] = Inr steps"
    using assms doc by (auto simp: parse_content_def bindr_Inr_iff)
  have d: "d = dsl_new steps"
    using assms doc steps by (auto simp: parse_content_def Let_def split: option.splits sum.splits if_splits)
  have "validate_posture decl = Inr () \<and> (proxy decl \<noteq> None \<longrightarrow> (\<forall>(n, s) \<in> set steps. is_declaration s))"
    if "dsl_declaration d = Some decl" for decl
    using assms doc steps that unfolding d
    by (cases "validate_posture decl") (auto simp: parse_content_def Let_def filter_empty_conv split: if_splits)
  then show thesis using that doc steps d by blast
qed

definition dsl_valid :: "dsl \<Rightarrow> bool" where
  "dsl_valid d \<longleftrightarrow> distinct (step_names d) \<and> (\<forall>(n, s) \<in> set (dsl_steps d). step_valid s) \<and>
    dsl_declaration d = find_declaration (dsl_steps d) \<and>
    (\<forall>decl. dsl_declaration d = Some decl \<longrightarrow> validate_posture decl = Inr () \<and>
       (proxy decl \<noteq> None \<longrightarrow> (\<forall>(n, s) \<in> set (dsl_steps d). is_declaration s)))"

lemma parse_content_valid:
  assumes "parse_content P constants content = Inr d"
  shows "dsl_valid d"
proof -
  obtain doc steps where p: "parse_steps P doc [] = Inr steps" "d = dsl_new steps"
    and decl: "\<And>decl. dsl_declaration d = Some decl \<Longrightarrow> validate_posture decl = Inr () \<and>
       (proxy decl \<noteq> None \<longrightarrow> (\<forall>(n, s) \<in> set steps. is_declaration s))"
    using parse_content_ok[OF assms] by metis
  have "distinct (map fst steps) \<and> (\<forall>(n, s) \<in> set steps. step_valid s)"
    by (rule parse_steps_ok[OF p(1)]) simp_all
  moreover have "dsl_steps d = steps" "dsl_declaration d = find_declaration steps"
    using p(2) by (simp_all add: dsl_new_def)
  ultimately show ?thesis using decl by (simp add: dsl_valid_def step_names_def)
qed

section \<open>A small document\<close>

definition plain_return :: return_step where
  "plain_return = \<lparr>rs_return_value = JString ''hi'', rs_status = None, rs_headers = None, rs_wrapper = None, rs_next = None,
     rs_base = \<lparr>skip = None, sleep = None, max_recursions = None, reload_dsl = None\<rparr>\<rparr>"

definition hello_yaml :: yaml where
  "hello_yaml = YMapping [(YString ''return'', YString ''hi'')]"

definition sample_serde :: serde_params where
  "sample_serde = \<lparr>yaml_document = \<lambda>_. Inr [(''hello'', hello_yaml)], to_json = \<lambda>_. Inr JNull,
     as_declaration = \<lambda>_. Inl [], as_http_mock = \<lambda>_. Inl [], as_http = \<lambda>_. Inl [], as_template = \<lambda>_. Inl [],
     as_assign = \<lambda>_. Inl [], as_return = \<lambda>_. Inr plain_return, as_switch = \<lambda>_. Inl [], as_log = \<lambda>_. Inl [],
     as_state = \<lambda>_. Inl [], as_iterate = \<lambda>_. Inl [], as_parallel_http = \<lambda>_. Inl [], as_detach = \<lambda>_. Inl [],
     as_ws_send = \<lambda>_. Inl [], as_ws_tag = \<lambda>_. Inl [], as_single_flight = \<lambda>_. Inl []\<rparr>"

lemma hello_actions: "present_actions [(YString ''return'', YString ''hi'')] = [''return'']"
  by (simp add: present_actions_def key_present_def ACTION_STEP_KEYS_def)

lemma parse_hello: "parse_step sample_serde ''hello'' hello_yaml = Inr (Return plain_return)"
  by (simp add: parse_step_def hello_yaml_def hello_actions variant_hint_def str_field_def key_present_def
      sample_serde_def decode_step_def decoded_def ensure_def)

lemma parse_hello_content: "parse_content sample_serde constants text = Inr (dsl_new [(''hello'', Return plain_return)])"
  using parse_hello by (simp add: parse_content_def sample_serde_def dsl_new_def)

section \<open>Properties\<close>

text \<open>
  A step does exactly the action it names: a step that parses declares at most one action key; with
  one, the step that runs is of that action's kind (for \<open>call\<close>: an HTTP call, a mock or a declaration),
  and with none it is a declaration. No action key is dropped in favour of another.
\<close>

theorem one_action_per_step:
  assumes "parse_step P name (YMapping m) = Inr s"
  shows "case present_actions m of [] \<Rightarrow> variant_of s = VDeclaration
    | [k] \<Rightarrow> variant_of s \<in> action_variants k | _ \<Rightarrow> False"
  using single_action[OF assms] by blast

theorem one_action_per_step_witness:
  "present_actions [(YString ''return'', YString ''hi'')] = [''return''] \<and> variant_of (Return plain_return) \<in> action_variants ''return''"
  using one_action_per_step[OF parse_hello[unfolded hello_yaml_def]] hello_actions by simp

end
