(* ===== verification/Sources.thy ===== *)
theory Sources
  imports Ws_Session Interpolate
begin

text \<open>
  Event sources and triggers (\<open>src/triggers/mod.rs\<close>, \<open>src/sources/config.rs\<close>, \<open>src/sources/ws.rs\<close>): a source
  connects to an upstream WebSocket, derives a channel and a key from every message and dispatches it
  to the trigger DSL of that channel and key.

  A connection is the list of what happens on it, as for the inbound sessions; the messages written to
  the upstream are collected in order. Connecting, header syntax and JSON text are the libraries' and
  are in \<open>source_params\<close>. Delays are requested delays: the random jitter is applied on top of them.
\<close>

section \<open>Triggers\<close>

type_synonym trigger_dsls = "((string \<times> string) \<times> dsl hmap) list"

definition DEFAULT_KEY :: string where
  "DEFAULT_KEY = ''_default''"

definition find_trigger :: "trigger_dsls \<Rightarrow> string \<Rightarrow> string \<Rightarrow> string \<Rightarrow> dsl option" where
  "find_trigger triggers project channel key =
     Option.bind (map_of triggers (project, channel)) (\<lambda>per_key.
       case map_of per_key key of Some d \<Rightarrow> Some d | None \<Rightarrow> map_of per_key DEFAULT_KEY)"

definition trigger_context :: "string \<Rightarrow> string \<Rightarrow> json \<Rightarrow> execution_context" where
  "trigger_context project channel payload =
     ctx_with_state (case payload of JObject m \<Rightarrow> m | other \<Rightarrow> [(''value'', other)]) [] [] channel project"

text \<open>\<open>Inr True\<close>: a DSL ran; \<open>Inr False\<close>: none matched; \<open>Inl\<close>: the DSL failed.\<close>

definition dispatch ::
  "trigger_dsls \<Rightarrow> runner \<Rightarrow> string \<Rightarrow> string \<Rightarrow> string \<Rightarrow> json \<Rightarrow> world \<Rightarrow> (bool result \<times> world) option" where
  "dispatch triggers run project channel key payload w =
     (case find_trigger triggers project channel key of
        None \<Rightarrow> Some (Inr False, w)
      | Some d \<Rightarrow>
          map_option (\<lambda>(r, _, w'). (case r of Inr _ \<Rightarrow> Inr True | Inl e \<Rightarrow> Inl e, w'))
            (run d (trigger_context project channel payload) w))"

section \<open>Configuration\<close>

record reconnect_policy =
  initial_backoff_ms :: u64
  max_backoff_ms :: u64
  jitter :: bool

definition default_reconnect :: reconnect_policy where
  "default_reconnect = \<lparr>initial_backoff_ms = 500, max_backoff_ms = 60000, jitter = True\<rparr>"

record ws_source_config =
  src_url :: string
  src_headers :: "string hmap"
  on_connect :: "json list"
  dispatch_channel :: string
  dispatch_key :: string
  reconnect :: reconnect_policy

record source_params =
  show_json :: "json \<Rightarrow> string"
  parse_message :: "string \<Rightarrow> json option"
  message_utf8 :: "string \<Rightarrow> bool"
  upgrade_ok :: "string \<Rightarrow> string hmap \<Rightarrow> bool"

definition sub :: "string hmap \<Rightarrow> string \<Rightarrow> string result" where
  "sub constants s = (case strict_substitute s constants of Inl e \<Rightarrow> Inl (Config (Text e)) | Inr t \<Rightarrow> Inr t)"

fun sub_value :: "string hmap \<Rightarrow> json \<Rightarrow> json result"
and sub_items :: "string hmap \<Rightarrow> json list \<Rightarrow> json list result"
and sub_fields :: "string hmap \<Rightarrow> (string \<times> json) list \<Rightarrow> (string \<times> json) list result" where
  "sub_value K (JString s) = bindr (sub K s) (\<lambda>t. Inr (JString t))"
| "sub_value K (JArray xs) = bindr (sub_items K xs) (\<lambda>ys. Inr (JArray ys))"
| "sub_value K (JObject m) = bindr (sub_fields K m) (\<lambda>n. Inr (JObject n))"
| "sub_value K JNull = Inr JNull"
| "sub_value K (JBool b) = Inr (JBool b)"
| "sub_value K (JNumber n) = Inr (JNumber n)"
| "sub_items K [] = Inr []"
| "sub_items K (x # xs) = bindr (sub_value K x) (\<lambda>y. bindr (sub_items K xs) (\<lambda>ys. Inr (y # ys)))"
| "sub_fields K [] = Inr []"
| "sub_fields K ((k, v) # m) = bindr (sub_value K v) (\<lambda>x. bindr (sub_fields K m) (\<lambda>n. Inr ((k, x) # n)))"

fun sub_headers :: "string hmap \<Rightarrow> (string \<times> string) list \<Rightarrow> string hmap \<Rightarrow> string hmap result" where
  "sub_headers K [] out = Inr out"
| "sub_headers K ((k, v) # rest) out =
     bindr (sub K k) (\<lambda>kk. bindr (sub K v) (\<lambda>vv. sub_headers K rest (hm_insert kk vv out)))"

definition resolve_constants :: "ws_source_config \<Rightarrow> string hmap \<Rightarrow> ws_source_config result" where
  "resolve_constants cfg constants =
     bindr (sub constants (src_url cfg)) (\<lambda>url.
     bindr (sub constants (dispatch_channel cfg)) (\<lambda>channel.
     bindr (sub constants (dispatch_key cfg)) (\<lambda>key.
     bindr (sub_headers constants (src_headers cfg) []) (\<lambda>headers.
     bindr (sub_items constants (on_connect cfg)) (\<lambda>actions.
       Inr (cfg\<lparr>src_url := url, dispatch_channel := channel, dispatch_key := key, src_headers := headers,
         on_connect := actions\<rparr>))))))"

fun follow :: "json \<Rightarrow> string list \<Rightarrow> json option" where
  "follow cur [] = Some cur"
| "follow cur (seg # segs) =
     (case cur of JObject m \<Rightarrow> Option.bind (map_of m seg) (\<lambda>v. follow v segs) | _ \<Rightarrow> None)"

definition extract_path :: "source_params \<Rightarrow> json \<Rightarrow> string \<Rightarrow> string option" where
  "extract_path P payload expr =
     Option.bind (strip_prefix ''$.'' expr) (\<lambda>path.
       map_option (\<lambda>v. case v of
           JString s \<Rightarrow> s
         | JBool b \<Rightarrow> (if b then ''true'' else ''false'')
         | JNull \<Rightarrow> ''null''
         | other \<Rightarrow> show_json P other) (follow payload (split_on CHR ''.'' path)))"

section \<open>One connection\<close>

fun handle_messages ::
  "source_params \<Rightarrow> trigger_dsls \<Rightarrow> runner \<Rightarrow> string \<Rightarrow> string \<Rightarrow> string \<Rightarrow> json list \<Rightarrow> world \<Rightarrow> world option" where
  "handle_messages P triggers run project channel_expr key_expr [] w = Some w"
| "handle_messages P triggers run project channel_expr key_expr (msg # msgs) w =
     (case extract_path P msg channel_expr of
        None \<Rightarrow> handle_messages P triggers run project channel_expr key_expr msgs w
      | Some channel \<Rightarrow>
          if channel = [] then handle_messages P triggers run project channel_expr key_expr msgs w
          else (case dispatch triggers run project channel (opt_or (extract_path P msg key_expr) []) msg w of
                  None \<Rightarrow> None
                | Some (_, w') \<Rightarrow> handle_messages P triggers run project channel_expr key_expr msgs w'))"

text \<open>A frame may carry one message or an array of them; a frame that is no JSON is dropped.\<close>

definition handle_text ::
  "source_params \<Rightarrow> trigger_dsls \<Rightarrow> runner \<Rightarrow> string \<Rightarrow> ws_source_config \<Rightarrow> string \<Rightarrow> world \<Rightarrow> world option" where
  "handle_text P triggers run project cfg t w =
     (case parse_message P t of
        None \<Rightarrow> Some w
      | Some value \<Rightarrow>
          handle_messages P triggers run project (dispatch_channel cfg) (dispatch_key cfg)
            (case value of JArray arr \<Rightarrow> arr | other \<Rightarrow> [other]) w)"

datatype source_event = SrcText string | SrcBinary string | SrcPing string | SrcClose | SrcOther
  | SrcError | SrcWriter | SrcMeanwhile "world \<Rightarrow> world"

datatype out_frame = OutText string | OutPong string

text \<open>The read loop: whether it ended cleanly, the frames queued for the upstream, the world.\<close>

fun drain ::
  "source_params \<Rightarrow> trigger_dsls \<Rightarrow> runner \<Rightarrow> string \<Rightarrow> string \<Rightarrow> ws_source_config \<Rightarrow> source_event list \<Rightarrow>
   out_frame list \<Rightarrow> world \<Rightarrow> (bool \<times> out_frame list \<times> world) option" where
  "drain P triggers run project cid cfg [] out w = Some (True, out, w)"
| "drain P triggers run project cid cfg (ev # evs) out w =
     (case ev of
        SrcText t \<Rightarrow> Option.bind (handle_text P triggers run project cfg t w)
          (drain P triggers run project cid cfg evs out)
      | SrcBinary b \<Rightarrow>
          if message_utf8 P b
          then Option.bind (handle_text P triggers run project cfg b w) (drain P triggers run project cid cfg evs out)
          else drain P triggers run project cid cfg evs out w
      | SrcPing p \<Rightarrow> drain P triggers run project cid cfg evs (out @ [OutPong p]) w
      | SrcClose \<Rightarrow> Some (True, out, w)
      | SrcOther \<Rightarrow> drain P triggers run project cid cfg evs out w
      | SrcError \<Rightarrow> Some (False, out, w)
      | SrcWriter \<Rightarrow> drain P triggers run project cid cfg evs out (w\<lparr>ws_reg := snd (writer_recv cid (ws_reg w))\<rparr>)
      | SrcMeanwhile g \<Rightarrow> drain P triggers run project cid cfg evs out (g w))"

text \<open>\<open>wire\<close>: the events of the connection, or \<open>None\<close> when connecting fails.\<close>

definition connect_and_drain ::
  "source_params \<Rightarrow> trigger_dsls \<Rightarrow> runner \<Rightarrow> string \<Rightarrow> string \<Rightarrow> ws_source_config \<Rightarrow> source_event list option \<Rightarrow>
   world \<Rightarrow> (bool \<times> out_frame list \<times> world) option" where
  "connect_and_drain P triggers run project name cfg wire w =
     (case wire of
        None \<Rightarrow> Some (False, [], w)
      | Some evs \<Rightarrow>
          if \<not> upgrade_ok P (src_url cfg) (src_headers cfg) then Some (False, [], w)
          else
            let cid = source_id project name;
                w1 = w\<lparr>ws_reg := ws_register cid (bounded_sender DEFAULT_OUTBOUND_QUEUE_CAPACITY) (ws_reg w)\<rparr>
            in map_option (\<lambda>(ok, out, w2). (ok, out, w2\<lparr>ws_reg := ws_unregister cid (ws_reg w2)\<rparr>))
                 (drain P triggers run project cid cfg evs (map (\<lambda>v. OutText (show_json P v)) (on_connect cfg)) w1))"

text \<open>After an attempt: the delay requested before the next one, and the backoff kept for later.\<close>

definition after_attempt :: "reconnect_policy \<Rightarrow> bool \<Rightarrow> u64 \<Rightarrow> u64 \<times> u64" where
  "after_attempt policy clean backoff_ms =
     (let b = (if clean then initial_backoff_ms policy else backoff_ms)
      in (b, min (b * 2) (max_backoff_ms policy)))"

fun source_run ::
  "source_params \<Rightarrow> trigger_dsls \<Rightarrow> runner \<Rightarrow> string \<Rightarrow> string \<Rightarrow> ws_source_config \<Rightarrow> u64 \<Rightarrow>
   source_event list option list \<Rightarrow> world \<Rightarrow> (u64 list \<times> world) option" where
  "source_run P triggers run project name cfg backoff_ms [] w = Some ([], w)"
| "source_run P triggers run project name cfg backoff_ms (a # attempts) w =
     (case connect_and_drain P triggers run project name cfg a w of
        None \<Rightarrow> None
      | Some (clean, _, w') \<Rightarrow>
          (case after_attempt (reconnect cfg) clean backoff_ms of
             (delay, backoff') \<Rightarrow>
               map_option (\<lambda>(ds, w2). (delay # ds, w2))
                 (source_run P triggers run project name cfg backoff' attempts w')))"

section \<open>What a connection keeps\<close>

lemma connection_opened:
  assumes "connect_and_drain P triggers run p name cfg (Some evs) w = Some (ok, out, w')"
    and "upgrade_ok P (src_url cfg) (src_headers cfg)"
  obtains w2 where
    "drain P triggers run p (source_id p name) cfg evs (map (\<lambda>v. OutText (show_json P v)) (on_connect cfg))
       (w\<lparr>ws_reg := ws_register (source_id p name) (bounded_sender DEFAULT_OUTBOUND_QUEUE_CAPACITY) (ws_reg w)\<rparr>) =
     Some (ok, out, w2)"
    "w' = w2\<lparr>ws_reg := ws_unregister (source_id p name) (ws_reg w2)\<rparr>"
proof -
  let ?d = "drain P triggers run p (source_id p name) cfg evs (map (\<lambda>v. OutText (show_json P v)) (on_connect cfg))
       (w\<lparr>ws_reg := ws_register (source_id p name) (bounded_sender DEFAULT_OUTBOUND_QUEUE_CAPACITY) (ws_reg w)\<rparr>)"
  have "map_option (\<lambda>(ok, out, w2). (ok, out, w2\<lparr>ws_reg := ws_unregister (source_id p name) (ws_reg w2)\<rparr>)) ?d = Some (ok, out, w')"
    using assms by (simp only: connect_and_drain_def Let_def option.case if_False not_True_eq_False)
  then show ?thesis using that by (cases ?d) auto
qed

lemma connection_refused:
  assumes "connect_and_drain P triggers run p name cfg wire w = Some (ok, out, w')"
    and "\<And>evs. wire = Some evs \<Longrightarrow> \<not> upgrade_ok P (src_url cfg) (src_headers cfg)"
  shows "\<not> ok" "out = []" "w' = w"
  using assms by (auto simp: connect_and_drain_def split: option.splits)

definition source_interference_ok :: "(world \<Rightarrow> world \<Rightarrow> bool) \<Rightarrow> source_event list \<Rightarrow> bool" where
  "source_interference_ok Q evs \<longleftrightarrow> (\<forall>g w. SrcMeanwhile g \<in> set evs \<longrightarrow> Q w (g w))"

context reader_relation
begin

lemma dispatch_keeps:
  "dispatch triggers (engine_run n E) p channel key msg w = Some (r, w') \<Longrightarrow> R p w w'"
  using run_keeps(2)
  by (fastforce simp: dispatch_def trigger_context_def ctx_with_state_def reflexive split: option.splits)

lemma messages_keep:
  "handle_messages P triggers (engine_run n E) p ce ke msgs w = Some w' \<Longrightarrow> R p w w'"
proof (induction msgs arbitrary: w)
  case (Cons msg msgs)
  show ?case
  proof (cases "extract_path P msg ce")
    case None
    then show ?thesis using Cons by simp
  next
    case (Some channel)
    show ?thesis
    proof (cases "channel = []")
      case True
      then show ?thesis using Cons Some by simp
    next
      case False
      then obtain r w1 where "dispatch triggers (engine_run n E) p channel (opt_or (extract_path P msg ke) []) msg w = Some (r, w1)"
        "handle_messages P triggers (engine_run n E) p ce ke msgs w1 = Some w'"
        using Cons.prems Some by (auto split: option.splits)
      then show ?thesis using dispatch_keeps Cons.IH transitive by blast
    qed
  qed
qed (simp add: reflexive)

lemma text_keeps: "handle_text P triggers (engine_run n E) p cfg t w = Some w' \<Longrightarrow> R p w w'"
  using messages_keep by (auto simp: handle_text_def reflexive split: option.splits)

lemma drain_keeps:
  assumes "source_interference_ok (R p) evs"
    and "drain P triggers (engine_run n E) p cid cfg evs out w = Some (ok, out', w')"
  shows "R p w w'"
  using assms
proof (induction evs arbitrary: out w)
  case (Cons ev evs)
  have ok: "source_interference_ok (R p) evs" using Cons.prems(1) by (simp add: source_interference_ok_def)
  note IH = Cons.IH[OF ok]
  have one: "R p w w1 \<Longrightarrow> drain P triggers (engine_run n E) p cid cfg evs out1 w1 = Some (ok, out', w') \<Longrightarrow> R p w w'" for w1 out1
    using IH transitive by blast
  show ?case
  proof (cases ev)
    case (SrcMeanwhile g)
    then have "R p w (g w)" using Cons.prems(1) by (auto simp: source_interference_ok_def)
    then show ?thesis using Cons.prems(2) SrcMeanwhile one by simp
  next
    case (SrcText t)
    then show ?thesis using Cons.prems(2) one[OF text_keeps] by (auto simp: bind_eq_Some_conv)
  next
    case (SrcBinary b)
    then show ?thesis using Cons.prems(2) one[OF text_keeps] IH by (cases "message_utf8 P b") (auto simp: bind_eq_Some_conv)
  next
    case SrcWriter
    then show ?thesis using Cons.prems(2) one[OF writer_law] by simp
  qed (use Cons.prems(2) IH in \<open>auto simp: reflexive\<close>)
qed (simp add: reflexive)

end

context session_relation
begin

lemma connection_keeps:
  assumes "\<And>evs. wire = Some evs \<Longrightarrow> source_interference_ok (R p) evs"
    and "connect_and_drain P triggers (engine_run n E) p name cfg wire w = Some (ok, out, w')"
  shows "R p w w'"
proof (cases "\<exists>evs. wire = Some evs \<and> upgrade_ok P (src_url cfg) (src_headers cfg)")
  case True
  then obtain evs where evs: "wire = Some evs" and up: "upgrade_ok P (src_url cfg) (src_headers cfg)" by blast
  obtain w2 where
    "drain P triggers (engine_run n E) p (source_id p name) cfg evs (map (\<lambda>v. OutText (show_json P v)) (on_connect cfg))
       (w\<lparr>ws_reg := ws_register (source_id p name) (bounded_sender DEFAULT_OUTBOUND_QUEUE_CAPACITY) (ws_reg w)\<rparr>) =
     Some (ok, out, w2)"
    and w': "w' = w2\<lparr>ws_reg := ws_unregister (source_id p name) (ws_reg w2)\<rparr>"
    by (rule connection_opened[OF assms(2)[unfolded evs] up])
  from drain_keeps[OF assms(1)[OF evs] this(1)] have "R p w w2" by (rule transitive[OF register_law])
  moreover have "R p w2 w'" unfolding w' by (rule unregister_law)
  ultimately show ?thesis by (rule transitive)
next
  case False
  then show ?thesis using connection_refused(3)[OF assms(2)] by (metis reflexive)
qed

end

section \<open>Delays\<close>

definition capped_delay :: "reconnect_policy \<Rightarrow> nat \<Rightarrow> nat" where
  "capped_delay policy k = min (unat (initial_backoff_ms policy) * 2 ^ k) (unat (max_backoff_ms policy))"

text \<open>The number of attempts since the last clean one, at each attempt, from \<open>k\<close> on.\<close>

fun failure_runs :: "nat \<Rightarrow> bool list \<Rightarrow> nat list" where
  "failure_runs k [] = []"
| "failure_runs k (clean # rest) = (let j = if clean then 0 else k in j # failure_runs (Suc j) rest)"

fun source_outcomes ::
  "source_params \<Rightarrow> trigger_dsls \<Rightarrow> runner \<Rightarrow> string \<Rightarrow> string \<Rightarrow> ws_source_config \<Rightarrow>
   source_event list option list \<Rightarrow> world \<Rightarrow> bool list" where
  "source_outcomes P triggers run project name cfg [] w = []"
| "source_outcomes P triggers run project name cfg (a # attempts) w =
     (case connect_and_drain P triggers run project name cfg a w of
        None \<Rightarrow> []
      | Some (clean, _, w') \<Rightarrow> clean # source_outcomes P triggers run project name cfg attempts w')"

lemma doubled_delay:
  assumes "2 * unat (max_backoff_ms policy) < 2 ^ 64" "unat b = capped_delay policy k"
  shows "unat (min (b * 2) (max_backoff_ms policy)) = capped_delay policy (Suc k)"
proof -
  have "2 * unat b < 2 ^ 64" using assms by (auto simp: capped_delay_def)
  then have "unat (b * 2) = 2 * unat b" by (simp add: unat_word_ariths)
  then show ?thesis using assms(2) by (auto simp: min_def word_le_nat_alt capped_delay_def)
qed

lemma source_run_delays:
  assumes "initial_backoff_ms (reconnect cfg) \<le> max_backoff_ms (reconnect cfg)"
    and "2 * unat (max_backoff_ms (reconnect cfg)) < 2 ^ 64"
    and "unat b = capped_delay (reconnect cfg) k"
    and "source_run P triggers run project name cfg b attempts w = Some (ds, w')"
  shows "map unat ds = map (capped_delay (reconnect cfg))
           (failure_runs k (source_outcomes P triggers run project name cfg attempts w))"
  using assms(3,4)
proof (induction attempts arbitrary: b k w ds)
  case (Cons a attempts)
  have init: "unat (initial_backoff_ms (reconnect cfg)) = capped_delay (reconnect cfg) 0"
    using assms(1) by (simp add: capped_delay_def word_le_nat_alt)
  obtain clean out w1 where c: "connect_and_drain P triggers run project name cfg a w = Some (clean, out, w1)"
    using Cons.prems(2) by (auto split: option.splits)
  let ?b = "if clean then initial_backoff_ms (reconnect cfg) else b"
  let ?k = "if clean then 0 else k"
  have b: "unat ?b = capped_delay (reconnect cfg) ?k" using Cons.prems(1) init by simp
  obtain ds1 where r: "source_run P triggers run project name cfg (min (?b * 2) (max_backoff_ms (reconnect cfg))) attempts w1 = Some (ds1, w')"
    and ds: "ds = ?b # ds1"
    using Cons.prems(2) c by (cases clean) (auto simp: after_attempt_def Let_def)
  show ?case using Cons.IH[OF doubled_delay[OF assms(2) b] r] b c by (simp add: ds Let_def)
qed simp

lemma literal_channel_drops:
  "(\<And>m. extract_path P m ce = None) \<Longrightarrow> handle_messages P triggers run project ce ke msgs w = Some w"
  by (induction msgs) simp_all

definition sample_source :: source_params where
  "sample_source = \<lparr>show_json = \<lambda>_. [], parse_message = \<lambda>_. None, message_utf8 = \<lambda>_. True, upgrade_ok = \<lambda>_ _. True\<rparr>"

definition sample_source_config :: ws_source_config where
  "sample_source_config = \<lparr>src_url = ''ws://feed'', src_headers = [], on_connect = [], dispatch_channel = ''$.type'',
     dispatch_key = ''$.key'', reconnect = default_reconnect\<rparr>"

section \<open>Properties\<close>



text \<open>
  Reconnecting backs off exponentially: with a policy whose initial delay is at most its maximum
  (and whose maximum can be doubled in 64 bits), the delay requested after an attempt that failed is the
  initial one doubled once for every attempt since the last that ended cleanly, cut off at the maximum;
  after a connection that ended cleanly it is the initial one. So it never leaves the two bounds.
\<close>

theorem source_backoff:
  assumes "initial_backoff_ms (reconnect cfg) \<le> max_backoff_ms (reconnect cfg)"
    and "2 * unat (max_backoff_ms (reconnect cfg)) < 2 ^ 64"
    and "source_run P triggers run project name cfg (initial_backoff_ms (reconnect cfg)) attempts w = Some (ds, w')"
  shows "map unat ds = map (capped_delay (reconnect cfg))
           (failure_runs 0 (source_outcomes P triggers run project name cfg attempts w)) \<and>
         set ds \<subseteq> {initial_backoff_ms (reconnect cfg) .. max_backoff_ms (reconnect cfg)}" (is "?exact \<and> ?bounds")
proof
  show exact: ?exact by (rule source_run_delays[OF assms(1,2) _ assms(3)]) (use assms(1) in \<open>simp add: capped_delay_def word_le_nat_alt\<close>)
  show ?bounds
  proof
    fix d assume "d \<in> set ds"
    then have "unat d \<in> range (capped_delay (reconnect cfg))" using arg_cong[OF exact, of set] by auto
    then show "d \<in> {initial_backoff_ms (reconnect cfg) .. max_backoff_ms (reconnect cfg)}"
      using assms(1) by (auto simp: capped_delay_def word_le_nat_alt min_def)
  qed
qed

theorem source_backoff_witness:
  "source_run sample_source [] (engine_run 1 sample_engine) ''demo'' ''feed'' sample_source_config 500
     [None, None, None] sample_world = Some ([500, 1000, 2000], sample_world) \<and>
   map (capped_delay default_reconnect) (failure_runs 0 [False, False, False]) = [500, 1000, 2000]"
proof -
  have r: "source_run sample_source [] (engine_run 1 sample_engine) ''demo'' ''feed'' sample_source_config
     (initial_backoff_ms (reconnect sample_source_config)) [None, None, None] sample_world = Some ([500, 1000, 2000], sample_world)"
    by (simp add: connect_and_drain_def sample_source_config_def default_reconnect_def after_attempt_def min_def)
  have "map unat [500, 1000, 2000 :: u64] = map (capped_delay (reconnect sample_source_config))
     (failure_runs 0 (source_outcomes sample_source [] (engine_run 1 sample_engine) ''demo'' ''feed'' sample_source_config
        [None, None, None] sample_world))"
    by (rule source_backoff[OF _ _ r, THEN conjunct1]) (simp_all add: sample_source_config_def default_reconnect_def)
  then show ?thesis using r
    by (simp add: sample_source_config_def default_reconnect_def connect_and_drain_def)
qed

text \<open>
  A source whose channel expression does not start with \<open>$.\<close> dispatches nothing: every frame it
  receives is dropped, whatever it holds and whatever triggers exist.
\<close>

theorem literal_channel_drops_all:
  assumes "\<not> starts_with (dispatch_channel cfg) ''$.''"
  shows "handle_text P triggers run project cfg t w = Some w"
proof -
  have "extract_path P m (dispatch_channel cfg) = None" for m
    using assms by (simp add: extract_path_def strip_prefix_def)
  then show ?thesis by (simp add: handle_text_def literal_channel_drops split: option.splits)
qed

theorem literal_channel_drops_all_witness:
  "handle_text (sample_source\<lparr>parse_message := \<lambda>_. Some (JObject [(''type'', JString ''orders'')])\<rparr>)
     [((''demo'', ''orders''), [(''_default'', store_dsl)])] (engine_run 1 sample_engine) ''demo''
     (sample_source_config\<lparr>dispatch_channel := ''orders''\<rparr>) ''{}'' sample_world = Some sample_world"
  by (rule literal_channel_drops_all) (simp add: starts_with_def)

end
