(* ===== verification/Supervisor.thy ===== *)
theory Supervisor
  imports Sources
begin

text \<open>
  Source supervision (\<open>src/supervisor/mod.rs\<close>). Every source runs under a watchdog task that publishes
  the health of its source in a shared map. The supervisor is the map together with the watchdogs; a
  watchdog moves from waiting for its source to the status its end calls for, and all watchdogs
  interleave: \<open>sup_step\<close> takes one step of one of them, or starts a new one.

  Each step carries the time \<open>now_ms\<close> reads. A panic payload is the text its \<open>Debug\<close> rendering gives.
\<close>

section \<open>State\<close>

record supervised_id =
  sid_project :: string
  sid_name :: string
  sid_kind :: string

datatype source_status =
    Starting
  | Running
  | Restarting (st_restarts: u32) (st_last_error: string) (st_next_attempt: u64)
  | Dead (st_reason: string)

record source_state =
  ss_id :: supervised_id
  ss_status :: source_status
  ss_changed :: u64
  ss_restarts :: u32

type_synonym source_state_map = "(supervised_id \<times> source_state) list"

record supervisor_report =
  sources :: "source_state list"
  total :: nat
  running :: nat
  restarting :: nat
  dead :: nat

text \<open>
  Where a watchdog is in its loop: about to spawn its source, awaiting it, sleeping, returned.
\<close>

datatype wd_phase = Spawning | Awaiting | Sleeping | Returned

record watchdog =
  wd_id :: supervised_id
  wd_phase :: wd_phase
  wd_backoff :: u64
  wd_restarts :: u32

record supervisor =
  sup_states :: source_state_map
  sup_initial :: u64
  sup_max :: u64
  watchdogs :: "watchdog list"

definition sup_new :: supervisor where
  "sup_new = \<lparr>sup_states = [], sup_initial = 500, sup_max = 60000, watchdogs = []\<rparr>"

section \<open>Operations\<close>

definition set_status :: "u64 \<Rightarrow> supervised_id \<Rightarrow> source_status \<Rightarrow> u32 \<Rightarrow> source_state_map \<Rightarrow> source_state_map" where
  "set_status now sid status restart_count states =
     (let entry = opt_or (map_of states sid) \<lparr>ss_id = sid, ss_status = Starting, ss_changed = now, ss_restarts = 0\<rparr>
      in hm_insert sid (entry\<lparr>ss_status := status, ss_changed := now, ss_restarts := restart_count\<rparr>) states)"

definition supervise :: "u64 \<Rightarrow> supervised_id \<Rightarrow> supervisor \<Rightarrow> supervisor" where
  "supervise now sid sv = sv\<lparr>
     sup_states := hm_insert sid \<lparr>ss_id = sid, ss_status = Starting, ss_changed = now, ss_restarts = 0\<rparr> (sup_states sv),
     watchdogs := watchdogs sv @
       [\<lparr>wd_id = sid, wd_phase = Spawning, wd_backoff = sup_initial sv, wd_restarts = 0\<rparr>]\<rparr>"

text \<open>The top of the loop: the source is announced as running and spawned.\<close>

definition watchdog_spawn :: "u64 \<Rightarrow> watchdog \<Rightarrow> source_state_map \<Rightarrow> watchdog \<times> source_state_map" where
  "watchdog_spawn now wd states =
     (wd\<lparr>wd_phase := Awaiting\<rparr>, set_status now (wd_id wd) Running (wd_restarts wd) states)"

text \<open>\<open>JoinHandle::await\<close>: the future returned, or its task panicked, was cancelled or aborted.\<close>

datatype join_result = JoinOk | JoinPanic string | JoinCancelled | JoinAborted

fun join_reason :: "join_result \<Rightarrow> string" where
  "join_reason JoinOk = ''clean exit''"
| "join_reason (JoinPanic payload) = ''panic: '' @ payload"
| "join_reason JoinCancelled = ''task cancelled''"
| "join_reason JoinAborted = ''task aborted''"

definition watchdog_join ::
  "u64 \<Rightarrow> join_result \<Rightarrow> watchdog \<Rightarrow> source_state_map \<Rightarrow> watchdog \<times> source_state_map" where
  "watchdog_join now result wd states =
     (if result = JoinOk \<or> result = JoinCancelled
      then (wd\<lparr>wd_phase := Returned\<rparr>,
            set_status now (wd_id wd) (Dead (join_reason result)) (wd_restarts wd) states)
      else
        let restart_count = wd_restarts wd + 1
        in (wd\<lparr>wd_phase := Sleeping, wd_restarts := restart_count\<rparr>,
            set_status now (wd_id wd) (Restarting restart_count (join_reason result) (wd_backoff wd))
              restart_count states))"

definition watchdog_wake :: "u64 \<Rightarrow> watchdog \<Rightarrow> watchdog" where
  "watchdog_wake max_backoff wd = wd\<lparr>wd_phase := Spawning, wd_backoff := min (wd_backoff wd * 2) max_backoff\<rparr>"

definition report :: "supervisor \<Rightarrow> supervisor_report" where
  "report sv =
     (let all = map snd (sup_states sv)
      in \<lparr>sources = all, total = length all,
          running = length (filter (\<lambda>s. ss_status s = Running) all),
          restarting = length (filter (\<lambda>s. case ss_status s of Restarting _ _ _ \<Rightarrow> True | _ \<Rightarrow> False) all),
          dead = length (filter (\<lambda>s. case ss_status s of Dead _ \<Rightarrow> True | _ \<Rightarrow> False) all)\<rparr>)"

text \<open>A source whose placeholders do not resolve is logged and left out; the others are supervised.\<close>

fun supervise_all ::
  "u64 \<Rightarrow> (string \<times> string \<times> ws_source_config) list \<Rightarrow> string hmap \<Rightarrow> supervisor \<Rightarrow>
   (supervised_id \<times> ws_source_config) list \<times> supervisor" where
  "supervise_all now [] constants sv = ([], sv)"
| "supervise_all now ((project, name, cfg) # rest) constants sv =
     (case resolve_constants cfg constants of
        Inl e \<Rightarrow> supervise_all now rest constants sv
      | Inr resolved \<Rightarrow>
          (let sid = \<lparr>sid_project = project, sid_name = name, sid_kind = ''websocket''\<rparr>
           in map_prod (Cons (sid, resolved)) (\<lambda>s. s) (supervise_all now rest constants (supervise now sid sv))))"

text \<open>\<open>RUUTER_ADMIN_ENABLED\<close>.\<close>

definition admin_enabled :: "string option \<Rightarrow> bool" where
  "admin_enabled env = (case env of None \<Rightarrow> False
     | Some v \<Rightarrow> to_ascii_lowercase v \<in> {''1'', ''true'', ''yes''})"

section \<open>Interleaved watchdogs\<close>

text \<open>
  \<open>Start\<close>: a source is put under supervision; \<open>Spawn\<close>, \<open>Join\<close>, \<open>Wake\<close>: the watchdog of that index moves.
\<close>

datatype sup_event = Start supervised_id | Spawn nat | Join nat join_result | Wake nat

definition put_watchdog :: "nat \<Rightarrow> watchdog \<times> source_state_map \<Rightarrow> supervisor \<Rightarrow> supervisor" where
  "put_watchdog i r sv = sv\<lparr>watchdogs := (watchdogs sv)[i := fst r], sup_states := snd r\<rparr>"

inductive sup_step :: "supervisor \<Rightarrow> sup_event \<Rightarrow> supervisor \<Rightarrow> bool" where
  start: "sup_step sv (Start sid) (supervise now sid sv)"
| spawn: "i < length (watchdogs sv) \<Longrightarrow> wd_phase (watchdogs sv ! i) = Spawning \<Longrightarrow>
    sup_step sv (Spawn i) (put_watchdog i (watchdog_spawn now (watchdogs sv ! i) (sup_states sv)) sv)"
| join: "i < length (watchdogs sv) \<Longrightarrow> wd_phase (watchdogs sv ! i) = Awaiting \<Longrightarrow>
    sup_step sv (Join i result) (put_watchdog i (watchdog_join now result (watchdogs sv ! i) (sup_states sv)) sv)"
| wake: "i < length (watchdogs sv) \<Longrightarrow> wd_phase (watchdogs sv ! i) = Sleeping \<Longrightarrow>
    sup_step sv (Wake i) (put_watchdog i (watchdog_wake (sup_max sv) (watchdogs sv ! i), sup_states sv) sv)"

inductive sup_trace :: "supervisor \<Rightarrow> sup_event list \<Rightarrow> supervisor \<Rightarrow> bool" where
  sup_nil: "sup_trace sv [] sv"
| sup_snoc: "sup_trace sv evs sup1 \<Longrightarrow> sup_step sup1 ev sup2 \<Longrightarrow> sup_trace sv (evs @ [ev]) sup2"

fun started :: "sup_event list \<Rightarrow> supervised_id list" where
  "started [] = []"
| "started (Start sid # evs) = sid # started evs"
| "started (_ # evs) = started evs"

definition crash_of :: "nat \<Rightarrow> sup_event \<Rightarrow> bool" where
  "crash_of i ev \<longleftrightarrow> (case ev of Join j r \<Rightarrow> j = i \<and> r \<noteq> JoinOk \<and> r \<noteq> JoinCancelled | _ \<Rightarrow> False)"

definition crashes :: "nat \<Rightarrow> sup_event list \<Rightarrow> nat" where
  "crashes i evs = length (filter (crash_of i) evs)"

definition sup_policy :: "supervisor \<Rightarrow> reconnect_policy" where
  "sup_policy sv = \<lparr>initial_backoff_ms = sup_initial sv, max_backoff_ms = sup_max sv, jitter = True\<rparr>"

text \<open>What the map says of a source, by where its watchdog is.\<close>

fun phase_status :: "wd_phase \<Rightarrow> u32 \<Rightarrow> u64 \<Rightarrow> source_status \<Rightarrow> bool" where
  "phase_status Spawning n b st \<longleftrightarrow> (case st of Starting \<Rightarrow> n = 0 | Restarting m _ _ \<Rightarrow> m = n | _ \<Rightarrow> False)"
| "phase_status Awaiting n b st \<longleftrightarrow> st = Running"
| "phase_status Sleeping n b st \<longleftrightarrow> (case st of Restarting m _ d \<Rightarrow> m = n \<and> d = b | _ \<Rightarrow> False)"
| "phase_status Returned n b st \<longleftrightarrow> (case st of Dead _ \<Rightarrow> True | _ \<Rightarrow> False)"

definition shown :: "watchdog \<Rightarrow> supervised_id \<times> source_state \<Rightarrow> bool" where
  "shown wd e \<longleftrightarrow> fst e = wd_id wd \<and> ss_id (snd e) = wd_id wd \<and> ss_restarts (snd e) = wd_restarts wd \<and>
     phase_status (wd_phase wd) (wd_restarts wd) (wd_backoff wd) (ss_status (snd e))"

definition history_of :: "reconnect_policy \<Rightarrow> watchdog \<Rightarrow> nat \<Rightarrow> bool" where
  "history_of policy wd n \<longleftrightarrow> wd_restarts wd = of_nat n \<and>
     unat (wd_backoff wd) = capped_delay policy (if wd_phase wd = Sleeping then n - 1 else n) \<and>
     (wd_phase wd = Sleeping \<longrightarrow> 0 < n)"

definition sup_inv :: "sup_event list \<Rightarrow> supervisor \<Rightarrow> bool" where
  "sup_inv evs sv \<longleftrightarrow> map wd_id (watchdogs sv) = started evs \<and>
     list_all2 shown (watchdogs sv) (sup_states sv) \<and>
     (\<forall>i < length (watchdogs sv). history_of (sup_policy sv) (watchdogs sv ! i) (crashes i evs)) \<and>
     (\<forall>i \<ge> length (watchdogs sv). crashes i evs = 0)"

lemma started_append [simp]: "started (xs @ ys) = started xs @ started ys"
  by (induction xs rule: started.induct) simp_all

lemma crashes_snoc [simp]: "crashes i (evs @ [ev]) = crashes i evs + (if crash_of i ev then 1 else 0)"
  by (simp add: crashes_def)

lemma crash_of_simps [simp]:
  "crash_of i (Start sid) = False" "crash_of i (Spawn j) = False" "crash_of i (Wake j) = False"
  "crash_of i (Join j r) \<longleftrightarrow> j = i \<and> r \<noteq> JoinOk \<and> r \<noteq> JoinCancelled"
  by (simp_all add: crash_of_def)

text \<open>With distinct keys, updating the key at an index is updating that index.\<close>

lemma update_at_index:
  assumes "distinct (map fst al)" "i < length al" "fst (al ! i) = k"
  shows "hm_insert k v al = al[i := (k, v)]"
  using assms
proof (induction al arbitrary: i)
  case (Cons p al)
  then show ?case by (cases p; cases i) (auto simp: nth_mem)
qed simp

lemma keys_are_ids: "list_all2 shown wds states \<Longrightarrow> map fst states = map wd_id wds"
  by (induction rule: list_all2_induct) (auto simp: shown_def)

lemma set_status_at:
  assumes "list_all2 shown wds states" "distinct (map wd_id wds)" "i < length wds"
  shows "set_status now (wd_id (wds ! i)) st n states =
     states[i := (wd_id (wds ! i), \<lparr>ss_id = wd_id (wds ! i), ss_status = st, ss_changed = now, ss_restarts = n\<rparr>)]"
proof -
  have d: "distinct (map fst states)" and l: "i < length states"
    using assms keys_are_ids[OF assms(1)] by (auto dest: list_all2_lengthD)
  have sh: "shown (wds ! i) (states ! i)" using assms(1,3) by (rule list_all2_nthD)
  then have k: "fst (states ! i) = wd_id (wds ! i)" and id: "ss_id (snd (states ! i)) = wd_id (wds ! i)"
    by (simp_all add: shown_def)
  have "map_of states (wd_id (wds ! i)) = Some (snd (states ! i))"
    using d l k by (metis map_of_is_SomeI nth_mem prod.collapse)
  then show ?thesis using id
    by (simp add: set_status_def Let_def update_at_index[OF d l k]) (cases "snd (states ! i)", simp)
qed

lemma sup_inv_update:
  assumes "sup_inv evs sv" "i < length (watchdogs sv)" "shown wd e" "wd_id wd = wd_id (watchdogs sv ! i)"
    and "history_of (sup_policy sv) wd (crashes i (evs @ [ev]))"
    and "started [ev] = []" "\<And>j. j \<noteq> i \<Longrightarrow> \<not> crash_of j ev"
  shows "sup_inv (evs @ [ev]) (put_watchdog i (wd, (sup_states sv)[i := e]) sv)"
proof -
  have "map wd_id ((watchdogs sv)[i := wd]) = map wd_id (watchdogs sv)"
    using assms(2,4) by (simp add: map_update list_update_same_conv)
  then show ?thesis
    using assms unfolding sup_inv_def put_watchdog_def sup_policy_def
    by (auto simp: nth_list_update intro!: list_all2_update_cong)
qed

lemma status_at_index:
  assumes "sup_inv evs sv" "distinct (started evs)" "i < length (watchdogs sv)"
  shows "set_status now (wd_id (watchdogs sv ! i)) st n (sup_states sv) =
     (sup_states sv)[i := (wd_id (watchdogs sv ! i), \<lparr>ss_id = wd_id (watchdogs sv ! i), ss_status = st, ss_changed = now, ss_restarts = n\<rparr>)]"
    and "history_of (sup_policy sv) (watchdogs sv ! i) (crashes i evs)"
    and "shown (watchdogs sv ! i) (sup_states sv ! i)"
  using assms by (auto simp: sup_inv_def intro!: set_status_at dest: list_all2_nthD)

lemma sup_inv_step:
  assumes "sup_inv evs sv" "sup_step sv ev sv'" "distinct (started (evs @ [ev]))"
    and "sup_initial sv \<le> sup_max sv" "2 * unat (sup_max sv) < 2 ^ 64"
  shows "sup_inv (evs @ [ev]) sv'"
proof -
  have distinct: "distinct (started evs)" using assms(3) by simp
  from assms(2) show ?thesis
  proof cases
    case (start sid now)
    have "sid \<notin> set (started evs)" using assms(3) start by simp
    then have new: "sid \<notin> fst ` set (sup_states sv)"
      using assms(1) keys_are_ids unfolding sup_inv_def by (metis list.set_map)
    show ?thesis
      using assms(1,4) unfolding start sup_inv_def supervise_def update_new[OF new]
      by (auto simp: shown_def nth_append history_of_def sup_policy_def capped_delay_def word_le_nat_alt
          intro!: list_all2_appendI)
  next
    case (spawn i now)
    note at = status_at_index[OF assms(1) distinct spawn(3)]
    show ?thesis unfolding spawn(1,2) watchdog_spawn_def at(1)
      by (rule sup_inv_update[OF assms(1) spawn(3)])
        (use at(2) spawn(4) in \<open>auto simp: shown_def history_of_def\<close>)
  next
    case (join i result now)
    note at = status_at_index[OF assms(1) distinct join(3)]
    show ?thesis
    proof (cases "result = JoinOk \<or> result = JoinCancelled")
      case True
      then show ?thesis unfolding join(1,2) watchdog_join_def at(1) if_P[OF True]
        by (intro sup_inv_update[OF assms(1) join(3)])
          (use at(2) join(4) in \<open>auto simp: shown_def history_of_def\<close>)
    next
      case False
      then show ?thesis unfolding join(1,2) watchdog_join_def Let_def at(1) if_not_P[OF False]
        by (intro sup_inv_update[OF assms(1) join(3)])
          (use at(2) join(4) in \<open>auto simp: shown_def history_of_def\<close>)
    qed
  next
    case (wake i)
    note at = status_at_index[OF assms(1) distinct wake(3)]
    have "unat (min (wd_backoff (watchdogs sv ! i) * 2) (sup_max sv)) = capped_delay (sup_policy sv) (crashes i evs)"
      using doubled_delay[of "sup_policy sv" "wd_backoff (watchdogs sv ! i)" "crashes i evs - 1"] assms(5) at(2) wake(4)
      by (simp add: history_of_def sup_policy_def)
    then have "sup_inv (evs @ [ev]) (put_watchdog i (watchdog_wake (sup_max sv) (watchdogs sv ! i),
        (sup_states sv)[i := sup_states sv ! i]) sv)"
      by (intro sup_inv_update[OF assms(1) wake(3)])
        (use at(2,3) wake(1,4) in \<open>auto simp: shown_def history_of_def watchdog_wake_def split: source_status.splits\<close>)
    then show ?thesis by (simp add: wake)
  qed
qed

lemma sup_trace_inv:
  assumes "sup_trace sup_new evs sv" "distinct (started evs)"
  shows "sup_inv evs sv" "sup_initial sv = 500" "sup_max sv = 60000"
proof -
  have "distinct (started evs) \<longrightarrow> sup_inv evs sv \<and> sup_initial sv = 500 \<and> sup_max sv = 60000"
    if "sup_trace sv0 evs sv" "sv0 = sup_new" for sv0
    using that
  proof (induction rule: sup_trace.induct)
    case (sup_nil sv)
    then show ?case by (simp add: sup_new_def sup_inv_def crashes_def)
  next
    case (sup_snoc sv0 evs sv1 ev sv2)
    have "sup_initial sv2 = sup_initial sv1 \<and> sup_max sv2 = sup_max sv1"
      using sup_snoc.hyps(2) by cases (simp_all add: supervise_def put_watchdog_def)
    then show ?case using sup_snoc sup_inv_step by auto
  qed
  then show "sup_inv evs sv" "sup_initial sv = 500" "sup_max sv = 60000" using assms by auto
qed

section \<open>Lifecycle\<close>

definition status_of :: "supervisor \<Rightarrow> supervised_id \<Rightarrow> source_status option" where
  "status_of sv sid = map_option ss_status (map_of (sup_states sv) sid)"

text \<open>What an administrator may see a source do, from one status to the next.\<close>

fun lifecycle :: "source_status option \<Rightarrow> source_status option \<Rightarrow> bool" where
  "lifecycle None (Some Starting) = True"
| "lifecycle (Some Starting) (Some Running) = True"
| "lifecycle (Some Running) (Some (Restarting n e d)) = True"
| "lifecycle (Some Running) (Some (Dead e)) = True"
| "lifecycle (Some (Restarting n e d)) (Some Running) = True"
| "lifecycle a b \<longleftrightarrow> a = b"

lemma lifecycle_refl: "lifecycle a a"
  by (cases "(a, a)" rule: lifecycle.cases) auto

lemma status_at:
  assumes "sup_inv evs sv" "distinct (started evs)" "i < length (watchdogs sv)"
  shows "\<exists>st. status_of sv (wd_id (watchdogs sv ! i)) = Some st \<and>
    phase_status (wd_phase (watchdogs sv ! i)) (wd_restarts (watchdogs sv ! i)) (wd_backoff (watchdogs sv ! i)) st"
proof -
  have sh: "shown (watchdogs sv ! i) (sup_states sv ! i)" by (rule status_at_index(3)[OF assms])
  have l: "list_all2 shown (watchdogs sv) (sup_states sv)" and d: "map wd_id (watchdogs sv) = started evs"
    using assms(1) by (simp_all add: sup_inv_def)
  have "distinct (map fst (sup_states sv))" using keys_are_ids[OF l] d assms(2) by simp
  moreover have "(wd_id (watchdogs sv ! i), snd (sup_states sv ! i)) \<in> set (sup_states sv)"
    using sh l assms(3) by (metis list_all2_lengthD nth_mem prod.collapse shown_def)
  ultimately have "map_of (sup_states sv) (wd_id (watchdogs sv ! i)) = Some (snd (sup_states sv ! i))" by simp
  then show ?thesis using sh by (simp add: status_of_def shown_def)
qed

lemma status_of_set:
  "status_of (put_watchdog i (wd, set_status now k st n (sup_states sv)) sv) sid =
     (if sid = k then Some st else status_of sv sid)"
  by (simp add: status_of_def put_watchdog_def set_status_def Let_def update_conv')

lemma status_of_start:
  "status_of (supervise now k sv) sid = (if sid = k then Some Starting else status_of sv sid)"
  by (simp add: status_of_def supervise_def update_conv')

lemma lifecycle_step:
  assumes "sup_inv evs sv" "distinct (started (evs @ [ev]))" "sup_step sv ev sv'"
  shows "lifecycle (status_of sv sid) (status_of sv' sid)"
proof -
  have d: "distinct (started evs)" using assms(2) by simp
  from assms(3) show ?thesis
  proof cases
    case (start k now)
    have "k \<notin> fst ` set (sup_states sv)"
      using assms(1,2) keys_are_ids start unfolding sup_inv_def by (metis distinct_append disjoint_insert(1) list.set_map list.simps(15) started.simps(1,2) started_append)
    then have "status_of sv k = None" by (simp add: status_of_def map_of_eq_None_iff)
    then show ?thesis by (simp add: start status_of_start lifecycle_refl)
  next
    case (spawn i now)
    obtain st where "status_of sv (wd_id (watchdogs sv ! i)) = Some st"
      "phase_status Spawning (wd_restarts (watchdogs sv ! i)) (wd_backoff (watchdogs sv ! i)) st"
      using status_at[OF assms(1) d spawn(3)] spawn(4) by auto
    then show ?thesis
      by (cases st) (auto simp: spawn(2) watchdog_spawn_def status_of_set lifecycle_refl)
  next
    case (join i result now)
    show ?thesis using status_at[OF assms(1) d join(3)] join(4)
      by (auto simp: join(2) watchdog_join_def Let_def status_of_set lifecycle_refl)
  next
    case (wake i)
    then show ?thesis by (simp add: status_of_def put_watchdog_def lifecycle_refl)
  qed
qed

lemma counts_by_phase:
  assumes "list_all2 shown wds states"
  shows "length states = length wds"
    and "length (filter (\<lambda>s. ss_status s = Running) (map snd states)) = length (filter (\<lambda>wd. wd_phase wd = Awaiting) wds)"
    and "length (filter (\<lambda>s. case ss_status s of Dead _ \<Rightarrow> True | _ \<Rightarrow> False) (map snd states)) =
      length (filter (\<lambda>wd. wd_phase wd = Returned) wds)"
    and "length (filter (\<lambda>wd. wd_phase wd = Sleeping) wds) \<le>
      length (filter (\<lambda>s. case ss_status s of Restarting _ _ _ \<Rightarrow> True | _ \<Rightarrow> False) (map snd states))"
  using assms
proof (induction rule: list_all2_induct)
  case (Cons wd wds e states)
  {
    case 1 show ?case using Cons by simp
  next
    case 2 show ?case using Cons by (cases "wd_phase wd") (auto simp: shown_def split: source_status.splits)
  next
    case 3 show ?case using Cons by (cases "wd_phase wd") (auto simp: shown_def split: source_status.splits)
  next
    case 4 show ?case using Cons by (cases "wd_phase wd") (auto simp: shown_def split: source_status.splits)
  }
qed simp_all

definition feed_id :: supervised_id where
  "feed_id = \<lparr>sid_project = ''demo'', sid_name = ''feed'', sid_kind = ''websocket''\<rparr>"

definition feed_watchdog :: "wd_phase \<Rightarrow> u32 \<Rightarrow> watchdog" where
  "feed_watchdog ph n = \<lparr>wd_id = feed_id, wd_phase = ph, wd_backoff = 500, wd_restarts = n\<rparr>"

definition feed_state :: "source_status \<Rightarrow> u32 \<Rightarrow> supervised_id \<times> source_state" where
  "feed_state st n = (feed_id, \<lparr>ss_id = feed_id, ss_status = st, ss_changed = 7, ss_restarts = n\<rparr>)"

definition feed_supervisor :: "wd_phase \<Rightarrow> source_status \<Rightarrow> u32 \<Rightarrow> supervisor" where
  "feed_supervisor ph st n = \<lparr>sup_states = [feed_state st n], sup_initial = 500, sup_max = 60000, watchdogs = [feed_watchdog ph n]\<rparr>"

lemma feed_steps:
  "sup_step sup_new (Start feed_id) (feed_supervisor Spawning Starting 0)"
  "sup_step (feed_supervisor Spawning Starting 0) (Spawn 0) (feed_supervisor Awaiting Running 0)"
  "sup_step (feed_supervisor Awaiting Running 0) (Join 0 (JoinPanic ''boom''))
     (feed_supervisor Sleeping (Restarting 1 ''panic: boom'' 500) 1)"
proof -
  note defs = feed_supervisor_def feed_watchdog_def feed_state_def
  show "sup_step sup_new (Start feed_id) (feed_supervisor Spawning Starting 0)"
    using sup_step.start[of sup_new feed_id 7] by (simp add: defs sup_new_def supervise_def)
  show "sup_step (feed_supervisor Spawning Starting 0) (Spawn 0) (feed_supervisor Awaiting Running 0)"
    using sup_step.spawn[of 0 "feed_supervisor Spawning Starting 0" 7]
    by (simp add: defs watchdog_spawn_def put_watchdog_def set_status_def Let_def)
  show "sup_step (feed_supervisor Awaiting Running 0) (Join 0 (JoinPanic ''boom''))
     (feed_supervisor Sleeping (Restarting 1 ''panic: boom'' 500) 1)"
    using sup_step.join[of 0 "feed_supervisor Awaiting Running 0" "JoinPanic ''boom''" 7]
    by (simp add: defs watchdog_join_def put_watchdog_def set_status_def Let_def)
qed

abbreviation feed_events :: "sup_event list" where
  "feed_events \<equiv> [Start feed_id, Spawn 0, Join 0 (JoinPanic ''boom'')]"

lemma feed_trace:
  "sup_trace sup_new [Start feed_id, Spawn 0] (feed_supervisor Awaiting Running 0)"
  "sup_trace sup_new feed_events (feed_supervisor Sleeping (Restarting 1 ''panic: boom'' 500) 1)"
  using sup_snoc[OF sup_snoc[OF sup_nil feed_steps(1)] feed_steps(2)]
    sup_snoc[OF sup_snoc[OF sup_snoc[OF sup_nil feed_steps(1)] feed_steps(2)] feed_steps(3)]
  by simp_all

section \<open>Properties\<close>

text \<open>
  C16. The published health of a source is the truth about it: under any interleaving of the watchdogs of
  sources with different identifiers, the map shows a source as running exactly while its watchdog awaits
  it and as dead once the watchdog has returned; the restart count is the number of crashes (modulo the
  32 bits of the counter), and a pending restart announces the delay 500 ms doubled once per earlier crash,
  at most 60 seconds.
\<close>

theorem watchdog_health:
  assumes "sup_trace sup_new evs sv" "distinct (started evs)" "i < length (watchdogs sv)"
  shows "\<exists>s. map_of (sup_states sv) (started evs ! i) = Some s \<and> ss_restarts s = of_nat (crashes i evs) \<and>
    (case ss_status s of
       Starting \<Rightarrow> wd_phase (watchdogs sv ! i) = Spawning
     | Running \<Rightarrow> wd_phase (watchdogs sv ! i) = Awaiting
     | Restarting n _ d \<Rightarrow> n = of_nat (crashes i evs) \<and>
         (if wd_phase (watchdogs sv ! i) = Sleeping then unat d = min (500 * 2 ^ (crashes i evs - 1)) 60000
          else wd_phase (watchdogs sv ! i) = Spawning)
     | Dead _ \<Rightarrow> wd_phase (watchdogs sv ! i) = Returned)"
proof -
  note inv = sup_trace_inv[OF assms(1,2)]
  let ?wd = "watchdogs sv ! i"
  have h: "history_of (sup_policy sv) ?wd (crashes i evs)" and sh: "shown ?wd (sup_states sv ! i)"
    using status_at_index(2,3)[OF inv(1) assms(2,3)] .
  have l: "list_all2 shown (watchdogs sv) (sup_states sv)" and ids: "map wd_id (watchdogs sv) = started evs"
    using inv(1) by (simp_all add: sup_inv_def)
  have id: "wd_id ?wd = started evs ! i" using ids assms(3) by (metis nth_map)
  have "distinct (map fst (sup_states sv))" using keys_are_ids[OF l] ids assms(2) by simp
  moreover have "(started evs ! i, snd (sup_states sv ! i)) \<in> set (sup_states sv)"
    using sh l assms(3) id by (metis list_all2_lengthD nth_mem prod.collapse shown_def)
  ultimately have "map_of (sup_states sv) (started evs ! i) = Some (snd (sup_states sv ! i))" by simp
  then show ?thesis using sh h inv(2,3)
    by (cases "wd_phase ?wd") (auto simp: shown_def history_of_def sup_policy_def capped_delay_def split: source_status.splits)
qed

theorem watchdog_health_witness:
  "\<exists>s. map_of (sup_states (feed_supervisor Sleeping (Restarting 1 ''panic: boom'' 500) 1)) feed_id = Some s \<and>
     ss_restarts s = 1 \<and> crashes 0 feed_events = 1"
proof -
  have "crashes 0 feed_events = 1" by (simp add: crashes_def)
  moreover have "\<exists>s. map_of (sup_states (feed_supervisor Sleeping (Restarting 1 ''panic: boom'' 500) 1)) (started feed_events ! 0) = Some s \<and>
      ss_restarts s = of_nat (crashes 0 feed_events)"
    using watchdog_health[OF feed_trace(2), of 0] by (auto simp: feed_supervisor_def feed_state_def)
  ultimately show ?thesis by simp
qed

text \<open>
  C31. A source moves only along its lifecycle: whatever step the supervisor takes, every source keeps its
  status or goes from starting to running, from running to restarting or dead, or from restarting back to
  running. A dead source is never restarted.
\<close>

theorem supervised_lifecycle:
  assumes "sup_trace sup_new evs sv" "sup_step sv ev sv'" "distinct (started (evs @ [ev]))"
  shows "lifecycle (status_of sv sid) (status_of sv' sid)"
  using lifecycle_step[OF sup_trace_inv(1)[OF assms(1)] assms(3,2)] assms(3) by simp

theorem supervised_lifecycle_witness:
  "status_of (feed_supervisor Awaiting Running 0) feed_id = Some Running \<and>
   lifecycle (Some Running) (status_of (feed_supervisor Sleeping (Restarting 1 ''panic: boom'' 500) 1) feed_id)"
  using supervised_lifecycle[OF feed_trace(1) feed_steps(3), of feed_id]
  by (simp add: status_of_def feed_supervisor_def feed_state_def)

text \<open>
  The report counts every source once: its total is the number of watchdogs, its running and dead
  counts are the watchdogs that await their source and that have returned, and every watchdog that sleeps
  is counted as restarting.
\<close>

theorem report_counts:
  assumes "sup_trace sup_new evs sv" "distinct (started evs)"
  shows "total (report sv) = length (started evs) \<and>
    running (report sv) = length (filter (\<lambda>wd. wd_phase wd = Awaiting) (watchdogs sv)) \<and>
    dead (report sv) = length (filter (\<lambda>wd. wd_phase wd = Returned) (watchdogs sv)) \<and>
    length (filter (\<lambda>wd. wd_phase wd = Sleeping) (watchdogs sv)) \<le> restarting (report sv)"
proof -
  from sup_trace_inv(1)[OF assms] have l: "list_all2 shown (watchdogs sv) (sup_states sv)"
    and "length (watchdogs sv) = length (started evs)"
    by (auto simp: sup_inv_def dest: arg_cong[where f = length])
  then show ?thesis using counts_by_phase[OF l] by (simp add: report_def Let_def)
qed

theorem report_counts_witness:
  "total (report (feed_supervisor Sleeping (Restarting 1 ''panic: boom'' 500) 1)) = 1 \<and>
   dead (report (feed_supervisor Sleeping (Restarting 1 ''panic: boom'' 500) 1)) = 0"
  using report_counts[OF feed_trace(2)] by (simp add: feed_supervisor_def feed_watchdog_def)

end
