(* ===== verification/Dsl_Loading.thy ===== *)
theory Dsl_Loading
  imports Dsl_Parser Supervisor
begin

text \<open>
  Loading the DSL tree from disk (\<open>src/dsl/loader.rs\<close>, \<open>src/sources/loader.rs\<close>). The disk is a tree of
  files and directories, with the entries of a directory in the order \<open>read_dir\<close> gives them; a file or a
  directory that cannot be read is a value. Names are UTF-8, so the errors for names that are not do
  not arise. A path is the list of its components. The lemmas tie the keys the loader makes to the
  guard resolution of \<open>Guards\<close>.
\<close>

section \<open>Paths and files\<close>

datatype fs_node = File string | FileDenied | Dir "(string \<times> fs_node) list" | DirDenied

fun is_dir :: "fs_node \<Rightarrow> bool" where
  "is_dir (Dir _) = True"
| "is_dir DirDenied = True"
| "is_dir _ = False"

text \<open>A name at its last dot, as \<open>Path::extension\<close> and \<open>Path::file_stem\<close> cut it.\<close>

fun at_last_dot :: "string \<Rightarrow> (string \<times> string) option" where
  "at_last_dot [] = None"
| "at_last_dot (c # cs) =
     (case at_last_dot cs of
        Some (b, e) \<Rightarrow> Some (c # b, e)
      | None \<Rightarrow> if c = CHR ''.'' then Some ([], cs) else None)"

definition extension :: "string \<Rightarrow> string option" where
  "extension name = (case at_last_dot name of Some (b, e) \<Rightarrow> if b = [] then None else Some e | None \<Rightarrow> None)"

definition file_stem :: "string \<Rightarrow> string" where
  "file_stem name = (case at_last_dot name of Some (b, e) \<Rightarrow> if b = [] then name else b | None \<Rightarrow> name)"

text \<open>\<open>replace('\\', "/")\<close>.\<close>

definition slashes :: "string \<Rightarrow> string" where
  "slashes = map (\<lambda>c. if c = CHR 0x5C then CHR ''/'' else c)"

datatype load_error =
    ParseFailed "string list" parse_error
  | ReadFailed "string list"
  | IoFailed "string list"
  | MalformedGuard
  | ManyProjectGuards string "string list"
  | BadSource string string string

record load_params =
  serde :: serde_params
  boot_constants :: "string hmap"
  processed_filetypes :: "string list"

definition parse_file :: "load_params \<Rightarrow> string list \<Rightarrow> fs_node \<Rightarrow> load_error + dsl" where
  "parse_file L path node =
     (case node of
        File content \<Rightarrow>
          (case parse_content (serde L) (boot_constants L) content of
             Inl e \<Rightarrow> Inl (ParseFailed path e)
           | Inr d \<Rightarrow> Inr d)
      | _ \<Rightarrow> Inl (ReadFailed path))"

definition is_in_folder_guard :: "string \<Rightarrow> bool" where
  "is_in_folder_guard name \<longleftrightarrow> name = ''.guard'' \<or> name = ''.guard.yml'' \<or> name = ''.guard.yaml''"

definition is_processable_file :: "load_params \<Rightarrow> string \<Rightarrow> bool" where
  "is_processable_file L name \<longleftrightarrow> name = ''.guard'' \<or> name = ''.guard.yml'' \<or> name = ''.guard.yaml'' \<or>
     (case extension name of
        None \<Rightarrow> False
      | Some e \<Rightarrow> list_ex (\<lambda>allowed. allowed = e \<or> allowed = ''.'' @ e) (processed_filetypes L))"

definition is_guard_file :: "string \<Rightarrow> bool" where
  "is_guard_file name \<longleftrightarrow> name = ''.guard'' \<or> name = ''.guard.yml'' \<or> name = ''.guard.yaml'' \<or>
     contains_str name ''.guard.''"

text \<open>\<open>rel\<close>: the directories between the method directory and the file.\<close>

definition build_dsl_key :: "string \<Rightarrow> string list \<Rightarrow> string \<Rightarrow> string" where
  "build_dsl_key meth rel name = meth @ ''/'' @ slashes (join_with ''/'' (rel @ [file_stem name]))"

definition build_guard_key :: "string \<Rightarrow> string list \<Rightarrow> string \<Rightarrow> load_error + string" where
  "build_guard_key meth rel name =
     (let dir_part = slashes (join_with ''/'' rel) in
      if is_in_folder_guard name
      then Inr (if dir_part = [] then meth else meth @ ''/'' @ dir_part)
      else
        (case Option.bind (at_last_dot name) (\<lambda>(b, _). map_option fst (at_last_dot b)) of
           None \<Rightarrow> Inl MalformedGuard
         | Some stem \<Rightarrow> Inr (meth @ ''/'' @ (if dir_part = [] then stem else dir_part @ ''/'' @ stem))))"

section \<open>One method directory\<close>

text \<open>\<open>base\<close>: the path of the method directory, for the error messages.\<close>

definition load_file ::
  "load_params \<Rightarrow> string \<Rightarrow> string list \<Rightarrow> string list \<Rightarrow> string \<Rightarrow> fs_node \<Rightarrow> dsl hmap \<times> dsl hmap \<Rightarrow>
   load_error + dsl hmap \<times> dsl hmap" where
  "load_file L meth base rel name file acc =
     (if \<not> is_processable_file L name then Inr acc
      else if is_guard_file name
      then bindr (build_guard_key meth rel name) (\<lambda>key.
           bindr (parse_file L (base @ rel @ [name]) file) (\<lambda>d.
           Inr (fst acc, hm_insert key d (snd acc))))
      else bindr (parse_file L (base @ rel @ [name]) file) (\<lambda>d.
           Inr (hm_insert (build_dsl_key meth rel name) d (fst acc), snd acc)))"

fun scan_directory ::
  "load_params \<Rightarrow> string \<Rightarrow> string list \<Rightarrow> string list \<Rightarrow> (string \<times> fs_node) list \<Rightarrow> dsl hmap \<times> dsl hmap \<Rightarrow>
   load_error + dsl hmap \<times> dsl hmap" where
  "scan_directory L meth base rel [] acc = Inr acc"
| "scan_directory L meth base rel ((name, node) # rest) acc =
     bindr (case node of
         Dir es \<Rightarrow> scan_directory L meth base (rel @ [name]) es acc
       | DirDenied \<Rightarrow> Inl (IoFailed (base @ rel @ [name]))
       | file \<Rightarrow> load_file L meth base rel name file acc)
       (\<lambda>acc'. scan_directory L meth base rel rest acc')"

definition load_method_dsls ::
  "load_params \<Rightarrow> string list \<Rightarrow> fs_node \<Rightarrow> string \<Rightarrow> load_error + dsl hmap \<times> dsl hmap" where
  "load_method_dsls L path node meth =
     (case node of
        Dir es \<Rightarrow> scan_directory L meth path [] es ([], [])
      | _ \<Rightarrow> Inl (IoFailed path))"

section \<open>Projects\<close>

fun load_trigger_keys ::
  "load_params \<Rightarrow> string list \<Rightarrow> (string \<times> fs_node) list \<Rightarrow> dsl hmap \<Rightarrow> load_error + dsl hmap" where
  "load_trigger_keys L path [] per_key = Inr per_key"
| "load_trigger_keys L path ((name, node) # rest) per_key =
     (if \<not> is_processable_file L name \<or> is_guard_file name then load_trigger_keys L path rest per_key
      else bindr (parse_file L (path @ [name]) node)
             (\<lambda>d. load_trigger_keys L path rest (hm_insert (file_stem name) d per_key)))"

fun load_triggers ::
  "load_params \<Rightarrow> string list \<Rightarrow> string \<Rightarrow> (string \<times> fs_node) list \<Rightarrow> trigger_dsls \<Rightarrow> load_error + trigger_dsls" where
  "load_triggers L path project [] out = Inr out"
| "load_triggers L path project ((channel, node) # rest) out =
     (case node of
        Dir es \<Rightarrow>
          bindr (load_trigger_keys L (path @ [channel]) es []) (\<lambda>per_key.
            load_triggers L path project rest
              (if per_key = [] then out else hm_insert (project, channel) per_key out))
      | DirDenied \<Rightarrow> Inl (IoFailed (path @ [channel]))
      | _ \<Rightarrow> load_triggers L path project rest out)"

definition RESERVED_SUBDIRS :: "string list" where
  "RESERVED_SUBDIRS = [''triggers'', ''sources'', ''cronmanager-jobs'']"

type_synonym project_load = "dsl hmap hmap \<times> trigger_dsls \<times> dsl hmap"

definition hm_extend :: "('k \<times> 'v) list \<Rightarrow> ('k \<times> 'v) list \<Rightarrow> ('k \<times> 'v) list" where
  "hm_extend m new = fold (\<lambda>(k, v). hm_insert k v) new m"

definition load_method_into ::
  "load_params \<Rightarrow> string list \<Rightarrow> fs_node \<Rightarrow> string \<Rightarrow> project_load \<Rightarrow> load_error + project_load" where
  "load_method_into L path node name acc =
     (case acc of (methods, triggers, gs) \<Rightarrow>
        bindr (load_method_dsls L path node name) (\<lambda>(ds, method_guards).
          Inr (hm_insert name ds methods, triggers, hm_extend gs method_guards)))"

text \<open>One directory of a project. \<open>WS\<close> holds \<open>inbound/\<close> and \<open>outbound/\<close>, or the frame handlers themselves.\<close>

definition load_subdir ::
  "load_params \<Rightarrow> string \<Rightarrow> string \<Rightarrow> fs_node \<Rightarrow> project_load \<Rightarrow> load_error + project_load" where
  "load_subdir L project name node acc =
     (let path = [project, name]; children = (case node of Dir es \<Rightarrow> es | _ \<Rightarrow> []) in
      if name = ''triggers''
      then (case node of
              Dir es \<Rightarrow> (case acc of (methods, triggers, gs) \<Rightarrow>
                bindr (load_triggers L path project es triggers) (\<lambda>t. Inr (methods, t, gs)))
            | _ \<Rightarrow> Inl (IoFailed path))
      else if name \<in> set RESERVED_SUBDIRS then Inr acc
      else if name = ''WS''
      then (case map_of children ''inbound'' of
              Some inb \<Rightarrow> load_method_into L (path @ [''inbound'']) inb name acc
            | None \<Rightarrow>
                if map_of children ''outbound'' \<noteq> None then Inr acc
                else load_method_into L path node name acc)
      else load_method_into L path node name acc)"

fun load_subdirs ::
  "load_params \<Rightarrow> string \<Rightarrow> (string \<times> fs_node) list \<Rightarrow> project_load \<Rightarrow> load_error + project_load" where
  "load_subdirs L project [] acc = Inr acc"
| "load_subdirs L project ((name, node) # rest) acc =
     (if is_dir node
      then bindr (load_subdir L project name node acc) (\<lambda>acc'. load_subdirs L project rest acc')
      else load_subdirs L project rest acc)"

definition project_guard_candidates :: "(string \<times> fs_node) list \<Rightarrow> string list" where
  "project_guard_candidates es =
     filter (\<lambda>n. case map_of es n of Some node \<Rightarrow> \<not> is_dir node | None \<Rightarrow> False)
       [''.guard'', ''.guard.yml'', ''.guard.yaml'']"

definition load_project :: "load_params \<Rightarrow> string \<Rightarrow> fs_node \<Rightarrow> load_error + project_load" where
  "load_project L project node =
     (case node of
        Dir es \<Rightarrow>
          (let candidates = project_guard_candidates es in
           bindr (ensure (length candidates \<le> 1) (ManyProjectGuards project candidates)) (\<lambda>_.
           bindr (case candidates of
               [] \<Rightarrow> Inr []
             | n # _ \<Rightarrow> bindr (parse_file L [project, n] (opt_or (map_of es n) FileDenied))
                          (\<lambda>d. Inr [(PROJECT_GUARD_KEY, d)])) (\<lambda>gs.
           load_subdirs L project es ([], [], gs))))
      | _ \<Rightarrow> Inl (IoFailed [project]))"

record loaded_projects =
  ld_http :: http_dsls
  ld_triggers :: trigger_dsls
  ld_guards :: guard_dsls

fun load_projects :: "load_params \<Rightarrow> (string \<times> fs_node) list \<Rightarrow> loaded_projects \<Rightarrow> load_error + loaded_projects" where
  "load_projects L [] out = Inr out"
| "load_projects L ((project, node) # rest) out =
     (if is_dir node
      then bindr (load_project L project node) (\<lambda>(methods, triggers, gs).
        load_projects L rest \<lparr>ld_http = hm_insert project methods (ld_http out),
          ld_triggers = hm_extend (ld_triggers out) (map (\<lambda>((_, channel), per_key). ((project, channel), per_key)) triggers),
          ld_guards = (if gs = [] then ld_guards out else hm_insert project gs (ld_guards out))\<rparr>)
      else load_projects L rest out)"

definition load_everything :: "load_params \<Rightarrow> fs_node \<Rightarrow> load_error + loaded_projects" where
  "load_everything L root =
     (case root of
        Dir es \<Rightarrow> load_projects L es \<lparr>ld_http = [], ld_triggers = [], ld_guards = []\<rparr>
      | _ \<Rightarrow> Inl (IoFailed []))"

section \<open>Missing declarations\<close>

definition HTTP_METHODS :: "string list" where
  "HTTP_METHODS = [''GET'', ''POST'', ''PUT'', ''PATCH'', ''DELETE'', ''OPTIONS'', ''HEAD'']"

definition missing_in :: "dsl hmap hmap \<Rightarrow> nat" where
  "missing_in by_method = sum_list (map (\<lambda>(meth, ds).
     if to_uppercase meth \<in> set HTTP_METHODS
     then length (filter (\<lambda>(_, d). dsl_declaration d = None) ds) else 0) by_method)"

definition warn_on_missing_declarations :: "http_dsls \<Rightarrow> nat" where
  "warn_on_missing_declarations http = sum_list (map (\<lambda>(_, by_method). missing_in by_method) http)"

section \<open>Source configurations\<close>

text \<open>\<open>decode\<close>: YAML text to a source configuration, serde's.\<close>

fun load_project_sources ::
  "(string \<Rightarrow> string + ws_source_config) \<Rightarrow> string list \<Rightarrow> string \<Rightarrow> (string \<times> fs_node) list \<Rightarrow>
   (string \<times> string \<times> ws_source_config) list \<Rightarrow> load_error + (string \<times> string \<times> ws_source_config) list" where
  "load_project_sources decode path project [] out = Inr out"
| "load_project_sources decode path project ((name, node) # rest) out =
     (if is_dir node \<or> extension name \<notin> {Some ''yml'', Some ''yaml''}
      then load_project_sources decode path project rest out
      else
        (case node of
           File body \<Rightarrow>
             (case decode body of
                Inl e \<Rightarrow> Inl (BadSource project (file_stem name) e)
              | Inr cfg \<Rightarrow> load_project_sources decode path project rest (out @ [(project, file_stem name, cfg)]))
         | _ \<Rightarrow> Inl (IoFailed (path @ [name]))))"

definition sources_dir :: "fs_node \<Rightarrow> (string list \<times> fs_node) option" where
  "sources_dir node =
     (let children = (case node of Dir es \<Rightarrow> es | _ \<Rightarrow> []);
          outbound = Option.bind (map_of children ''WS'') (\<lambda>ws. case ws of Dir es \<Rightarrow> map_of es ''outbound'' | _ \<Rightarrow> None)
      in case outbound of
           Some d \<Rightarrow> Some ([''WS'', ''outbound''], d)
         | None \<Rightarrow> map_option (Pair [''sources'']) (map_of children ''sources''))"

fun load_sources ::
  "(string \<Rightarrow> string + ws_source_config) \<Rightarrow> (string \<times> fs_node) list \<Rightarrow>
   (string \<times> string \<times> ws_source_config) list \<Rightarrow> load_error + (string \<times> string \<times> ws_source_config) list" where
  "load_sources decode [] out = Inr out"
| "load_sources decode ((project, node) # rest) out =
     (if \<not> is_dir node then load_sources decode rest out
      else bindr (case sources_dir node of
          None \<Rightarrow> Inr out
        | Some (rel, d) \<Rightarrow>
            (case d of
               Dir es \<Rightarrow> load_project_sources decode (project # rel) project es out
             | _ \<Rightarrow> Inl (IoFailed (project # rel)))) (load_sources decode rest))"

definition load_all_sources ::
  "(string \<Rightarrow> string + ws_source_config) \<Rightarrow> fs_node option \<Rightarrow> load_error + (string \<times> string \<times> ws_source_config) list" where
  "load_all_sources decode root =
     (case root of
        None \<Rightarrow> Inr []
      | Some (Dir es) \<Rightarrow> load_sources decode es []
      | Some _ \<Rightarrow> Inl (IoFailed []))"

section \<open>What a scan loads\<close>

text \<open>The files below a directory, each with the directories that lead to it.\<close>

fun tree_files :: "string list \<Rightarrow> (string \<times> fs_node) list \<Rightarrow> (string list \<times> string \<times> fs_node) list" where
  "tree_files rel [] = []"
| "tree_files rel ((name, node) # rest) =
     (case node of Dir es \<Rightarrow> tree_files (rel @ [name]) es | DirDenied \<Rightarrow> [] | file \<Rightarrow> [(rel, name, file)]) @
     tree_files rel rest"

definition dsl_keys :: "load_params \<Rightarrow> string \<Rightarrow> (string list \<times> string \<times> fs_node) list \<Rightarrow> string set" where
  "dsl_keys L meth files = {build_dsl_key meth r n | r n f.
     (r, n, f) \<in> set files \<and> is_processable_file L n \<and> \<not> is_guard_file n}"

definition guard_keys :: "load_params \<Rightarrow> string \<Rightarrow> (string list \<times> string \<times> fs_node) list \<Rightarrow> string set" where
  "guard_keys L meth files = {k. \<exists>r n f. (r, n, f) \<in> set files \<and> is_processable_file L n \<and> is_guard_file n \<and>
     build_guard_key meth r n = Inr k}"

lemma keys_Nil [simp]: "dsl_keys L meth [] = {}" "guard_keys L meth [] = {}"
  by (simp_all add: dsl_keys_def guard_keys_def)

lemma keys_append [simp]:
  "dsl_keys L meth (xs @ ys) = dsl_keys L meth xs \<union> dsl_keys L meth ys"
  "guard_keys L meth (xs @ ys) = guard_keys L meth xs \<union> guard_keys L meth ys"
  unfolding dsl_keys_def guard_keys_def set_append by blast+

lemma keys_of_file:
  "dsl_keys L meth [(r, n, f)] = (if is_processable_file L n \<and> \<not> is_guard_file n then {build_dsl_key meth r n} else {})"
  "guard_keys L meth [(r, n, f)] = {k. is_processable_file L n \<and> is_guard_file n \<and> build_guard_key meth r n = Inr k}"
  by (auto simp: dsl_keys_def guard_keys_def)

lemma load_file_keys:
  assumes "load_file L meth base rel name file acc = Inr (ds, gs)"
  shows "fst ` set ds = fst ` set (fst acc) \<union> dsl_keys L meth [(rel, name, file)]"
    and "fst ` set gs = fst ` set (snd acc) \<union> guard_keys L meth [(rel, name, file)]"
proof -
  have "fst ` set ds = fst ` set (fst acc) \<union> dsl_keys L meth [(rel, name, file)] \<and>
        fst ` set gs = fst ` set (snd acc) \<union> guard_keys L meth [(rel, name, file)]"
  proof (cases "is_processable_file L name")
    case processable: True
    show ?thesis
    proof (cases "is_guard_file name")
      case True
      then obtain k d where "build_guard_key meth rel name = Inr k" "ds = fst acc" "gs = hm_insert k d (snd acc)"
        using assms processable unfolding load_file_def by (auto simp: bindr_Inr_iff)
      then show ?thesis using True processable by (simp add: keys_of_file dom_update)
    next
      case False
      then obtain d where "ds = hm_insert (build_dsl_key meth rel name) d (fst acc)" "gs = snd acc"
        using assms processable unfolding load_file_def by (auto simp: bindr_Inr_iff)
      then show ?thesis using False processable by (simp add: keys_of_file dom_update)
    qed
  qed (use assms in \<open>simp add: load_file_def keys_of_file\<close>)
  then show "fst ` set ds = fst ` set (fst acc) \<union> dsl_keys L meth [(rel, name, file)]"
    and "fst ` set gs = fst ` set (snd acc) \<union> guard_keys L meth [(rel, name, file)]" by simp_all
qed

lemma scan_keys:
  assumes "scan_directory L meth base rel es acc = Inr (ds, gs)"
  shows "fst ` set ds = fst ` set (fst acc) \<union> dsl_keys L meth (tree_files rel es)"
    and "fst ` set gs = fst ` set (snd acc) \<union> guard_keys L meth (tree_files rel es)"
proof -
  have "fst ` set ds = fst ` set (fst acc) \<union> dsl_keys L meth (tree_files rel es) \<and>
        fst ` set gs = fst ` set (snd acc) \<union> guard_keys L meth (tree_files rel es)"
    using assms
  proof (induction L meth base rel es acc arbitrary: ds gs rule: scan_directory.induct)
    case (2 L meth base rel name node rest acc)
    have step: ?case if "part = Inr (ds1, gs1)" "scan_directory L meth base rel rest (ds1, gs1) = Inr (ds, gs)"
      "fst ` set ds1 = fst ` set (fst acc) \<union> dsl_keys L meth here" "fst ` set gs1 = fst ` set (snd acc) \<union> guard_keys L meth here"
      "tree_files rel ((name, node) # rest) = here @ tree_files rel rest"
      for part :: "load_error + dsl hmap \<times> dsl hmap" and ds1 gs1 here
      using 2(2)[OF that(2)] that by (simp add: Un_assoc)
    obtain ds1 gs1 where a: "scan_directory L meth base rel rest (ds1, gs1) = Inr (ds, gs)"
      "(case node of Dir es \<Rightarrow> scan_directory L meth base (rel @ [name]) es acc
        | DirDenied \<Rightarrow> Inl (IoFailed (base @ rel @ [name])) | file \<Rightarrow> load_file L meth base rel name file acc) = Inr (ds1, gs1)"
      using 2(3) by (auto simp: bindr_Inr_iff)
    show ?case
    proof (cases node)
      case (Dir es)
      show ?thesis by (rule step[OF _ a(1)]) (use 2(1)[OF Dir] a(2) Dir in auto)
    next
      case (File content)
      show ?thesis by (rule step[OF _ a(1)]) (use load_file_keys a(2) File in auto)
    next
      case FileDenied
      show ?thesis by (rule step[OF _ a(1)]) (use load_file_keys a(2) FileDenied in auto)
    qed (use a(2) in simp)
  qed simp
  then show "fst ` set ds = fst ` set (fst acc) \<union> dsl_keys L meth (tree_files rel es)"
    and "fst ` set gs = fst ` set (snd acc) \<union> guard_keys L meth (tree_files rel es)"
    by simp_all
qed

section \<open>What a guard key covers\<close>

definition plain_name :: "string \<Rightarrow> bool" where
  "plain_name s \<longleftrightarrow> s \<noteq> [] \<and> CHR ''/'' \<notin> set s \<and> CHR 0x5C \<notin> set s"

lemma split_on_join:
  "ws \<noteq> [] \<Longrightarrow> (\<And>w. w \<in> set ws \<Longrightarrow> c \<notin> set w) \<Longrightarrow> split_on c (join_with [c] ws) = ws"
  by (induction "[c]" ws rule: join_with.induct) (simp_all add: split_on_no_sep split_on_sep)

lemma split_on_append_sep: "split_on c (a @ c # b) = split_on c a @ split_on c b"
proof (induction a)
  case (Cons x a)
  have "split_on c a \<noteq> []" by (cases a) (auto split: list.splits)
  then show ?case using Cons by (auto split: list.splits)
qed simp

lemma join_append:
  "xs \<noteq> [] \<Longrightarrow> ys \<noteq> [] \<Longrightarrow> join_with sep (xs @ ys) = join_with sep xs @ sep @ join_with sep ys"
  by (induction sep xs rule: join_with.induct) (auto simp: neq_Nil_conv)

text \<open>On keys made of components, covering is being a prefix as a list of components.\<close>

lemma covers_iff_prefix:
  assumes "xs \<noteq> []" "ys \<noteq> []" "\<And>w. w \<in> set xs \<union> set ys \<Longrightarrow> CHR ''/'' \<notin> set w"
  shows "guard_covers (join_with ''/'' ys) (join_with ''/'' xs) \<longleftrightarrow> take (length xs) ys = xs"
proof
  have sx: "split_on CHR ''/'' (join_with ''/'' xs) = xs" and sy: "split_on CHR ''/'' (join_with ''/'' ys) = ys"
    using assms by (auto intro: split_on_join)
  assume "guard_covers (join_with ''/'' ys) (join_with ''/'' xs)"
  then consider "join_with ''/'' ys = join_with ''/'' xs" | t where "join_with ''/'' ys = join_with ''/'' xs @ CHR ''/'' # t"
    by (auto simp: guard_covers_def starts_with_iff)
  then show "take (length xs) ys = xs"
  proof cases
    case 1
    then show ?thesis using sx sy by simp
  next
    case 2
    then have "ys = xs @ split_on CHR ''/'' t" using sx sy split_on_append_sep by metis
    then show ?thesis by simp
  qed
next
  assume "take (length xs) ys = xs"
  then obtain zs where ys: "ys = xs @ zs" by (metis append_take_drop_id)
  then show "guard_covers (join_with ''/'' ys) (join_with ''/'' xs)"
    using assms(1) by (cases "zs = []") (auto simp: guard_covers_def starts_with_iff join_append)
qed

text \<open>The directory a guard file protects.\<close>

definition guard_scope :: "string list \<Rightarrow> string \<Rightarrow> string list" where
  "guard_scope rel name =
     (if is_in_folder_guard name then rel
      else rel @ [opt_or (Option.bind (at_last_dot name) (\<lambda>(b, _). map_option fst (at_last_dot b))) []])"

lemma at_last_dot_None: "at_last_dot s = None \<longleftrightarrow> CHR ''.'' \<notin> set s"
  by (induction s) (auto split: option.splits)

lemma at_last_dot_Some: "at_last_dot s = Some (b, e) \<Longrightarrow> s = b @ CHR ''.'' # e \<and> CHR ''.'' \<notin> set e"
  by (induction s arbitrary: b) (auto split: option.splits if_splits simp: at_last_dot_None)

lemma contains_str_iff: "contains_str s p \<longleftrightarrow> (\<exists>a b. s = a @ p @ b)"
proof (induction s)
  case (Cons c cs)
  note IH = Cons.IH
  show ?case
  proof
    assume "contains_str (c # cs) p"
    then consider t where "c # cs = p @ t" | a b where "cs = a @ p @ b"
      using Cons.IH by (auto simp: starts_with_iff)
    then show "\<exists>a b. c # cs = a @ p @ b"
    proof cases
      case (1 t)
      then show ?thesis by (intro exI[of _ "[]"] exI[of _ t]) simp
    next
      case (2 a b)
      then show ?thesis by (intro exI[of _ "c # a"] exI[of _ b]) simp
    qed
  next
    assume "\<exists>a b. c # cs = a @ p @ b"
    then obtain a b where ab: "c # cs = a @ p @ b" by blast
    show "contains_str (c # cs) p"
    proof (cases a)
      case Nil
      then have "starts_with (c # cs) p" using ab by (auto simp: starts_with_iff)
      then show ?thesis by simp
    next
      case (Cons x a')
      then show ?thesis using ab IH by auto
    qed
  qed
qed auto

text \<open>Every guard file has a key: the name of a sibling guard has the two dots its stem is cut at.\<close>

lemma guard_key_total:
  assumes "is_guard_file name"
  shows "\<exists>k. build_guard_key meth rel name = Inr k"
proof (cases "is_in_folder_guard name")
  case False
  then obtain x y where name: "name = x @ ''.guard.'' @ y"
    using assms by (auto simp: is_guard_file_def is_in_folder_guard_def contains_str_iff)
  obtain b e where b: "at_last_dot name = Some (b, e)"
    using name at_last_dot_None[of name] by (cases "at_last_dot name") auto
  have "CHR ''.'' \<in> set b"
  proof (rule ccontr)
    assume "CHR ''.'' \<notin> set b"
    then have "length (filter (\<lambda>c. c = CHR ''.'') name) = 1"
      using at_last_dot_Some[OF b] by (auto simp: filter_empty_conv)
    then show False by (simp add: name)
  qed
  then obtain s where "at_last_dot b = Some s" using at_last_dot_None[of b] by (cases "at_last_dot b") auto
  then show ?thesis using b by (cases s) (simp add: build_guard_key_def Let_def)
qed (simp add: build_guard_key_def Let_def)

lemma plain_parts:
  assumes "plain_name name"
  shows "CHR ''/'' \<notin> set (file_stem name)" "CHR 0x5C \<notin> set (file_stem name)"
    and "Option.bind (at_last_dot name) (\<lambda>(b, _). map_option fst (at_last_dot b)) = Some s \<Longrightarrow> CHR ''/'' \<notin> set s"
  using assms
  by (auto simp: plain_name_def file_stem_def bind_eq_Some_conv split: option.splits prod.splits dest!: at_last_dot_Some)

lemma slashes_plain: "CHR 0x5C \<notin> set s \<Longrightarrow> slashes s = s"
  by (induction s) (auto simp: slashes_def)

lemma join_set: "set (join_with sep ws) \<subseteq> set sep \<union> (\<Union>w \<in> set ws. set w)"
  by (induction sep ws rule: join_with.induct) auto

lemma slashes_join: "(\<And>w. w \<in> set ws \<Longrightarrow> CHR 0x5C \<notin> set w) \<Longrightarrow> slashes (join_with ''/'' ws) = join_with ''/'' ws"
  using join_set[of "''/''" ws] by (intro slashes_plain) auto

lemma dsl_key_join:
  assumes "\<forall>w \<in> set rel. plain_name w" "plain_name name"
  shows "build_dsl_key meth rel name = join_with ''/'' (meth # rel @ [file_stem name])"
proof -
  have "slashes (join_with ''/'' (rel @ [file_stem name])) = join_with ''/'' (rel @ [file_stem name])"
    using assms plain_parts(2) by (intro slashes_join) (auto simp: plain_name_def)
  then show ?thesis by (cases rel) (simp_all add: build_dsl_key_def)
qed

lemma guard_key_join:
  assumes "\<forall>w \<in> set rel. plain_name w" "build_guard_key meth rel name = Inr k"
  shows "k = join_with ''/'' (meth # guard_scope rel name)"
proof -
  have sl: "slashes (join_with ''/'' rel) = join_with ''/'' rel"
    using assms(1) by (intro slashes_join) (auto simp: plain_name_def)
  have ne: "join_with ''/'' rel = [] \<longleftrightarrow> rel = []"
    using assms(1) by (cases rel; cases "tl rel") (auto simp: plain_name_def)
  have cons: "rel \<noteq> [] \<Longrightarrow> join_with ''/'' (meth # rel) = meth @ ''/'' @ join_with ''/'' rel" by (cases rel) auto
  show ?thesis
    using assms(2) sl ne cons
    by (cases "rel = []") (auto simp: build_guard_key_def guard_scope_def Let_def join_with_snoc
        simp flip: append_Cons split: if_splits option.splits)
qed

lemma guard_scope_covers:
  assumes "\<forall>w \<in> set (meth # rel @ [gname] @ p @ [name]). plain_name w" "build_guard_key meth rel gname = Inr k"
  shows "guard_covers (build_dsl_key meth p name) k \<longleftrightarrow>
    take (length (guard_scope rel gname)) (p @ [file_stem name]) = guard_scope rel gname"
proof -
  have free: "CHR ''/'' \<notin> set w" if "w \<in> set (meth # guard_scope rel gname) \<union> set (meth # p @ [file_stem name])" for w
    using that assms plain_parts(1)[of name] plain_parts(3)[of gname]
    by (auto simp: guard_scope_def build_guard_key_def plain_name_def Let_def split: if_splits option.splits)
  have "guard_covers (join_with ''/'' (meth # p @ [file_stem name])) (join_with ''/'' (meth # guard_scope rel gname)) \<longleftrightarrow>
      take (length (meth # guard_scope rel gname)) (meth # p @ [file_stem name]) = meth # guard_scope rel gname"
    by (rule covers_iff_prefix[OF _ _ free]) simp_all
  then show ?thesis using dsl_key_join[of p name meth] guard_key_join[OF _ assms(2)] assms(1) by simp
qed

section \<open>Through a project to the whole tree\<close>

lemma extend_keys: "fst ` set (hm_extend m new) = fst ` set m \<union> fst ` set new"
proof (induction new arbitrary: m)
  case (Cons kv new)
  show ?case using Cons.IH[of "hm_insert (fst kv) (snd kv) m"]
    by (cases kv) (auto simp: hm_extend_def dom_update)
qed (simp add: hm_extend_def)

lemma method_into_ok:
  assumes "load_method_into L path node name (methods, triggers, gs) = Inr (m', t', gs')"
  obtains ds mg where "load_method_dsls L path node name = Inr (ds, mg)" "m' = hm_insert name ds methods"
    "gs' = hm_extend gs mg"
  using assms that by (auto simp: load_method_into_def bindr_Inr_iff)

lemma load_subdir_cases:
  assumes "load_subdir L project name node (methods, triggers, gs) = Inr (m', t', gs')"
  obtains "m' = methods" "t' = triggers" "gs' = gs"
    | path es where "load_triggers L path project es triggers = Inr t'" "m' = methods" "gs' = gs"
    | path ch where "load_method_into L path ch name (methods, triggers, gs) = Inr (m', t', gs')"
proof (cases "name = ''triggers''")
  case True
  then show thesis using assms that(2) by (cases node) (auto simp: load_subdir_def bindr_Inr_iff)
next
  case no_triggers: False
  show thesis
  proof (cases "name \<in> set RESERVED_SUBDIRS")
    case True
    then show thesis using assms that(1) no_triggers by (simp add: load_subdir_def)
  next
    case False
    show thesis
    proof (cases "name = ''WS''")
      case ws: True
      let ?children = "case node of Dir es \<Rightarrow> es | _ \<Rightarrow> []"
      have l: "(case map_of ?children ''inbound'' of
          Some inb \<Rightarrow> load_method_into L ([project, name] @ [''inbound'']) inb name (methods, triggers, gs)
        | None \<Rightarrow> if map_of ?children ''outbound'' \<noteq> None then Inr (methods, triggers, gs)
            else load_method_into L [project, name] node name (methods, triggers, gs)) = Inr (m', t', gs')"
        using assms unfolding load_subdir_def Let_def if_not_P[OF no_triggers] if_not_P[OF False] if_P[OF ws] .
      show thesis
      proof (cases "map_of ?children ''inbound''")
        case None
        then show thesis using l that(1,3) by (cases "map_of ?children ''outbound''") auto
      next
        case (Some inb)
        then show thesis using l that(3) by simp
      qed
    next
      case other: False
      have "load_method_into L [project, name] node name (methods, triggers, gs) = Inr (m', t', gs')"
        using assms False no_triggers other by (simp add: load_subdir_def Let_def)
      then show thesis by (rule that(3))
    qed
  qed
qed

lemma subdir_frame:
  assumes "load_subdir L project name node (methods, triggers, gs) = Inr (m', t', gs')"
  shows "fst ` set gs \<subseteq> fst ` set gs'" "x \<noteq> name \<Longrightarrow> map_of m' x = map_of methods x"
proof -
  from assms have "fst ` set gs \<subseteq> fst ` set gs' \<and> (x \<noteq> name \<longrightarrow> map_of m' x = map_of methods x)"
  proof (cases rule: load_subdir_cases)
    case (3 path ch)
    then show ?thesis by (rule method_into_ok) (simp add: extend_keys update_conv')
  qed simp_all
  then show "fst ` set gs \<subseteq> fst ` set gs'" "x \<noteq> name \<Longrightarrow> map_of m' x = map_of methods x" by simp_all
qed

lemma subdirs_frame:
  assumes "load_subdirs L project es (methods, triggers, gs) = Inr (m', t', gs')"
  shows "fst ` set gs \<subseteq> fst ` set gs'" "x \<notin> fst ` set es \<Longrightarrow> map_of m' x = map_of methods x"
proof -
  have "fst ` set gs \<subseteq> fst ` set gs' \<and> (x \<notin> fst ` set es \<longrightarrow> map_of m' x = map_of methods x)"
    using assms
  proof (induction es arbitrary: methods triggers gs)
    case (Cons e es)
    obtain name node where e: "e = (name, node)" by (cases e)
    show ?case
    proof (cases "is_dir node")
      case True
      then obtain m1 t1 gs1 where one: "load_subdir L project name node (methods, triggers, gs) = Inr (m1, t1, gs1)"
        and rest: "load_subdirs L project es (m1, t1, gs1) = Inr (m', t', gs')"
        using Cons.prems by (auto simp: e bindr_Inr_iff)
      from subdir_frame[OF one] Cons.IH[OF rest] show ?thesis by (simp add: e) blast
    qed (use Cons in \<open>simp add: e\<close>)
  qed simp
  then show "fst ` set gs \<subseteq> fst ` set gs'" "x \<notin> fst ` set es \<Longrightarrow> map_of m' x = map_of methods x" by simp_all
qed

definition ordinary_method :: "string \<Rightarrow> bool" where
  "ordinary_method name \<longleftrightarrow> name \<notin> set RESERVED_SUBDIRS \<and> name \<noteq> ''WS''"

lemma subdirs_at:
  assumes "load_subdirs L project es (methods, triggers, gs) = Inr (m', t', gs')"
    and "distinct (map fst es)" "(meth, Dir ms) \<in> set es" "ordinary_method meth"
  shows "\<exists>ds mg. load_method_dsls L [project, meth] (Dir ms) meth = Inr (ds, mg) \<and> map_of m' meth = Some ds \<and>
    fst ` set mg \<subseteq> fst ` set gs'"
  using assms
proof (induction es arbitrary: methods triggers gs)
  case (Cons e es)
  obtain name node where e: "e = (name, node)" by (cases e)
  show ?case
  proof (cases "e = (meth, Dir ms)")
    case True
    then obtain m1 t1 gs1 where s: "load_subdir L project meth (Dir ms) (methods, triggers, gs) = Inr (m1, t1, gs1)"
      "load_subdirs L project es (m1, t1, gs1) = Inr (m', t', gs')"
      using Cons.prems(1) by (auto simp: bindr_Inr_iff)
    have "load_method_into L [project, meth] (Dir ms) meth (methods, triggers, gs) = Inr (m1, t1, gs1)"
      using s(1) assms(4) by (auto simp: load_subdir_def Let_def ordinary_method_def RESERVED_SUBDIRS_def)
    then obtain ds mg where l: "load_method_dsls L [project, meth] (Dir ms) meth = Inr (ds, mg)"
      "m1 = hm_insert meth ds methods" "gs1 = hm_extend gs mg" by (rule method_into_ok)
    have "meth \<notin> fst ` set es" using Cons.prems(2) True by auto
    then have "map_of m' meth = Some ds" "fst ` set mg \<subseteq> fst ` set gs'"
      using subdirs_frame[OF s(2)] l by (auto simp: update_conv' extend_keys)
    then show ?thesis using l(1) by blast
  next
    case False
    then have "(meth, Dir ms) \<in> set es" using Cons.prems(3) by auto
    moreover have "\<exists>m1 t1 gs1. load_subdirs L project es (m1, t1, gs1) = Inr (m', t', gs')"
      using Cons.prems(1) by (cases "is_dir node") (auto simp: e bindr_Inr_iff)
    ultimately show ?thesis using Cons.IH Cons.prems(2) assms(4) by auto
  qed
qed simp

lemma projects_frame:
  assumes "load_projects L es out = Inr ld" "x \<notin> fst ` set es"
  shows "map_of (ld_http ld) x = map_of (ld_http out) x" "map_of (ld_guards ld) x = map_of (ld_guards out) x"
proof -
  have "map_of (ld_http ld) x = map_of (ld_http out) x \<and> map_of (ld_guards ld) x = map_of (ld_guards out) x"
    using assms
  proof (induction L es out rule: load_projects.induct)
    case (2 L project node rest out)
    show ?case
    proof (cases "is_dir node")
      case True
      then obtain methods triggers gs where "load_project L project node = Inr (methods, triggers, gs)"
        using 2(3) by (auto simp: bindr_Inr_iff)
      then show ?thesis using 2(1)[OF True] 2(3,4) True by (auto simp: update_conv')
    qed (use 2 in simp)
  qed simp
  then show "map_of (ld_http ld) x = map_of (ld_http out) x" "map_of (ld_guards ld) x = map_of (ld_guards out) x"
    by simp_all
qed

lemma projects_at:
  assumes "load_projects L es out = Inr ld" "distinct (map fst es)" "(project, Dir ch) \<in> set es"
  shows "\<exists>methods triggers gs. load_project L project (Dir ch) = Inr (methods, triggers, gs) \<and>
    map_of (ld_http ld) project = Some methods \<and> (gs \<noteq> [] \<longrightarrow> map_of (ld_guards ld) project = Some gs)"
  using assms
proof (induction es arbitrary: out)
  case (Cons e es)
  obtain name node where e: "e = (name, node)" by (cases e)
  show ?case
  proof (cases "e = (project, Dir ch)")
    case True
    then obtain methods triggers gs out1 where l: "load_project L project (Dir ch) = Inr (methods, triggers, gs)"
      and r: "load_projects L es out1 = Inr ld"
      and out1: "ld_http out1 = hm_insert project methods (ld_http out)"
        "ld_guards out1 = (if gs = [] then ld_guards out else hm_insert project gs (ld_guards out))"
      using Cons.prems(1) by (fastforce simp: bindr_Inr_iff)
    have "project \<notin> fst ` set es" using Cons.prems(2) True by auto
    then show ?thesis using projects_frame[OF r] l out1 by (auto simp: update_conv')
  next
    case False
    then have "(project, Dir ch) \<in> set es" using Cons.prems(3) by auto
    moreover have "\<exists>out1. load_projects L es out1 = Inr ld"
      using Cons.prems(1) by (cases "is_dir node") (auto simp: e bindr_Inr_iff)
    ultimately show ?thesis using Cons.IH Cons.prems(2) by auto
  qed
qed simp

lemma load_project_subdirs:
  assumes "load_project L project (Dir es) = Inr r"
  shows "\<exists>gs. load_subdirs L project es ([], [], gs) = Inr r"
  using assms by (auto simp: load_project_def Let_def bindr_Inr_iff)

section \<open>Every loaded DSL was parsed\<close>

definition parsed :: "load_params \<Rightarrow> dsl \<Rightarrow> bool" where
  "parsed L d \<longleftrightarrow> (\<exists>content. parse_content (serde L) (boot_constants L) content = Inr d)"

definition values_ok :: "('v \<Rightarrow> bool) \<Rightarrow> ('k \<times> 'v) list \<Rightarrow> bool" where
  "values_ok ok m \<longleftrightarrow> (\<forall>(k, v) \<in> set m. ok v)"

lemma values_ok_Nil [simp]: "values_ok ok []"
  by (simp add: values_ok_def)

lemma values_ok_insert [intro]: "values_ok ok m \<Longrightarrow> ok v \<Longrightarrow> values_ok ok (hm_insert k v m)"
  by (induction m) (auto simp: values_ok_def)

lemma values_ok_extend [intro]: "values_ok ok m \<Longrightarrow> values_ok ok new \<Longrightarrow> values_ok ok (hm_extend m new)"
proof (induction new arbitrary: m)
  case (Cons kv new)
  have "values_ok ok (hm_insert (fst kv) (snd kv) m)" "values_ok ok new"
    using Cons.prems by (auto simp: values_ok_def[of ok "_ # _"]) (auto simp: values_ok_def)
  then have "values_ok ok (hm_extend (hm_insert (fst kv) (snd kv) m) new)" by (rule Cons.IH)
  then show ?case by (simp add: hm_extend_def case_prod_beta)
qed (simp add: hm_extend_def)

lemma values_ok_mono: "values_ok ok m \<Longrightarrow> (\<And>v. ok v \<Longrightarrow> ok' v) \<Longrightarrow> values_ok ok' m"
  by (auto simp: values_ok_def)

lemma parsed_valid: "parsed L d \<Longrightarrow> dsl_valid d"
  by (auto simp: parsed_def dest: parse_content_valid)

abbreviation all_parsed :: "load_params \<Rightarrow> ('k \<times> dsl) list \<Rightarrow> bool" where
  "all_parsed L \<equiv> values_ok (parsed L)"

abbreviation tree_parsed :: "load_params \<Rightarrow> ('k \<times> ('j \<times> dsl) list) list \<Rightarrow> bool" where
  "tree_parsed L \<equiv> values_ok (all_parsed L)"

lemma parse_file_parsed: "parse_file L path node = Inr d \<Longrightarrow> parsed L d"
  by (auto simp: parse_file_def parsed_def split: fs_node.splits sum.splits)

lemma load_file_parsed:
  assumes "load_file L meth base rel name file acc = Inr (ds, gs)" "all_parsed L (fst acc)" "all_parsed L (snd acc)"
  shows "all_parsed L ds \<and> all_parsed L gs"
  using assms parse_file_parsed by (auto simp: load_file_def bindr_Inr_iff split: if_splits)

lemma scan_parsed:
  assumes "scan_directory L meth base rel es acc = Inr (ds, gs)" "all_parsed L (fst acc)" "all_parsed L (snd acc)"
  shows "all_parsed L ds \<and> all_parsed L gs"
  using assms
proof (induction L meth base rel es acc arbitrary: ds gs rule: scan_directory.induct)
  case (2 L meth base rel name node rest acc)
  obtain ds1 gs1 where a: "scan_directory L meth base rel rest (ds1, gs1) = Inr (ds, gs)"
    "(case node of Dir es \<Rightarrow> scan_directory L meth base (rel @ [name]) es acc
      | DirDenied \<Rightarrow> Inl (IoFailed (base @ rel @ [name])) | file \<Rightarrow> load_file L meth base rel name file acc) = Inr (ds1, gs1)"
    using 2(3) by (auto simp: bindr_Inr_iff)
  have "all_parsed L ds1 \<and> all_parsed L gs1"
  proof (cases node)
    case (Dir es)
    then show ?thesis using 2(1)[OF Dir] 2(4,5) a(2) by simp
  qed (use a(2) load_file_parsed 2(4,5) in auto)
  then show ?case using 2(2)[OF a(1)] by simp
qed simp

lemma method_dsls_parsed:
  "load_method_dsls L path node meth = Inr (ds, gs) \<Longrightarrow> all_parsed L ds \<and> all_parsed L gs"
  using scan_parsed by (fastforce simp: load_method_dsls_def split: fs_node.splits)

lemma trigger_keys_parsed:
  "load_trigger_keys L path es per_key = Inr r \<Longrightarrow> all_parsed L per_key \<Longrightarrow> all_parsed L r"
proof (induction L path es per_key rule: load_trigger_keys.induct)
  case (2 L path name node rest per_key)
  show ?case
  proof (cases "\<not> is_processable_file L name \<or> is_guard_file name")
    case False
    then obtain d where d: "parse_file L (path @ [name]) node = Inr d"
      "load_trigger_keys L path rest (hm_insert (file_stem name) d per_key) = Inr r"
      using 2(3) by (auto simp: bindr_Inr_iff)
    show ?thesis
      by (rule 2(2)[OF False d(2)]) (use d(1) 2(4) parse_file_parsed in auto)
  qed (use 2 in auto)
qed simp

lemma triggers_parsed:
  "load_triggers L path project es out = Inr t \<Longrightarrow> tree_parsed L out \<Longrightarrow> tree_parsed L t"
proof (induction L path project es out rule: load_triggers.induct)
  case (2 L path project channel node rest out)
  show ?case
  proof (cases node)
    case (Dir es)
    then obtain pk where pk: "load_trigger_keys L (path @ [channel]) es [] = Inr pk"
      "load_triggers L path project rest (if pk = [] then out else hm_insert (project, channel) pk out) = Inr t"
      using 2(4) by (auto simp: bindr_Inr_iff)
    have "all_parsed L pk" by (rule trigger_keys_parsed[OF pk(1)]) simp
    then have "tree_parsed L (if pk = [] then out else hm_insert (project, channel) pk out)" using 2(5) by auto
    then show ?thesis by (rule 2(3)[OF Dir pk(2)])
  qed (use 2 in auto)
qed simp

lemma subdir_parsed:
  assumes "load_subdir L project name node (methods, triggers, gs) = Inr (m', t', gs')"
    and "tree_parsed L methods" "tree_parsed L triggers" "all_parsed L gs"
  shows "tree_parsed L m' \<and> tree_parsed L t' \<and> all_parsed L gs'"
  using assms(1)
proof (cases rule: load_subdir_cases)
  case (3 path ch)
  then obtain ds mg where "load_method_dsls L path ch name = Inr (ds, mg)" "m' = hm_insert name ds methods"
    "gs' = hm_extend gs mg" "t' = triggers" by (auto simp: load_method_into_def bindr_Inr_iff)
  then show ?thesis using assms method_dsls_parsed by blast
qed (use assms triggers_parsed in auto)

lemma subdirs_parsed:
  assumes "load_subdirs L project es (methods, triggers, gs) = Inr (m', t', gs')"
    and "tree_parsed L methods" "tree_parsed L triggers" "all_parsed L gs"
  shows "tree_parsed L m' \<and> tree_parsed L t' \<and> all_parsed L gs'"
  using assms
proof (induction es arbitrary: methods triggers gs)
  case (Cons e es)
  obtain name node where e: "e = (name, node)" by (cases e)
  show ?case
  proof (cases "is_dir node")
    case True
    then obtain m1 t1 gs1 where one: "load_subdir L project name node (methods, triggers, gs) = Inr (m1, t1, gs1)"
      and rest: "load_subdirs L project es (m1, t1, gs1) = Inr (m', t', gs')"
      using Cons.prems(1) by (auto simp: e bindr_Inr_iff)
    from subdir_parsed[OF one] Cons.IH[OF rest] Cons.prems(2-4) show ?thesis by blast
  qed (use Cons in \<open>simp add: e\<close>)
qed simp

lemma project_parsed:
  assumes "load_project L project node = Inr (m, t, gs)"
  shows "tree_parsed L m \<and> tree_parsed L t \<and> all_parsed L gs"
proof -
  obtain es gs0 where "load_subdirs L project es ([], [], gs0) = Inr (m, t, gs)" "all_parsed L gs0"
    using assms parse_file_parsed
    by (auto simp: load_project_def Let_def bindr_Inr_iff values_ok_def split: fs_node.splits list.splits)
  then show ?thesis using subdirs_parsed by force
qed

definition everything_parsed :: "load_params \<Rightarrow> loaded_projects \<Rightarrow> bool" where
  "everything_parsed L ld \<longleftrightarrow> values_ok (tree_parsed L) (ld_http ld) \<and> tree_parsed L (ld_triggers ld) \<and>
     tree_parsed L (ld_guards ld)"

lemma projects_parsed:
  assumes "load_projects L es out = Inr ld" "everything_parsed L out"
  shows "everything_parsed L ld"
  using assms
proof (induction L es out rule: load_projects.induct)
  case (2 L project node rest out)
  show ?case
  proof (cases "is_dir node")
    case True
    then obtain m t gs where l: "load_project L project node = Inr (m, t, gs)" using 2(3) by (auto simp: bindr_Inr_iff)
    let ?out = "\<lparr>ld_http = hm_insert project m (ld_http out),
      ld_triggers = hm_extend (ld_triggers out) (map (\<lambda>((_, channel), per_key). ((project, channel), per_key)) t),
      ld_guards = (if gs = [] then ld_guards out else hm_insert project gs (ld_guards out))\<rparr>"
    have r: "load_projects L rest ?out = Inr ld" using 2(3) True l by simp
    have p: "tree_parsed L m" "tree_parsed L t" "all_parsed L gs" using project_parsed[OF l] by auto
    have "tree_parsed L (map (\<lambda>((_, channel), per_key). ((project, channel), per_key)) t)"
      using p(2) by (auto simp: values_ok_def)
    then have "everything_parsed L ?out"
      using 2(4) p by (auto simp: everything_parsed_def)
    then show ?thesis using 2(1)[OF True] r l by simp
  qed (use 2 in simp)
qed simp

lemma everything_loaded:
  assumes "load_everything L (Dir ps) = Inr ld" "distinct (map fst ps)" "(project, Dir es) \<in> set ps"
    and "distinct (map fst es)" "(meth, Dir ms) \<in> set es" "ordinary_method meth"
  obtains methods ds gs where "map_of (ld_http ld) project = Some methods" "map_of methods meth = Some ds"
    "fst ` set ds = dsl_keys L meth (tree_files [] ms)" "guard_keys L meth (tree_files [] ms) \<subseteq> fst ` set gs"
    "gs \<noteq> [] \<longrightarrow> map_of (ld_guards ld) project = Some gs"
proof -
  have "load_projects L ps \<lparr>ld_http = [], ld_triggers = [], ld_guards = []\<rparr> = Inr ld"
    using assms(1) by (simp add: load_everything_def)
  from projects_at[OF this assms(2,3)] obtain methods triggers gs where
    l: "load_project L project (Dir es) = Inr (methods, triggers, gs)" "map_of (ld_http ld) project = Some methods"
    "gs \<noteq> [] \<longrightarrow> map_of (ld_guards ld) project = Some gs" by blast
  from load_project_subdirs[OF l(1)] obtain gs0 where
    "load_subdirs L project es ([], [], gs0) = Inr (methods, triggers, gs)" ..
  from subdirs_at[OF this assms(4-6)] obtain ds mg where
    m: "load_method_dsls L [project, meth] (Dir ms) meth = Inr (ds, mg)" "map_of methods meth = Some ds"
    "fst ` set mg \<subseteq> fst ` set gs" by blast
  from m(1) have "scan_directory L meth [project, meth] [] ms ([], []) = Inr (ds, mg)"
    by (simp add: load_method_dsls_def)
  from scan_keys[OF this] show thesis using that l m by auto
qed

section \<open>A small tree\<close>

definition sample_loader :: load_params where
  "sample_loader = \<lparr>serde = sample_serde, boot_constants = [], processed_filetypes = [''.yml'', ''.yaml'']\<rparr>"

definition sample_method_dir :: "(string \<times> fs_node) list" where
  "sample_method_dir = [(''admin'', Dir [(''.guard'', File ''g''), (''secret.yml'', File ''s'')])]"

definition sample_tree :: fs_node where
  "sample_tree = Dir [(''demo'', Dir [(''GET'', Dir sample_method_dir)])]"

abbreviation hello_dsl :: dsl where
  "hello_dsl \<equiv> dsl_new [(''hello'', Return plain_return)]"

definition sample_loaded :: loaded_projects where
  "sample_loaded = \<lparr>ld_http = [(''demo'', [(''GET'', [(''GET/admin/secret'', hello_dsl)])])], ld_triggers = [],
     ld_guards = [(''demo'', [(''GET/admin'', hello_dsl)])]\<rparr>"

lemma sample_names:
  "is_processable_file sample_loader ''.guard''" "is_guard_file ''.guard''" "is_processable_file sample_loader ''secret.yml''"
  "\<not> is_guard_file ''secret.yml''" "build_dsl_key ''GET'' [''admin''] ''secret.yml'' = ''GET/admin/secret''"
  "build_guard_key ''GET'' [''admin''] ''.guard'' = Inr ''GET/admin''" "file_stem ''secret.yml'' = ''secret''"
  by (simp_all add: is_processable_file_def is_guard_file_def build_dsl_key_def build_guard_key_def is_in_folder_guard_def
      extension_def file_stem_def sample_loader_def starts_with_def slashes_def)

lemma sample_parse: "parse_file sample_loader path (File c) = Inr hello_dsl"
  by (simp add: parse_file_def sample_loader_def parse_hello_content)

lemma sample_load: "load_everything sample_loader sample_tree = Inr sample_loaded"
proof -
  have "scan_directory sample_loader ''GET'' [''demo'', ''GET''] [] sample_method_dir ([], []) =
      Inr ([(''GET/admin/secret'', hello_dsl)], [(''GET/admin'', hello_dsl)])"
    by (simp add: sample_method_dir_def load_file_def sample_names sample_parse)
  then show ?thesis
    by (simp add: sample_tree_def load_everything_def load_project_def project_guard_candidates_def load_subdir_def
        RESERVED_SUBDIRS_def load_method_into_def load_method_dsls_def hm_extend_def sample_loaded_def ensure_def Let_def)
qed

section \<open>Properties\<close>



lemma loaded_valid:
  assumes "load_everything L root = Inr ld"
  shows "values_ok (values_ok (values_ok dsl_valid)) (ld_http ld) \<and> values_ok (values_ok dsl_valid) (ld_triggers ld) \<and>
    values_ok (values_ok dsl_valid) (ld_guards ld)"
proof -
  obtain es where "load_projects L es \<lparr>ld_http = [], ld_triggers = [], ld_guards = []\<rparr> = Inr ld"
    using assms by (auto simp: load_everything_def split: fs_node.splits)
  then have "everything_parsed L ld" by (rule projects_parsed) (simp add: everything_parsed_def)
  then show ?thesis unfolding everything_parsed_def
    by (elim conjE) (intro conjI; erule values_ok_mono, (erule values_ok_mono)+, erule parsed_valid)
qed



end
