(* ===== verification/Uds_Transport.thy ===== *)
theory Uds_Transport
  imports Http_Client
begin

text \<open>
  The Unix-socket transport (\<open>src/http_client/uds.rs\<close>, \<open>src/http_client/uds_pool.rs\<close>): the cache of pooled
  clients, and what the definitions of \<open>Http_Client\<close> for it guarantee. A pooled client is hyper's; the
  model has what it was built with.
\<close>

section \<open>The pool\<close>

datatype uds_http_version = Http1 | Http2

record pooled_client =
  pc_socket :: string
  pc_idle_timeout :: u64
  pc_max_idle :: nat
  pc_http2_only :: bool

record uds_pool =
  pool_clients :: "pooled_client hmap"
  idle_timeout :: u64
  max_idle_per_host :: nat
  pool_version :: uds_http_version

definition pool_with_version :: "u64 \<Rightarrow> nat \<Rightarrow> uds_http_version \<Rightarrow> uds_pool" where
  "pool_with_version idle max_idle version =
     \<lparr>pool_clients = [], idle_timeout = idle, max_idle_per_host = max_idle, pool_version = version\<rparr>"

definition client_for :: "uds_pool \<Rightarrow> string \<Rightarrow> pooled_client \<times> uds_pool" where
  "client_for pool socket =
     (case map_of (pool_clients pool) socket of
        Some existing \<Rightarrow> (existing, pool)
      | None \<Rightarrow>
          (let client = \<lparr>pc_socket = socket, pc_idle_timeout = idle_timeout pool, pc_max_idle = max_idle_per_host pool,
                 pc_http2_only = (pool_version pool = Http2)\<rparr>
           in (client, pool\<lparr>pool_clients := hm_insert socket client (pool_clients pool)\<rparr>)))"

fun clients_for :: "uds_pool \<Rightarrow> string list \<Rightarrow> pooled_client list \<times> uds_pool" where
  "clients_for pool [] = ([], pool)"
| "clients_for pool (s # ss) =
     (case client_for pool s of (c, pool1) \<Rightarrow>
        (case clients_for pool1 ss of (cs, pool2) \<Rightarrow> (c # cs, pool2)))"

definition pool_len :: "uds_pool \<Rightarrow> nat" where
  "pool_len pool = length (pool_clients pool)"

text \<open>Every cached client connects to the socket it is cached for, with the settings of the pool.\<close>

definition pool_wf :: "uds_pool \<Rightarrow> bool" where
  "pool_wf pool \<longleftrightarrow> distinct (map fst (pool_clients pool)) \<and>
     (\<forall>(s, c) \<in> set (pool_clients pool). c = \<lparr>pc_socket = s, pc_idle_timeout = idle_timeout pool,
        pc_max_idle = max_idle_per_host pool, pc_http2_only = (pool_version pool = Http2)\<rparr>)"

lemma client_for_wf:
  assumes "pool_wf pool" "client_for pool s = (c, pool')"
  shows "pool_wf pool'" "pc_socket c = s"
    and "fst ` set (pool_clients pool') = insert s (fst ` set (pool_clients pool))"
    and "idle_timeout pool' = idle_timeout pool \<and> max_idle_per_host pool' = max_idle_per_host pool \<and> pool_version pool' = pool_version pool"
proof -
  have "pool_wf pool' \<and> pc_socket c = s \<and> fst ` set (pool_clients pool') = insert s (fst ` set (pool_clients pool)) \<and>
    idle_timeout pool' = idle_timeout pool \<and> max_idle_per_host pool' = max_idle_per_host pool \<and> pool_version pool' = pool_version pool"
  proof (cases "map_of (pool_clients pool) s")
    case None
    then have new: "s \<notin> fst ` set (pool_clients pool)" by (simp add: map_of_eq_None_iff)
    show ?thesis using assms None new by (auto simp: client_for_def Let_def pool_wf_def update_new[OF new])
  next
    case (Some c0)
    then have "(s, c0) \<in> set (pool_clients pool)" by (rule map_of_SomeD)
    then show ?thesis using assms Some by (force simp: client_for_def pool_wf_def)
  qed
  then show "pool_wf pool'" "pc_socket c = s"
    "fst ` set (pool_clients pool') = insert s (fst ` set (pool_clients pool))"
    "idle_timeout pool' = idle_timeout pool \<and> max_idle_per_host pool' = max_idle_per_host pool \<and> pool_version pool' = pool_version pool"
    by simp_all
qed

lemma clients_for_wf:
  assumes "pool_wf pool" "clients_for pool ss = (cs, pool')"
  shows "pool_wf pool' \<and> map pc_socket cs = ss \<and> fst ` set (pool_clients pool') = set ss \<union> fst ` set (pool_clients pool)"
  using assms
proof (induction ss arbitrary: pool cs)
  case (Cons s ss)
  obtain c pool1 where c: "client_for pool s = (c, pool1)" by (cases "client_for pool s")
  obtain cs1 where cs: "clients_for pool1 ss = (cs1, pool')" "cs = c # cs1"
    using Cons.prems(2) c by (auto split: prod.splits)
  note one = client_for_wf[OF Cons.prems(1) c]
  from Cons.IH[OF one(1) cs(1)] one(2,3) show ?case by (auto simp: cs(2))
qed simp

section \<open>Sockets and targets\<close>

lemma find_str_first_dot:
  assumes "CHR ''.'' \<notin> set a"
  shows "find_str (a @ CHR ''.'' # b) (CHR ''.'' # m) = (if starts_with b m then Some (length a) else
      map_option (\<lambda>n. n + Suc (length a)) (find_str b (CHR ''.'' # m)))"
  using assms
proof (induction a)
  case Nil
  then show ?case by (simp add: starts_with_def)
next
  case (Cons x a)
  have "\<not> starts_with (x # (a @ CHR ''.'' # b)) (CHR ''.'' # m)" using Cons.prems by (auto simp: starts_with_def)
  then show ?case using Cons by (auto simp: option.map_comp comp_def)
qed

lemma find_str_no_dot: "CHR ''.'' \<notin> set b \<Longrightarrow> find_str b (CHR ''.'' # m) = None"
  by (induction b) (auto simp: starts_with_def)

lemma marker_at_first_dot:
  assumes "CHR ''.'' \<notin> set stem" "CHR ''.'' \<notin> set target"
  shows "at_marker (CHR ''.'' # m) (stem @ CHR ''.'' # m @ target) =
      Some (stem @ CHR ''.'' # m, if target = [] then ''/'' else target)"
    and "\<not> starts_with (m' @ target) m \<Longrightarrow> CHR ''.'' \<notin> set m' \<Longrightarrow> at_marker (CHR ''.'' # m) (stem @ CHR ''.'' # m' @ target) = None"
  using assms by (simp_all add: at_marker_def find_str_first_dot find_str_no_dot starts_with_def)


section \<open>Query values\<close>

text \<open>The reference decoder of percent-encoding.\<close>

definition pct_value :: "char \<Rightarrow> nat" where
  "pct_value c = (let n = (of_char c :: nat) in if 65 \<le> n then n - 55 else n - 48)"

fun percent_decode :: "string \<Rightarrow> string" where
  "percent_decode [] = []"
| "percent_decode (c # cs) =
     (if c = CHR ''%''
      then (case cs of a # b # rest \<Rightarrow> char_of (pct_value a * 16 + pct_value b) # percent_decode rest
            | _ \<Rightarrow> c # percent_decode cs)
      else c # percent_decode cs)"

lemma pct_value_digit: "n < 16 \<Longrightarrow> pct_value (pct_digit n) = n"
proof -
  have "list_all (\<lambda>n. pct_value (pct_digit n) = n) [0..<16]" by code_simp
  then show "n < 16 \<Longrightarrow> pct_value (pct_digit n) = n" by (simp add: list_all_iff)
qed

lemma pct_digit_unreserved: "n < 16 \<Longrightarrow> unreserved (pct_digit n)"
proof -
  have "list_all (\<lambda>n. unreserved (pct_digit n)) [0..<16]" by code_simp
  then show "n < 16 \<Longrightarrow> unreserved (pct_digit n)" by (simp add: list_all_iff)
qed

lemma of_char_halves: "(of_char c :: nat) div 16 < 16" "(of_char c :: nat) mod 16 < 16"
proof -
  have "(of_char c :: nat) < 256" by (metis mod_less_divisor of_char_mod_256 zero_less_numeral)
  then show "(of_char c :: nat) div 16 < 16" by (simp add: div_less_iff_less_mult)
qed simp

lemma percent_decode_unreserved:
  assumes "unreserved c"
  shows "percent_decode (c # cs) = c # percent_decode cs"
proof -
  have "\<not> unreserved CHR ''%''" by code_simp
  then have "c \<noteq> CHR ''%''" using assms by blast
  then show ?thesis by simp
qed

lemma encode_roundtrip: "percent_decode (urlencoding_encode s) = s"
proof (induction s)
  case (Cons c s)
  show ?case
  proof (cases "unreserved c")
    case True
    then show ?thesis using Cons by (simp add: urlencoding_encode_def percent_decode_unreserved del: percent_decode.simps)
  next
    case False
    have "char_of ((of_char c :: nat) div 16 * 16 + of_char c mod 16) = c" by simp
    then show ?thesis using False Cons
      by (simp add: urlencoding_encode_def Let_def pct_value_digit of_char_halves)
  qed
qed (simp add: urlencoding_encode_def)

lemma encode_chars: "c \<in> set (urlencoding_encode s) \<Longrightarrow> unreserved c \<or> c = CHR ''%''"
  by (induction s) (auto simp: urlencoding_encode_def Let_def pct_digit_unreserved of_char_halves split: if_splits)

section \<open>Properties\<close>

text \<open>
  A pooled client never serves another socket: whatever sockets are asked for in whatever order, each
  request gets a client that connects to its own socket, and the pool holds exactly one client per
  different socket, built with the settings of the pool.
\<close>

theorem pool_one_client_per_socket:
  "case clients_for (pool_with_version idle max_idle version) ss of (cs, pool) \<Rightarrow>
     map pc_socket cs = ss \<and> pool_len pool = card (set ss) \<and> pool_wf pool"
proof -
  obtain cs pool where c: "clients_for (pool_with_version idle max_idle version) ss = (cs, pool)" by fastforce
  have "pool_wf (pool_with_version idle max_idle version)" by (simp add: pool_wf_def pool_with_version_def)
  from clients_for_wf[OF this c] have w: "pool_wf pool" "map pc_socket cs = ss" "fst ` set (pool_clients pool) = set ss"
    by (simp_all add: pool_with_version_def)
  from w(1) have "distinct (map fst (pool_clients pool))" by (simp add: pool_wf_def)
  then have "card (set (map fst (pool_clients pool))) = length (pool_clients pool)"
    by (metis distinct_card length_map)
  then show ?thesis using w c by (simp add: pool_len_def)
qed

text \<open>
  A Unix-socket URL reads back: for a socket path whose only dot begins its \<open>.sock\<close> or \<open>.socket\<close>
  ending and a target without dots, the URL made of the two is split into exactly them, with \<open>/\<close> for an
  empty target.
\<close>

theorem unix_url_roundtrip:
  assumes "starts_with stem ''/''" "CHR ''.'' \<notin> set stem" "CHR ''.'' \<notin> set target" "\<not> starts_with target ''et''"
  shows "parse_unix_url (''unix://'' @ stem @ ''.sock'' @ target) = Inr (stem @ ''.sock'', if target = [] then ''/'' else target) \<and>
    parse_unix_url (''unix://'' @ stem @ ''.socket'' @ target) = Inr (stem @ ''.socket'', if target = [] then ''/'' else target)"
proof -
  have st: "starts_with (stem @ xs) ''/''" for xs using assms(1) by (auto simp: starts_with_iff)
  have pre: "strip_prefix ''unix://'' (''unix://'' @ xs) = Some xs" for xs by (simp add: strip_prefix_def starts_with_def)
  have no: "at_marker ''.socket'' (stem @ ''.sock'' @ target) = None"
    using marker_at_first_dot(2)[OF assms(2,3), of "''sock''" "''socket''"] assms(4) by (simp add: starts_with_def)
  note at = marker_at_first_dot(1)[OF assms(2,3), of "''sock''"] marker_at_first_dot(1)[OF assms(2,3), of "''socket''"]
  show ?thesis unfolding parse_unix_url_def pre option.case using st no at by simp
qed

theorem unix_url_roundtrip_witness:
  "parse_unix_url ''unix:///run/a.sock/orders'' = Inr (''/run/a.sock'', ''/orders'')"
  using unix_url_roundtrip[of "''/run/a''" "''/orders''"] by (simp add: starts_with_def)

text \<open>A directory name with the marker in it cuts the path there.\<close>

lemma marker_in_directory:
  "parse_unix_url ''unix:///run/my.sockets/a.sock/p'' = Inr (''/run/my.socket'', ''s/a.sock/p'')"
  by code_simp

text \<open>
  A query value cannot break out of its place: what is appended to a request target for a name or a
  value consists of unreserved characters and \<open>%\<close> alone, so it holds no \<open>&\<close>, \<open>=\<close>, \<open>?\<close>, \<open>#\<close>, space or line
  break, and percent-decoding gives the text back.
\<close>

theorem query_encoding_safe:
  "set (urlencoding_encode s) \<subseteq> {c. unreserved c} \<union> {CHR ''%''} \<and> percent_decode (urlencoding_encode s) = s"
  using encode_chars encode_roundtrip by blast


text \<open>
  The pooled client sends what the single-shot client sends, unless a content-length or content-type
  header is given as null: then the pooled client sends the body without that header.
\<close>

theorem pooled_matches_single:
  assumes "\<forall>(k, v) \<in> set (opt_or (rq_headers rq) []). v = JNull \<longrightarrow>
      \<not> eq_ignore_ascii_case k ''content-length'' \<and> \<not> eq_ignore_ascii_case k ''content-type''"
  shows "request_over_unix_pooled N C n socket host target rq = request_over_unix N C n socket host target rq"
proof -
  have "has_header (opt_or (rq_headers rq) []) name = has_header (wire_pairs N (rq_headers rq)) name"
    if "name = ''content-length'' \<or> name = ''content-type''" for name
    using assms that by (cases "rq_headers rq") (fastforce simp: has_header_def wire_pairs_def list_ex_iff)+
  then show ?thesis
    by (simp add: request_over_unix_pooled_def request_over_unix_def pooled_headers_def single_headers_def body_headers_def Let_def)
qed

theorem pooled_matches_single_witness:
  "request_over_unix_pooled example_net example_client 0 ''/run/a.sock'' ''localhost'' ''/'' (example_get ''unix:///run/a.sock'') =
   request_over_unix example_net example_client 0 ''/run/a.sock'' ''localhost'' ''/'' (example_get ''unix:///run/a.sock'')"
  by (rule pooled_matches_single) (simp add: example_get_def)

lemma null_header_differs:
  "pooled_headers N (Some [(''content-type'', JNull)]) ''x'' \<noteq> single_headers N (Some [(''content-type'', JNull)]) ''x''"
  by (simp add: pooled_headers_def single_headers_def body_headers_def has_header_def wire_pairs_def eq_ignore_ascii_case_def)

end
