(* ===== verification/App_Config.thy ===== *)
theory App_Config
  imports Request_Handler Dsl_Loading Uds_Transport
begin

text \<open>
  The configuration (\<open>src/config/mod.rs\<close>): its structs with their defaults, the file that is read and what
  a field it does not mention becomes, the warnings given at boot, the constants file, and what the HTTP
  client, the router, the stores and the engine take from it (\<open>HttpClient::new\<close>, \<open>SelfOrigins::from_config\<close>).
  The YAML library is a parameter: it gives each field as present or absent. The lemmas show that a file
  that mentions nothing configures what no file configures, what the defaults protect, and that the
  constants file reads back what it was written with.
\<close>

section \<open>Structs and defaults\<close>

datatype missing_internal_policy = PolicySilent | PolicyWarn | PolicyError
datatype log_format = LogText | LogJson | LogPretty
datatype config_http_version = CfgHttp1 | CfgHttp2

record listener_config =
  lc_name :: "string option"
  lc_bind :: "string option"
  lc_unix :: "string option"
  lc_http2 :: bool

record cors_config =
  cors_allowed_origins :: "string list"
  cors_allow_credentials :: bool

record dsl_config =
  dc_allowed_filetypes :: "string list"
  dc_processed_filetypes :: "string list"
  dc_allow_dsl_reloading :: bool
  dc_warn_on_missing_declaration :: bool

record logging_config =
  lo_display_request_content :: bool
  lo_display_response_content :: bool
  lo_print_stack_trace :: bool
  lo_meaningful_errors :: bool
  lo_format :: log_format
  lo_access_log :: bool
  lo_step_timing :: bool
  lo_log_step_executions :: bool
  lo_log_dsl_runs :: bool
  lo_max_body_bytes :: nat
  lo_redact_headers :: "string list"
  lo_redact_body_fields :: "string list"

record incoming_requests_config =
  ir_allowed_method_types :: "string list"
  ir_headers :: "string hmap"
  ir_request_timeout_ms :: "u64 option"
  ir_multipart_max_parts :: "nat option"
  ir_multipart_max_part_size :: "nat option"

record pass_through_proxy_config =
  pp_pool_max_idle_per_host :: nat
  pp_pool_idle_timeout_ms :: u64
  pp_connect_timeout_ms :: u64

record detach_config =
  dt_max_inflight :: "u32 option"
  dt_shutdown_grace_secs :: u64

record declarations_config =
  dl_default_internal :: bool
  dl_missing_internal_policy :: missing_internal_policy

record internal_requests_config =
  in_disabled :: bool
  in_allowed_ips :: "string list"
  in_allowed_urls :: "string list"
  in_block_private_networks :: bool

record csrf_config =
  cs_allowed_origins :: "string list"
  cs_enforce_on_methods :: "string list"

record scripting_config =
  sc_max_loop_iterations :: u64
  sc_max_stack_size :: nat

record optimistic_concurrency_config =
  oc_require_if_match :: bool
  oc_enforce_on_methods :: "string list"

record response_config =
  re_default_wrapper :: bool
  re_dsl_with_response_status :: "u16 option"
  re_dsl_without_response_status :: "u16 option"

record app_config =
  config_path :: string
  port :: u16
  stop_in_case_of_exception :: bool
  http_codes_allow_list :: "u16 list"
  max_step_recursions :: "u32 option"
  http_response_size_limit :: "nat option"
  http_request_timeout :: u64
  cfg_cors :: cors_config
  cfg_dsl :: dsl_config
  cfg_logging :: logging_config
  cfg_incoming_requests :: incoming_requests_config
  cfg_response_default_headers :: "string hmap"
  cfg_response :: response_config
  default_dsl_in_case_of_exception :: "default_http_dsl option"
  cfg_guards_mode :: guard_mode
  cfg_internal_requests :: internal_requests_config
  cfg_csrf :: csrf_config
  cfg_proxy_trusted :: "string list"
  cfg_pass_through_proxy :: pass_through_proxy_config
  cfg_scripting :: scripting_config
  cfg_optimistic_concurrency :: optimistic_concurrency_config
  cfg_state_max_entries :: "nat option"
  cfg_detach :: detach_config
  cfg_declarations :: declarations_config
  cfg_unix_socket_map :: "string hmap"
  cfg_uds_http_version :: config_http_version
  cfg_listeners :: "listener_config list"

definition cors_default :: cors_config where
  "cors_default = \<lparr>cors_allowed_origins = [], cors_allow_credentials = False\<rparr>"

definition dsl_config_default :: dsl_config where
  "dsl_config_default = \<lparr>dc_allowed_filetypes = [''.yml'', ''.yaml''], dc_processed_filetypes = [''.yml'', ''.yaml''],
     dc_allow_dsl_reloading = False, dc_warn_on_missing_declaration = True\<rparr>"

definition logging_default :: logging_config where
  "logging_default = \<lparr>lo_display_request_content = False, lo_display_response_content = False,
     lo_print_stack_trace = False, lo_meaningful_errors = False, lo_format = LogText, lo_access_log = True,
     lo_step_timing = False, lo_log_step_executions = True, lo_log_dsl_runs = False, lo_max_body_bytes = 2048,
     lo_redact_headers = [''authorization'', ''proxy-authorization'', ''cookie'', ''set-cookie'', ''x-api-key'',
       ''x-auth-token''],
     lo_redact_body_fields = [''password'', ''pass'', ''secret'', ''token'', ''access_token'', ''refresh_token'',
       ''api_key'', ''authorization'']\<rparr>"

definition incoming_requests_default :: incoming_requests_config where
  "incoming_requests_default = \<lparr>ir_allowed_method_types = [''GET'', ''POST'', ''PUT'', ''PATCH'', ''DELETE'', ''OPTIONS''],
     ir_headers = [], ir_request_timeout_ms = Some 30000, ir_multipart_max_parts = Some 100,
     ir_multipart_max_part_size = Some (4 * 1024 * 1024)\<rparr>"

definition pass_through_proxy_default :: pass_through_proxy_config where
  "pass_through_proxy_default = \<lparr>pp_pool_max_idle_per_host = 32, pp_pool_idle_timeout_ms = 90000, pp_connect_timeout_ms = 10000\<rparr>"

definition detach_default :: detach_config where
  "detach_default = \<lparr>dt_max_inflight = Some 256, dt_shutdown_grace_secs = 15\<rparr>"

definition declarations_default :: declarations_config where
  "declarations_default = \<lparr>dl_default_internal = False, dl_missing_internal_policy = PolicySilent\<rparr>"

definition internal_requests_default :: internal_requests_config where
  "internal_requests_default = \<lparr>in_disabled = False, in_allowed_ips = [], in_allowed_urls = [], in_block_private_networks = True\<rparr>"

text \<open>The derived \<open>Default\<close> of these two leaves the method list empty, their \<open>serde\<close> default does not.\<close>

definition csrf_default :: csrf_config where
  "csrf_default = \<lparr>cs_allowed_origins = [], cs_enforce_on_methods = []\<rparr>"

definition csrf_from :: "string list option \<Rightarrow> string list option \<Rightarrow> csrf_config" where
  "csrf_from origins methods = \<lparr>cs_allowed_origins = opt_or origins [],
     cs_enforce_on_methods = opt_or methods [''POST'', ''PUT'', ''PATCH'', ''DELETE'']\<rparr>"

definition optimistic_concurrency_default :: optimistic_concurrency_config where
  "optimistic_concurrency_default = \<lparr>oc_require_if_match = False, oc_enforce_on_methods = []\<rparr>"

definition optimistic_concurrency_from :: "bool option \<Rightarrow> string list option \<Rightarrow> optimistic_concurrency_config" where
  "optimistic_concurrency_from req methods = \<lparr>oc_require_if_match = opt_or req False,
     oc_enforce_on_methods = opt_or methods [''PUT'', ''PATCH'', ''DELETE'']\<rparr>"

definition scripting_default :: scripting_config where
  "scripting_default = \<lparr>sc_max_loop_iterations = 1000000, sc_max_stack_size = 400\<rparr>"

definition response_default :: response_config where
  "response_default = \<lparr>re_default_wrapper = True, re_dsl_with_response_status = None, re_dsl_without_response_status = None\<rparr>"

definition app_config_default :: app_config where
  "app_config_default = \<lparr>config_path = ''./DSL'', port = 8080, stop_in_case_of_exception = True,
     http_codes_allow_list = [], max_step_recursions = Some 10000,
     http_response_size_limit = Some (16 * 1024 * 1024), http_request_timeout = 15000,
     cfg_cors = cors_default, cfg_dsl = dsl_config_default, cfg_logging = logging_default,
     cfg_incoming_requests = incoming_requests_default, cfg_response_default_headers = [],
     cfg_response = response_default, default_dsl_in_case_of_exception = None, cfg_guards_mode = Stack,
     cfg_internal_requests = internal_requests_default, cfg_csrf = csrf_default, cfg_proxy_trusted = [],
     cfg_pass_through_proxy = pass_through_proxy_default, cfg_scripting = scripting_default,
     cfg_optimistic_concurrency = optimistic_concurrency_default, cfg_state_max_entries = Some 100000,
     cfg_detach = detach_default, cfg_declarations = declarations_default, cfg_unix_socket_map = [],
     cfg_uds_http_version = CfgHttp1, cfg_listeners = []\<rparr>"

section \<open>Files\<close>

text \<open>
  A configuration file as \<open>serde\<close> sees it: each field present or absent; a field whose type is an option
  can be present and null.
\<close>

record config_file =
  cf_config_path :: "string option"
  cf_port :: "u16 option"
  cf_stop_in_case_of_exception :: "bool option"
  cf_http_codes_allow_list :: "u16 list option"
  cf_max_step_recursions :: "u32 option option"
  cf_http_response_size_limit :: "nat option option"
  cf_http_request_timeout :: "u64 option"
  cf_cors :: "cors_config option"
  cf_dsl :: "dsl_config option"
  cf_logging :: "logging_config option"
  cf_incoming_requests :: "incoming_requests_config option"
  cf_response_default_headers :: "string hmap option"
  cf_response :: "response_config option"
  cf_default_dsl :: "default_http_dsl option option"
  cf_guards_mode :: "guard_mode option"
  cf_internal_requests :: "internal_requests_config option"
  cf_csrf :: "csrf_config option"
  cf_proxy_trusted :: "string list option"
  cf_pass_through_proxy :: "pass_through_proxy_config option"
  cf_scripting :: "scripting_config option"
  cf_optimistic_concurrency :: "optimistic_concurrency_config option"
  cf_state_max_entries :: "nat option option"
  cf_detach :: "detach_config option"
  cf_declarations :: "declarations_config option"
  cf_unix_socket_map :: "string hmap option"
  cf_uds_http_version :: "config_http_version option"
  cf_listeners :: "listener_config list option"

definition empty_file :: config_file where
  "empty_file = \<lparr>cf_config_path = None, cf_port = None, cf_stop_in_case_of_exception = None,
     cf_http_codes_allow_list = None, cf_max_step_recursions = None, cf_http_response_size_limit = None,
     cf_http_request_timeout = None, cf_cors = None, cf_dsl = None, cf_logging = None,
     cf_incoming_requests = None, cf_response_default_headers = None, cf_response = None,
     cf_default_dsl = None, cf_guards_mode = None, cf_internal_requests = None, cf_csrf = None,
     cf_proxy_trusted = None, cf_pass_through_proxy = None, cf_scripting = None,
     cf_optimistic_concurrency = None, cf_state_max_entries = None, cf_detach = None,
     cf_declarations = None, cf_unix_socket_map = None, cf_uds_http_version = None, cf_listeners = None\<rparr>"

definition app_config_of :: "config_file \<Rightarrow> app_config" where
  "app_config_of f = \<lparr>config_path = opt_or (cf_config_path f) ''./DSL'', port = opt_or (cf_port f) 8080,
     stop_in_case_of_exception = opt_or (cf_stop_in_case_of_exception f) True,
     http_codes_allow_list = opt_or (cf_http_codes_allow_list f) [],
     max_step_recursions = opt_or (cf_max_step_recursions f) None,
     http_response_size_limit = opt_or (cf_http_response_size_limit f) (Some (16 * 1024 * 1024)),
     http_request_timeout = opt_or (cf_http_request_timeout f) 15000,
     cfg_cors = opt_or (cf_cors f) cors_default, cfg_dsl = opt_or (cf_dsl f) dsl_config_default,
     cfg_logging = opt_or (cf_logging f) logging_default,
     cfg_incoming_requests = opt_or (cf_incoming_requests f) incoming_requests_default,
     cfg_response_default_headers = opt_or (cf_response_default_headers f) [],
     cfg_response = opt_or (cf_response f) response_default,
     default_dsl_in_case_of_exception = opt_or (cf_default_dsl f) None,
     cfg_guards_mode = opt_or (cf_guards_mode f) Stack,
     cfg_internal_requests = opt_or (cf_internal_requests f) internal_requests_default,
     cfg_csrf = opt_or (cf_csrf f) csrf_default, cfg_proxy_trusted = opt_or (cf_proxy_trusted f) [],
     cfg_pass_through_proxy = opt_or (cf_pass_through_proxy f) pass_through_proxy_default,
     cfg_scripting = opt_or (cf_scripting f) scripting_default,
     cfg_optimistic_concurrency = opt_or (cf_optimistic_concurrency f) optimistic_concurrency_default,
     cfg_state_max_entries = opt_or (cf_state_max_entries f) (Some 100000),
     cfg_detach = opt_or (cf_detach f) detach_default,
     cfg_declarations = opt_or (cf_declarations f) declarations_default,
     cfg_unix_socket_map = opt_or (cf_unix_socket_map f) [],
     cfg_uds_http_version = opt_or (cf_uds_http_version f) CfgHttp1,
     cfg_listeners = opt_or (cf_listeners f) []\<rparr>"

text \<open>The command line, the environment and the disk, as far as the configuration is concerned.\<close>

record boot_env =
  env_args :: "string list"
  env_ruuter_config :: "string option"
  env_admin :: "string option"
  path_exists :: "string \<Rightarrow> bool"
  read_to_string :: "string \<Rightarrow> string option"
  yaml_config :: "string \<Rightarrow> config_file option"
  yaml_value :: "string \<Rightarrow> json option"
  ip_of :: "string \<Rightarrow> ip_addr option"

fun config_flag :: "string list \<Rightarrow> string option" where
  "config_flag [] = None"
| "config_flag (a # rest) =
     (if a = ''--config'' \<and> rest \<noteq> [] then Some (hd rest)
      else case strip_prefix ''--config='' a of
        Some p \<Rightarrow> Some p
      | None \<Rightarrow> config_flag rest)"

definition config_search_paths :: "boot_env \<Rightarrow> string list" where
  "config_search_paths e =
     (case config_flag (tl (env_args e)) of None \<Rightarrow> [] | Some p \<Rightarrow> [p]) @
     (case env_ruuter_config e of None \<Rightarrow> [] | Some p \<Rightarrow> if p = [] then [] else [p]) @
     [''./ruuter.yaml'', ''./ruuter.yml'']"

definition raw_config_notes :: "boot_env \<Rightarrow> string \<Rightarrow> bool" where
  "raw_config_notes e body =
     (case yaml_value e body of
        Some (JObject m) \<Rightarrow> map_of m ''http_response_size_limit'' = Some JNull
      | _ \<Rightarrow> False)"

definition load_config_file :: "boot_env \<Rightarrow> string \<Rightarrow> (app_config \<times> string option \<times> bool) result" where
  "load_config_file e p =
     (case read_to_string e p of
        None \<Rightarrow> Inl (Config (Text (''reading config file '' @ p)))
      | Some body \<Rightarrow>
          (case yaml_config e body of
             None \<Rightarrow> Inl (Config (Text (''parsing config file '' @ p)))
           | Some f \<Rightarrow> Inr (app_config_of f, Some p, raw_config_notes e body)))"

definition load_or_default_with_notes :: "boot_env \<Rightarrow> (app_config \<times> string option \<times> bool) result" where
  "load_or_default_with_notes e =
     (case find (path_exists e) (config_search_paths e) of
        Some p \<Rightarrow> load_config_file e p
      | None \<Rightarrow> Inr (app_config_default, None, False))"

definition load_or_default_via_env_or_path :: "boot_env \<Rightarrow> string option \<Rightarrow> (app_config \<times> string option) result" where
  "load_or_default_via_env_or_path e override_path =
     bindr (case override_path of Some p \<Rightarrow> load_config_file e p | None \<Rightarrow> load_or_default_with_notes e)
       (\<lambda>(c, src, _). Inr (c, src))"

section \<open>Constants\<close>

definition ends_with :: "string \<Rightarrow> char \<Rightarrow> bool" where
  "ends_with s c \<longleftrightarrow> s \<noteq> [] \<and> last s = c"

definition constant_line :: "string \<Rightarrow> (string \<times> string) option" where
  "constant_line line =
     (let t = trim line in
      if t = [] \<or> starts_with t ''#'' then None
      else if starts_with t ''['' \<and> ends_with t CHR '']'' then None
      else if CHR ''='' \<in> set t
      then Some (trim (takeWhile (\<lambda>c. c \<noteq> CHR ''='') t), trim (tl (dropWhile (\<lambda>c. c \<noteq> CHR ''='') t)))
      else None)"

text \<open>\<open>BufRead::lines\<close>: no line after a final newline; the carriage return goes with the trimming.\<close>

definition file_lines :: "string \<Rightarrow> string list" where
  "file_lines s = (let ls = split_on CHR 0x0A s in if last ls = [] then butlast ls else ls)"

definition load_constants :: "string option \<Rightarrow> string hmap result" where
  "load_constants content =
     (case content of
        None \<Rightarrow> Inl (Config (Text ''Cannot open constants file''))
      | Some s \<Rightarrow> Inr (fold (\<lambda>l m. case constant_line l of Some (k, v) \<Rightarrow> hm_insert k v m | None \<Rightarrow> m) (file_lines s) []))"

section \<open>What the components take\<close>

text \<open>\<open>str::parse::<u16>\<close>: an optional plus sign, then digits, at most 65535.\<close>

definition is_digit :: "char \<Rightarrow> bool" where
  "is_digit c \<longleftrightarrow> (let n = (of_char c :: nat) in 48 \<le> n \<and> n \<le> 57)"

definition parse_u16 :: "string \<Rightarrow> u16 option" where
  "parse_u16 s =
     (let ds = (if starts_with s ''+'' then tl s else s);
          n = fold (\<lambda>c acc. acc * 10 + (of_char c - 48)) ds (0 :: nat)
      in if ds \<noteq> [] \<and> list_all is_digit ds \<and> n \<le> 65535 then Some (of_nat n) else None)"

definition rsplit_once :: "char \<Rightarrow> string \<Rightarrow> (string \<times> string) option" where
  "rsplit_once c s =
     (if c \<in> set s
      then Some (rev (tl (dropWhile (\<lambda>x. x \<noteq> c) (rev s))), rev (takeWhile (\<lambda>x. x \<noteq> c) (rev s)))
      else None)"

definition split_host_port :: "string \<Rightarrow> (string \<times> u16) option" where
  "split_host_port s =
     (case strip_prefix ''['' s of
        Some stripped \<Rightarrow>
          if CHR '']'' \<in> set stripped
          then Option.bind (strip_prefix '':'' (tl (dropWhile (\<lambda>c. c \<noteq> CHR '']'') stripped)))
            (\<lambda>p. map_option (Pair (''['' @ takeWhile (\<lambda>c. c \<noteq> CHR '']'') stripped @ '']'')) (parse_u16 p))
          else None
      | None \<Rightarrow> Option.bind (rsplit_once CHR '':'' s) (\<lambda>(h, p). map_option (Pair h) (parse_u16 p)))"

definition SELF_SYNONYMS :: "string list" where
  "SELF_SYNONYMS = [''localhost'', ''127.0.0.1'', ''0.0.0.0'', ''[::1]'', ''::1'']"

definition self_origins_from_config :: "app_config \<Rightarrow> (string \<times> u16) list" where
  "self_origins_from_config c =
     (if cfg_listeners c = [] then map (\<lambda>h. (h, port c)) SELF_SYNONYMS
      else concat (map (\<lambda>l. case Option.bind (lc_bind l) split_host_port of
             Some (h, p) \<Rightarrow> (h, p) # map (\<lambda>h. (h, p)) SELF_SYNONYMS
           | None \<Rightarrow> []) (cfg_listeners c)))"

definition http_client_new :: "bool \<Rightarrow> app_config \<Rightarrow> http_client" where
  "http_client_new off c = \<lparr>response_size_limit = http_response_size_limit c,
     status_allow_list = http_codes_allow_list c, outbound_disabled = in_disabled (cfg_internal_requests c),
     allowed_url_prefixes = in_allowed_urls (cfg_internal_requests c),
     allowed_ip_hosts = in_allowed_ips (cfg_internal_requests c),
     block_private_networks = in_block_private_networks (cfg_internal_requests c),
     unix_socket_map = cfg_unix_socket_map c, self_tcp = self_origins_from_config c, offline = off\<rparr>"

definition http_version_from :: "config_http_version \<Rightarrow> uds_http_version" where
  "http_version_from v = (case v of CfgHttp1 \<Rightarrow> Http1 | CfgHttp2 \<Rightarrow> Http2)"

definition uds_pool_new :: "app_config \<Rightarrow> uds_pool" where
  "uds_pool_new c = pool_with_version 30 32 (http_version_from (cfg_uds_http_version c))"

text \<open>The parts of the configuration the router reads while it serves a request.\<close>

definition router_config_of :: "app_config \<Rightarrow> router_config" where
  "router_config_of c = \<lparr>allowed_method_types = ir_allowed_method_types (cfg_incoming_requests c),
     incoming_headers = ir_headers (cfg_incoming_requests c),
     multipart_max_parts = ir_multipart_max_parts (cfg_incoming_requests c),
     multipart_max_part_size = ir_multipart_max_part_size (cfg_incoming_requests c),
     csrf_allowed_origins = cs_allowed_origins (cfg_csrf c),
     csrf_enforce_on_methods = cs_enforce_on_methods (cfg_csrf c),
     require_if_match = oc_require_if_match (cfg_optimistic_concurrency c),
     if_match_enforce_on_methods = oc_enforce_on_methods (cfg_optimistic_concurrency c),
     default_internal = dl_default_internal (cfg_declarations c), trusted_proxies = cfg_proxy_trusted c,
     default_wrapper = re_default_wrapper (cfg_response c),
     dsl_with_response_status = re_dsl_with_response_status (cfg_response c),
     dsl_without_response_status = re_dsl_without_response_status (cfg_response c),
     response_default_headers = cfg_response_default_headers c\<rparr>"

text \<open>\<open>StepEngine::new\<close> sets the cap on steps to 10000; a configured value replaces it.\<close>

definition engine_max_iterations :: "app_config \<Rightarrow> u32" where
  "engine_max_iterations c = opt_or (max_step_recursions c) 10000"

section \<open>Boot warnings\<close>

datatype boot_warning =
    StopNotHonoured
  | FiletypesDiffer
  | OwaspHeadersMissing "string list"
  | DetachUncapped
  | CsrfBypassed
  | ResponseLimitNull

definition is_loopback :: "ip_addr \<Rightarrow> bool" where
  "is_loopback ip = (case ip of V4 v4 \<Rightarrow> drop_bit 24 v4 = 127 | V6 v6 \<Rightarrow> v6 = 1)"

definition host_is_loopback :: "(string \<Rightarrow> ip_addr option) \<Rightarrow> string \<Rightarrow> bool" where
  "host_is_loopback parse host \<longleftrightarrow> eq_ignore_ascii_case host ''localhost'' \<or>
     (case parse host of Some ip \<Rightarrow> is_loopback ip | None \<Rightarrow> False)"

text \<open>
  The host of \<open>host:port\<close>: up to the first \<open>]\<close> without the first character, else up to the last colon.
\<close>

definition bind_host :: "string \<Rightarrow> string" where
  "bind_host bind =
     (if CHR '']'' \<in> set bind
      then (let n = length (takeWhile (\<lambda>c. c \<noteq> CHR '']'') bind) in if n = 0 then bind else tl (take n bind))
      else case rsplit_once CHR '':'' bind of Some (h, _) \<Rightarrow> h | None \<Rightarrow> bind)"

definition has_non_loopback_listener :: "(string \<Rightarrow> ip_addr option) \<Rightarrow> app_config \<Rightarrow> bool" where
  "has_non_loopback_listener parse c \<longleftrightarrow> cfg_listeners c = [] \<or>
     list_ex (\<lambda>l. case lc_bind l of Some b \<Rightarrow> \<not> host_is_loopback parse (bind_host b) | None \<Rightarrow> False) (cfg_listeners c)"

definition OWASP_BASELINE_HEADERS :: "string list" where
  "OWASP_BASELINE_HEADERS = [''X-Content-Type-Options'', ''X-Frame-Options'', ''Strict-Transport-Security'', ''Referrer-Policy'']"

definition missing_owasp_baseline_headers :: "app_config \<Rightarrow> string list" where
  "missing_owasp_baseline_headers c =
     filter (\<lambda>h. to_ascii_lowercase h \<notin> set (map (to_ascii_lowercase \<circ> fst) (cfg_response_default_headers c)))
       OWASP_BASELINE_HEADERS"

definition warn_if :: "bool \<Rightarrow> boot_warning \<Rightarrow> boot_warning list" where
  "warn_if b w = (if b then [w] else [])"

definition warn_on_stale_config_fields :: "(string \<Rightarrow> ip_addr option) \<Rightarrow> app_config \<Rightarrow> boot_warning list" where
  "warn_on_stale_config_fields parse c =
     warn_if (\<not> stop_in_case_of_exception c) StopNotHonoured @
     warn_if (set (dc_allowed_filetypes (cfg_dsl c)) \<noteq> set (dc_processed_filetypes (cfg_dsl c))) FiletypesDiffer @
     warn_if (has_non_loopback_listener parse c \<and> missing_owasp_baseline_headers c \<noteq> [])
       (OwaspHeadersMissing (missing_owasp_baseline_headers c)) @
     warn_if (dt_max_inflight (cfg_detach c) = None \<and> has_non_loopback_listener parse c) DetachUncapped @
     warn_if (cs_allowed_origins (cfg_csrf c) = []) CsrfBypassed"

definition warn_on_raw_config_notes :: "bool \<Rightarrow> boot_warning list" where
  "warn_on_raw_config_notes explicit_null = warn_if explicit_null ResponseLimitNull"

section \<open>Lemmas\<close>

lemma split_on_line:
  "c \<notin> set l \<Longrightarrow> split_on c (l @ c # rest) = l # split_on c rest"
  by (rule split_on_sep)

lemma split_on_ne: "split_on c s \<noteq> []"
  by (induction s) (auto split: list.splits)

lemma lines_of_concat:
  "\<forall>l \<in> set ls. CHR 0x0A \<notin> set l \<Longrightarrow> split_on CHR 0x0A (concat (map (\<lambda>l. l @ [CHR 0x0A]) ls)) = ls @ [[]]"
  by (induction ls) (simp_all add: split_on_line)

lemma file_lines_concat:
  assumes "\<forall>l \<in> set ls. CHR 0x0A \<notin> set l"
  shows "file_lines (concat (map (\<lambda>l. l @ [CHR 0x0A]) ls)) = ls"
  unfolding file_lines_def lines_of_concat[OF assms] Let_def by simp

text \<open>A constant that can be written to the file: plain key and value on one line.\<close>

definition plain_constant :: "string \<times> string \<Rightarrow> bool" where
  "plain_constant kv \<longleftrightarrow> (case kv of (k, v) \<Rightarrow>
     k \<noteq> [] \<and> trim k = k \<and> trim v = v \<and> CHR ''='' \<notin> set k \<and> CHR 0x0A \<notin> set (k @ v) \<and>
     \<not> starts_with k ''#'' \<and> \<not> starts_with k ''['')"

definition constant_text :: "string \<times> string \<Rightarrow> string" where
  "constant_text kv = (case kv of (k, v) \<Rightarrow> k @ ''='' @ v)"

lemma dropWhile_space_Cons: "\<not> is_space c \<Longrightarrow> dropWhile is_space (c # s) = c # s"
  by simp

lemma trim_fixed:
  assumes "trim s = s" "s \<noteq> []"
  shows "\<not> is_space (hd s)" "\<not> is_space (last s)"
proof -
  have r: "rev (dropWhile is_space (rev (dropWhile is_space s))) = s" using assms(1) by (simp add: trim_def)
  have le: "length (dropWhile is_space s) \<le> length s" "length (dropWhile is_space (rev (dropWhile is_space s))) \<le> length (dropWhile is_space s)"
    by (simp_all add: length_dropWhile_le, metis length_dropWhile_le length_rev)
  have "length (dropWhile is_space s) = length s" using r le by (metis le_antisym length_rev)
  then have d: "dropWhile is_space s = s" by (metis append_eq_append_conv append_self_conv2 takeWhile_dropWhile_id)
  then show "\<not> is_space (hd s)" using assms(2) by (metis hd_dropWhile)
  have "dropWhile is_space (rev s) = rev s" using r d by (metis rev_rev_ident)
  then show "\<not> is_space (last s)" using assms(2) by (metis hd_dropWhile hd_rev rev_is_Nil_conv)
qed

lemma trim_id: "s = [] \<or> \<not> is_space (hd s) \<and> \<not> is_space (last s) \<Longrightarrow> trim s = s"
proof (cases "s = []")
  case False
  assume "s = [] \<or> \<not> is_space (hd s) \<and> \<not> is_space (last s)"
  with False have "dropWhile is_space s = s" "dropWhile is_space (rev s) = rev s"
    by (simp_all add: dropWhile_eq_self_iff hd_rev)
  then show ?thesis by (simp add: trim_def)
qed (simp add: trim_def)

lemma plain_constant_line:
  assumes "plain_constant (k, v)"
  shows "constant_line (constant_text (k, v)) = Some (k, v)"
proof -
  note p = assms[unfolded plain_constant_def prod.case]
  have k: "\<not> is_space (hd k)" "k \<noteq> []" using p trim_fixed by blast+
  have eqn: "\<not> is_space CHR ''=''" by (simp add: is_space_def)
  have ends: "\<not> is_space (hd (k @ ''='' @ v)) \<and> \<not> is_space (last (k @ ''='' @ v))"
  proof (cases "v = []")
    case True
    then show ?thesis using k eqn by simp
  next
    case False
    then have "\<not> is_space (last v)" using p trim_fixed(2) by blast
    then show ?thesis using k False by simp
  qed
  have t: "trim (k @ ''='' @ v) = k @ ''='' @ v" by (rule trim_id) (use ends in blast)
  have st: "starts_with (k @ ''='' @ v) [c] \<longleftrightarrow> starts_with k [c]" for c using k(2) by (cases k) (auto simp: starts_with_def)
  have tw: "takeWhile (\<lambda>c. c \<noteq> CHR ''='') (k @ ''='' @ v) = k" "tl (dropWhile (\<lambda>c. c \<noteq> CHR ''='') (k @ ''='' @ v)) = v"
  proof -
    have "CHR ''='' \<notin> set k" using p by blast
    then show "takeWhile (\<lambda>c. c \<noteq> CHR ''='') (k @ ''='' @ v) = k" "tl (dropWhile (\<lambda>c. c \<noteq> CHR ''='') (k @ ''='' @ v)) = v"
      by (induction k) auto
  qed
  show ?thesis
    unfolding constant_text_def constant_line_def prod.case t Let_def tw st using p by simp
qed

section \<open>Properties\<close>

lemma fold_insert_fresh:
  "distinct (map fst (m @ kvs)) \<Longrightarrow> fold (\<lambda>(k, v) m. hm_insert k v m) kvs m = m @ kvs"
proof (induction kvs arbitrary: m)
  case (Cons kv kvs)
  obtain k v where kv: "kv = (k, v)" by (cases kv)
  have "k \<notin> fst ` set m" using Cons.prems kv by auto
  then show ?case using Cons.IH[of "m @ [kv]"] Cons.prems by (simp add: kv update_new)
qed simp

text \<open>
  C37. The constants file reads back: writing constants with different plain keys and values one to a line
  and loading the file gives exactly them.
\<close>

theorem constants_roundtrip:
  assumes "distinct (map fst kvs)" "\<forall>kv \<in> set kvs. plain_constant kv"
  shows "load_constants (Some (concat (map (\<lambda>kv. constant_text kv @ [CHR 0x0A]) kvs))) = Inr kvs"
proof -
  let ?add = "\<lambda>l m. case constant_line l of Some (k, v) \<Rightarrow> hm_insert k v m | None \<Rightarrow> m"
  have line: "constant_line (constant_text kv) = Some kv" if "kv \<in> set kvs" for kv
    using assms(2) that plain_constant_line[of "fst kv" "snd kv"] by simp
  have free: "\<forall>l \<in> set (map constant_text kvs). CHR 0x0A \<notin> set l"
    using assms(2) by (auto simp: constant_text_def plain_constant_def)
  have "fold ?add (map constant_text xs) m = fold (\<lambda>(k, v) m. hm_insert k v m) xs m" if "set xs \<subseteq> set kvs" for xs m
    using that by (induction xs arbitrary: m) (auto simp: line)
  from this[of kvs "[]"] have "fold ?add (map constant_text kvs) [] = kvs"
    using fold_insert_fresh[of "[]" kvs] assms(1) by simp
  then show ?thesis using file_lines_concat[OF free] by (simp add: load_constants_def comp_def)
qed

theorem constants_roundtrip_witness:
  "load_constants (Some (''A=1'' @ [CHR 0x0A] @ ''B=x y'' @ [CHR 0x0A])) = Inr [(''A'', ''1''), (''B'', ''x y'')]"
proof -
  have "\<forall>kv \<in> set [(''A'', ''1''), (''B'', ''x y'')]. plain_constant kv" by code_simp
  from constants_roundtrip[OF _ this] show ?thesis by (simp add: constant_text_def)
qed

text \<open>
  A configuration file that mentions nothing means what no file means: the client, the router, the step
  cap, the stores and the listeners are those of the built-in defaults. (Only the cap on steps is stored
  differently, as absent, and the engine then keeps its own.)
\<close>

theorem empty_file_is_default:
  "app_config_of empty_file = app_config_default\<lparr>max_step_recursions := None\<rparr> \<and>
   http_client_new off (app_config_of empty_file) = http_client_new off app_config_default \<and>
   router_config_of (app_config_of empty_file) = router_config_of app_config_default \<and>
   engine_max_iterations (app_config_of empty_file) = engine_max_iterations app_config_default"
proof -
  have "app_config_of empty_file = app_config_default\<lparr>max_step_recursions := None\<rparr>"
    by (simp add: app_config_of_def empty_file_def app_config_default_def)
  then show ?thesis
    by (simp add: http_client_new_def router_config_of_def engine_max_iterations_def self_origins_from_config_def app_config_default_def)
qed

text \<open>
  What a file leaves alone stays protected: without an \<open>internal_requests\<close> section the client only
  connects over TCP to public targets, and without the respective sections its replies are capped at 16 MiB,
  a project holds at most 100000 entries, and at most 256 detached tasks run.
\<close>

theorem untouched_defaults_protect:
  assumes "cf_internal_requests f = None" "check_ssrf N (http_client_new off (app_config_of f)) url = Inr r"
  shows "public_target N url r \<and>
    (cf_http_response_size_limit f \<noteq> None \<or> response_size_limit (http_client_new off (app_config_of f)) = Some (16 * 1024 * 1024)) \<and>
    (cf_state_max_entries f \<noteq> None \<or> max_entries_per_project (store_with_config (cfg_state_max_entries (app_config_of f))) = Some 100000) \<and>
    (cf_detach f \<noteq> None \<or> dr_cap (detach_new (dt_max_inflight (cfg_detach (app_config_of f))) g) = Some 256)"
proof -
  have ir: "cfg_internal_requests (app_config_of f) = internal_requests_default" using assms(1) by (simp add: app_config_of_def)
  have "public_target N url r"
    by (rule check_ssrf_public[OF assms(2)]) (simp_all add: http_client_new_def ir internal_requests_default_def)
  then show ?thesis
    by (cases "cf_http_response_size_limit f"; cases "cf_state_max_entries f"; cases "cf_detach f")
      (simp_all add: http_client_new_def app_config_of_def store_with_config_def detach_new_def detach_default_def)
qed

theorem untouched_defaults_protect_witness:
  "public_target (example_net\<lparr>parse_ip := \<lambda>_. Some (V4 0x08080808)\<rparr>) ''http://h/'' NoPinning"
proof -
  have "check_ssrf (example_net\<lparr>parse_ip := \<lambda>_. Some (V4 0x08080808)\<rparr>)
      (http_client_new False (app_config_of empty_file)) ''http://h/'' = Inr NoPinning"
    by (simp add: check_ssrf_def check_allowed_urls_def check_allowed_ips_def check_private_def url_host_def example_net_def
        http_client_new_def app_config_of_def empty_file_def internal_requests_default_def is_private_or_local_def v4_private_def Let_def)
  from untouched_defaults_protect[OF _ this] show ?thesis by (simp add: empty_file_def)
qed

end
