(* ===== verification/Openapi.thy ===== *)
theory Openapi
  imports Steps
begin

text \<open>
  The OpenAPI 3.1 generator (\<open>src/openapi.rs\<close>): one operation per HTTP route of the loaded tree, with its
  identifier, parameters, request body and responses, collected into the \<open>paths\<close> object of the document.
  The lemmas compare the document with the router: which operations it lists, that each one leads the
  router to the DSL it was generated from, that the required fields of a request body are the ones the
  router insists on, and which responses it promises.
\<close>

section \<open>Pieces\<close>

definition OPENAPI_HTTP_METHODS :: "string list" where
  "OPENAPI_HTTP_METHODS = [''GET'', ''POST'', ''PUT'', ''PATCH'', ''DELETE'', ''OPTIONS'', ''HEAD'', ''TRACE'']"

definition is_http_method :: "string \<Rightarrow> bool" where
  "is_http_method m \<longleftrightarrow> list_ex (\<lambda>k. eq_ignore_ascii_case k m) OPENAPI_HTTP_METHODS"

text \<open>\<open>str::trim_start_matches\<close>: the prefix is removed as often as it stands there.\<close>

function trim_start_matches :: "string \<Rightarrow> string \<Rightarrow> string" where
  "trim_start_matches p s =
     (if p \<noteq> [] \<and> starts_with s p then trim_start_matches p (drop (length p) s) else s)"
  by pat_completeness auto
termination
proof (relation "measure (\<lambda>(p, s). length s)", goal_cases)
  case (2 p s)
  then have "length p \<le> length s" "p \<noteq> []" by (auto simp: starts_with_iff)
  then show ?case by (cases p) auto
qed simp

declare trim_start_matches.simps [simp del]

text \<open>
  \<open>chars().map(..)\<close> of the slug: one underscore for each character that is no ASCII letter or digit, so
  the continuation bytes of a longer character give nothing.
\<close>

definition ascii_alphanumeric :: "char \<Rightarrow> bool" where
  "ascii_alphanumeric c \<longleftrightarrow> (let n = (of_char c :: nat) in
     48 \<le> n \<and> n \<le> 57 \<or> 65 \<le> n \<and> n \<le> 90 \<or> 97 \<le> n \<and> n \<le> 122)"

definition slug_char :: "char \<Rightarrow> string" where
  "slug_char c = (let n = (of_char c :: nat) in
     if ascii_alphanumeric c then [c] else if 128 \<le> n \<and> n < 192 then [] else ''_'')"

definition operation_id :: "string \<Rightarrow> string \<Rightarrow> string \<Rightarrow> string" where
  "operation_id project meth key =
     to_ascii_lowercase meth @ ''_'' @ project @ ''_'' @
     concat (map slug_char (trim_start_matches (meth @ ''/'') key))"

definition summary_from_key :: "string \<Rightarrow> string" where
  "summary_from_key key = last (split_on CHR ''/'' key)"

section \<open>Schemas\<close>

text \<open>\<open>insert\<close> of an optional member.\<close>

definition opt_member :: "string \<Rightarrow> json option \<Rightarrow> (string \<times> json) list" where
  "opt_member k v = (case v of None \<Rightarrow> [] | Some x \<Rightarrow> [(k, x)])"

fun field_schema :: "dsl_field \<Rightarrow> json" where
  "field_schema (DslField f ty rq fmt desc def itms) =
     (let t = opt_or ty ''string'' in
      json_object
        ([(''type'', JString t)] @ opt_member ''format'' (map_option JString fmt) @
         opt_member ''description'' (map_option JString desc) @ opt_member ''default'' def @
         (if t = ''array''
          then [(''items'', case itms of Some i \<Rightarrow> field_schema i | None \<Rightarrow> JObject [])] else [])))"

definition build_object_schema :: "dsl_field list \<Rightarrow> json" where
  "build_object_schema fs =
     (let props = fold (\<lambda>f. hm_insert (field f) (field_schema f)) fs [];
          req = map (JString \<circ> field) (filter (\<lambda>f. opt_or (required f) False) fs)
      in json_object
        ([(''type'', JString ''object''), (''properties'', json_object props)] @
         (if req = [] then [] else [(''required'', JArray req)])))"

definition build_named_parameter :: "string \<Rightarrow> string \<Rightarrow> dsl_field \<Rightarrow> json" where
  "build_named_parameter name location f = json_object
     ([(''name'', JString name), (''in'', JString location),
       (''required'', JBool (opt_or (required f) False))] @
      opt_member ''description'' (map_option JString (description f)) @
      [(''schema'', field_schema f)])"

definition flat_parameter :: "string \<Rightarrow> string \<Rightarrow> json" where
  "flat_parameter location name = json_object
     [(''name'', JString name), (''in'', JString location), (''required'', JBool False),
      (''schema'', json_object [(''type'', JString ''string'')])]"

definition section_parameters :: "string \<Rightarrow> dsl_field list option \<Rightarrow> string list option \<Rightarrow> json list" where
  "section_parameters location structured flat =
     (case structured of
        Some fs \<Rightarrow> map (\<lambda>f. build_named_parameter (field f) location f) fs
      | None \<Rightarrow> map (flat_parameter location) (opt_or flat []))"

definition build_parameters :: "declaration_step option \<Rightarrow> json option" where
  "build_parameters decl =
     (case decl of
        None \<Rightarrow> None
      | Some d \<Rightarrow>
          let params = section_parameters ''query'' (structured_params d) (allowed_params d) @
                       section_parameters ''header'' (structured_headers d) (allowed_header d)
          in if params = [] then None else Some (JArray params))"

definition flat_body_schema :: "string list \<Rightarrow> json" where
  "flat_body_schema names = json_object
     [(''type'', JString ''object''),
      (''properties'', json_object (fold (\<lambda>n. hm_insert n (json_object [(''type'', JString ''string'')])) names []))]"

definition body_schema_of :: "declaration_step \<Rightarrow> json option" where
  "body_schema_of d =
     (case structured_body d of
        Some (f # fs) \<Rightarrow> Some (build_object_schema (f # fs))
      | _ \<Rightarrow>
          (case allowed_body d of
             Some (n # ns) \<Rightarrow> Some (flat_body_schema (n # ns))
           | _ \<Rightarrow> None))"

definition build_request_body :: "string \<Rightarrow> declaration_step option \<Rightarrow> json option" where
  "build_request_body meth decl =
     (if to_uppercase meth \<notin> {''POST'', ''PUT'', ''PATCH''} then None
      else map_option (\<lambda>schema. json_object
         [(''required'', JBool True),
          (''content'', json_object [(''application/json'', json_object [(''schema'', schema)])])])
        (Option.bind decl body_schema_of))"

section \<open>Responses\<close>

definition literal_status :: "dsl_step \<Rightarrow> u16 option" where
  "literal_status s =
     (case s of
        Return r \<Rightarrow>
          (case rs_status r of
             Some (JNumber n) \<Rightarrow>
               (case as_u64 n of
                  Some u \<Rightarrow> if 100 \<le> u \<and> u \<le> 599 then Some (ucast u) else None
                | None \<Rightarrow> None)
           | _ \<Rightarrow> None)
      | _ \<Rightarrow> None)"

definition collect_return_statuses :: "dsl \<Rightarrow> u16 list" where
  "collect_return_statuses d =
     fold (\<lambda>(_, s) out. case literal_status s of
         Some code \<Rightarrow> if code \<in> set out then out else out @ [code]
       | None \<Rightarrow> out) (dsl_steps d) []"

definition add_status :: "(u16 \<Rightarrow> bool) \<Rightarrow> u16 \<Rightarrow> u16 list \<Rightarrow> u16 list" where
  "add_status covered code codes = (if list_ex covered codes then codes else codes @ [code])"

definition effective_statuses :: "u16 list \<Rightarrow> u16 list" where
  "effective_statuses statuses =
     add_status (\<lambda>c. c = 500) 500
       (add_status (\<lambda>c. 400 \<le> c \<and> c < 500) 400
         (add_status (\<lambda>c. 200 \<le> c \<and> c < 300) 200 (if statuses = [] then [200] else statuses)))"

definition status_reason :: "u16 \<Rightarrow> string" where
  "status_reason code = opt_or (map_of
     [(200, ''OK''), (201, ''Created''), (202, ''Accepted''), (204, ''No Content''),
      (301, ''Moved Permanently''), (302, ''Found''), (304, ''Not Modified''),
      (400, ''Bad Request''), (401, ''Unauthorized''), (403, ''Forbidden''), (404, ''Not Found''),
      (405, ''Method Not Allowed''), (409, ''Conflict''), (412, ''Precondition Failed''),
      (428, ''Precondition Required''), (429, ''Too Many Requests''),
      (500, ''Internal Server Error''), (502, ''Bad Gateway''), (503, ''Service Unavailable''),
      (504, ''Gateway Timeout'')] code) ''Response''"

text \<open>\<open>u16::to_string\<close>.\<close>

fun show_nat :: "nat \<Rightarrow> string" where
  "show_nat n = (if n < 10 then [char_of (48 + n)] else show_nat (n div 10) @ [char_of (48 + n mod 10)])"

declare show_nat.simps [simp del]

definition ref_to :: "string \<Rightarrow> json" where
  "ref_to target = json_object [(''$ref'', JString target)]"

definition response_entry :: "declaration_step option \<Rightarrow> u16 \<Rightarrow> json" where
  "response_entry decl code =
     (let body_schema =
        (if 400 \<le> code then ref_to ''#/components/schemas/Error''
         else case Option.bind decl dc_returns of
           Some (f # fs) \<Rightarrow> build_object_schema (f # fs)
         | _ \<Rightarrow> json_object [(''type'', JString ''object''), (''additionalProperties'', JBool True)])
      in json_object
        [(''description'', JString (status_reason code)),
         (''headers'', json_object
           [(''traceparent'', ref_to ''#/components/headers/traceparent''),
            (''X-Trace-Id'', ref_to ''#/components/headers/X-Trace-Id'')]),
         (''content'', json_object [(''application/json'', json_object [(''schema'', body_schema)])])])"

definition response_map :: "u16 list \<Rightarrow> declaration_step option \<Rightarrow> json hmap" where
  "response_map statuses decl =
     fold (\<lambda>code. hm_insert (show_nat (unat code)) (response_entry decl code)) (effective_statuses statuses) []"

definition build_responses :: "u16 list \<Rightarrow> declaration_step option \<Rightarrow> json" where
  "build_responses statuses decl = json_object (response_map statuses decl)"

section \<open>Operations and paths\<close>

definition octet_content :: json where
  "octet_content = json_object [(''application/octet-stream'', json_object
     [(''schema'', json_object [(''type'', JString ''string''), (''format'', JString ''binary'')])])]"

definition build_operation :: "string \<Rightarrow> string \<Rightarrow> string \<Rightarrow> dsl \<Rightarrow> json" where
  "build_operation project meth key d =
     (let decl = dsl_declaration d;
          auto_text = ''Auto-generated from DSL `'' @ key @ ''` in project `'' @ project @
            ''`. Add a `declaration.description` to override.'';
          head = [(''operationId'', JString (operation_id project meth key)),
                  (''summary'', JString (summary_from_key key)),
                  (''description'', JString (opt_or (Option.bind decl dc_description) auto_text)),
                  (''tags'', JArray [JString project])] @
                 (if Option.bind decl internal = Some True then [(''x-internal'', JBool True)] else []) @
                 opt_member ''parameters'' (build_parameters decl)
      in case Option.bind decl proxy of
           Some px \<Rightarrow> json_object (head @
             [(''requestBody'', json_object [(''required'', JBool False), (''content'', octet_content)]),
              (''responses'', json_object [(''default'', json_object
                 [(''description'', JString (''Proxied upstream response from '' @ upstream px)),
                  (''content'', octet_content)])])])
         | None \<Rightarrow> json_object (head @ opt_member ''requestBody'' (build_request_body meth decl) @
             [(''responses'', build_responses (collect_return_statuses d) decl)]))"

type_synonym route = "string \<times> string \<times> string \<times> dsl"

text \<open>The routes in the order of the document: projects, methods and keys sorted.\<close>

definition spec_routes :: "http_dsls \<Rightarrow> route list" where
  "spec_routes http = concat (map (\<lambda>(project, by_method). concat (map (\<lambda>(meth, ds).
     if is_http_method meth then map (\<lambda>(key, d). (project, meth, key, d)) (sort_key fst ds) else [])
     (sort_key fst by_method))) (sort_key fst http))"

fun http_path :: "route \<Rightarrow> string" where
  "http_path (project, meth, key, d) = ''/'' @ project @ ''/'' @ trim_start_matches (meth @ ''/'') key"

fun add_route :: "route \<Rightarrow> json hmap hmap \<Rightarrow> json hmap hmap" where
  "add_route (project, meth, key, d) paths =
     (let p = http_path (project, meth, key, d); entry = opt_or (map_of paths p) []
      in hm_insert p (hm_insert (to_ascii_lowercase meth) (build_operation project meth key d) entry) paths)"

definition build_paths :: "http_dsls \<Rightarrow> json hmap hmap" where
  "build_paths http = fold add_route (spec_routes http) []"

definition string_header :: "string \<Rightarrow> json" where
  "string_header text = json_object
     [(''description'', JString text), (''schema'', json_object [(''type'', JString ''string'')])]"

definition spec_components :: json where
  "spec_components = json_object
     [(''schemas'', json_object [(''Error'', json_object
        [(''type'', JString ''object''),
         (''properties'', json_object [(''error'', json_object [(''type'', JString ''string'')])]),
         (''required'', JArray [JString ''error''])])]),
      (''headers'', json_object
        [(''X-Trace-Id'', string_header
            ''32-hex trace id extracted from the response's `traceparent`. Ops can grep for this across services.''),
         (''traceparent'', string_header
            ''W3C traceparent (`00-<trace_id>-<span_id>-<flags>`) either adopted from the request or generated fresh.'')])]"

definition build_spec_from_http :: "http_dsls \<Rightarrow> string \<Rightarrow> json" where
  "build_spec_from_http http service_version = json_object
     [(''openapi'', JString ''3.1.0''),
      (''info'', json_object
        [(''title'', JString ''Ruuter-on-Rust DSL API''), (''version'', JString service_version),
         (''description'', JString (''Auto-generated from the DSL tree on disk. Endpoints reflect files present in '' @
            ''DSL/<project>/<METHOD>/*.yml at boot; the spec is regenerated on restart.'')),
         (''license'', json_object [(''name'', JString ''MIT''), (''identifier'', JString ''MIT'')])]),
      (''servers'', JArray [json_object
        [(''url'', JString ''/''), (''description'', JString ''Same-origin (this Ruuter instance)'')]]),
      (''security'', JArray []),
      (''paths'', json_object (map (\<lambda>(p, ops). (p, json_object ops)) (build_paths http))),
      (''components'', spec_components)]"

section \<open>Reading the document\<close>

definition json_member :: "string \<Rightarrow> json \<Rightarrow> json option" where
  "json_member k v = (case v of JObject m \<Rightarrow> map_of m k | _ \<Rightarrow> None)"

definition spec_operation :: "json \<Rightarrow> string \<Rightarrow> string \<Rightarrow> json option" where
  "spec_operation spec p m =
     Option.bind (Option.bind (json_member ''paths'' spec) (json_member p)) (json_member m)"

lemma map_of_sort_key: "distinct (map fst xs) \<Longrightarrow> map_of (sort_key f xs) = map_of xs"
proof (rule map_of_eqI)
  assume d: "distinct (map fst xs)"
  then have d': "distinct (map fst (sort_key f xs))"
    by (simp add: distinct_map inj_on_def)
  show "set (map fst (sort_key f xs)) = set (map fst xs)" by simp
  show "\<forall>k \<in> set (map fst (sort_key f xs)). map_of (sort_key f xs) k = map_of xs k"
  proof
    fix k assume "k \<in> set (map fst (sort_key f xs))"
    then obtain v where v: "(k, v) \<in> set xs" by auto
    then have "map_of xs k = Some v" using d by (rule map_of_is_SomeI[rotated])
    moreover have "map_of (sort_key f xs) k = Some v" using d' v by (simp add: map_of_is_SomeI)
    ultimately show "map_of (sort_key f xs) k = map_of xs k" by simp
  qed
qed

lemma json_member_object: "distinct (map fst kvs) \<Longrightarrow> json_member k (json_object kvs) = map_of kvs k"
  by (simp add: json_member_def json_object_def map_of_sort_key)

text \<open>The operation \<open>paths\<close> holds for a path and a method.\<close>

definition op_at :: "json hmap hmap \<Rightarrow> string \<Rightarrow> string \<Rightarrow> json option" where
  "op_at paths p m = Option.bind (map_of paths p) (\<lambda>ops. map_of ops m)"

definition paths_ok :: "json hmap hmap \<Rightarrow> bool" where
  "paths_ok paths \<longleftrightarrow> distinct (map fst paths) \<and> (\<forall>(p, ops) \<in> set paths. distinct (map fst ops))"

lemma in_update: "x \<in> set (hm_insert k v m) \<Longrightarrow> x = (k, v) \<or> x \<in> set m"
  by (induction m) (auto split: if_splits)

lemma add_route_ok: "paths_ok paths \<Longrightarrow> paths_ok (add_route r paths)"
proof -
  obtain project meth key d where r: "r = (project, meth, key, d)" by (cases r)
  let ?p = "http_path (project, meth, key, d)"
  assume ok: "paths_ok paths"
  have entry: "distinct (map fst (opt_or (map_of paths ?p) []))"
    using ok by (cases "map_of paths ?p") (auto simp: paths_ok_def dest!: map_of_SomeD)
  have "distinct (map fst ops)"
    if "(q, ops) \<in> set (hm_insert ?p e paths)" "distinct (map fst e)" for q ops e
    using that ok in_update[OF that(1)] by (auto simp: paths_ok_def)
  then show ?thesis using ok r entry by (auto simp: paths_ok_def Let_def distinct_update simp del: http_path.simps)
qed

lemma build_paths_ok: "paths_ok (build_paths http)"
proof -
  have "paths_ok ps \<Longrightarrow> paths_ok (fold add_route rs ps)" for rs ps
    by (induction rs arbitrary: ps) (auto intro: add_route_ok)
  from this[of "[]"] show ?thesis unfolding build_paths_def by (simp add: paths_ok_def[of "[]"])
qed

lemma map_of_map_value: "map_of (map (\<lambda>(k, v). (k, f v)) xs) k = map_option f (map_of xs k)"
  by (induction xs) auto

lemma spec_operation_paths: "spec_operation (build_spec_from_http http v) p m = op_at (build_paths http) p m"
proof -
  let ?ps = "build_paths http"
  have d: "distinct (map fst (map (\<lambda>(p, ops). (p, json_object ops)) ?ps))"
    using build_paths_ok[of http] by (simp add: paths_ok_def comp_def case_prod_unfold)
  have m: "json_member m (json_object ops) = map_of ops m" if "map_of ?ps p = Some ops" for ops
    using that build_paths_ok[of http] by (auto simp: paths_ok_def intro!: json_member_object dest: map_of_SomeD)
  have "json_member ''paths'' (build_spec_from_http http v) =
      Some (json_object (map (\<lambda>(p, ops). (p, json_object ops)) ?ps))"
    unfolding build_spec_from_http_def by (subst json_member_object) simp_all
  then show ?thesis using m
    by (cases "map_of ?ps p") (simp_all add: spec_operation_def op_at_def json_member_object[OF d] map_of_map_value)
qed

fun route_op :: "route \<Rightarrow> json" where
  "route_op (project, meth, key, d) = build_operation project meth key d"

fun route_pos :: "route \<Rightarrow> string \<times> string" where
  "route_pos (project, meth, key, d) = (http_path (project, meth, key, d), to_ascii_lowercase meth)"

lemma op_at_add: "op_at (add_route r paths) p m = (if route_pos r = (p, m) then Some (route_op r) else op_at paths p m)"
  by (cases r) (auto simp: op_at_def opt_or_def Let_def update_conv' simp del: http_path.simps split: option.splits)

lemma op_at_fold:
  assumes "inj_on route_pos (set rs)"
  shows "op_at (fold add_route rs paths) p m = Some op \<longleftrightarrow>
    (\<exists>r \<in> set rs. route_pos r = (p, m) \<and> route_op r = op) \<or>
    (\<forall>r \<in> set rs. route_pos r \<noteq> (p, m)) \<and> op_at paths p m = Some op"
  using assms
proof (induction rs rule: rev_induct)
  case (snoc r rs)
  then have inj: "inj_on route_pos (set rs)" by (auto simp: inj_on_def)
  show ?case
  proof (cases "route_pos r = (p, m)")
    case True
    then have "route_pos r' \<noteq> (p, m) \<or> r' = r" if "r' \<in> set rs" for r'
      using snoc.prems that by (auto simp: inj_on_def)
    then show ?thesis using True by (auto simp: op_at_add)
  next
    case False
    then show ?thesis using snoc.IH[OF inj] by (auto simp: op_at_add)
  qed
qed simp

section \<open>Routable trees\<close>

text \<open>
  The trees in which the document can be right: method directories in upper case, as the router looks
  them up, and keys made of the method and a plain path that does not start with the method again.
\<close>

definition well_keyed :: "string \<Rightarrow> string \<Rightarrow> bool" where
  "well_keyed meth key \<longleftrightarrow>
     (case strip_prefix (meth @ ''/'') key of
        None \<Rightarrow> False
      | Some rest \<Rightarrow> rest \<noteq> [] \<and> join_with ''/'' (path_segments rest) = rest \<and> \<not> starts_with rest (meth @ ''/''))"

definition routable_tree :: "http_dsls \<Rightarrow> bool" where
  "routable_tree http \<longleftrightarrow> distinct (map fst http) \<and>
     (\<forall>(project, ms) \<in> set http. project \<noteq> [] \<and> CHR ''/'' \<notin> set project \<and> distinct (map fst ms) \<and>
       (\<forall>(meth, ds) \<in> set ms. is_http_method meth \<longrightarrow>
          to_uppercase meth = meth \<and> distinct (map fst ds) \<and> (\<forall>(key, d) \<in> set ds. well_keyed meth key)))"

definition route_in :: "http_dsls \<Rightarrow> string \<Rightarrow> string \<Rightarrow> string \<Rightarrow> dsl \<Rightarrow> bool" where
  "route_in http project meth key d \<longleftrightarrow>
     Option.bind (Option.bind (map_of http project) (\<lambda>ms. map_of ms meth)) (\<lambda>ds. map_of ds key) = Some d"

lemma spec_routes_iff:
  assumes "routable_tree http"
  shows "(project, meth, key, d) \<in> set (spec_routes http) \<longleftrightarrow> is_http_method meth \<and> route_in http project meth key d"
proof -
  have "(project, meth, key, d) \<in> set (spec_routes http) \<longleftrightarrow>
      (\<exists>ms ds. (project, ms) \<in> set http \<and> (meth, ds) \<in> set ms \<and> is_http_method meth \<and> (key, d) \<in> set ds)"
    by (fastforce simp: spec_routes_def split: if_splits)
  moreover have "(project, ms) \<in> set http \<and> (meth, ds) \<in> set ms \<and> is_http_method meth \<and> (key, d) \<in> set ds \<longleftrightarrow>
      is_http_method meth \<and> map_of http project = Some ms \<and> map_of ms meth = Some ds \<and> map_of ds key = Some d" for ms ds
    using assms unfolding routable_tree_def
    by (smt (verit) case_prodD map_of_eq_Some_iff)
  ultimately show ?thesis by (auto simp: route_in_def bind_eq_Some_conv)
qed

lemma well_keyed_path:
  assumes "well_keyed meth key"
  obtains rest where "key = meth @ ''/'' @ rest" "rest \<noteq> []" "join_with ''/'' (path_segments rest) = rest"
    "trim_start_matches (meth @ ''/'') key = rest"
proof -
  obtain rest where r: "strip_prefix (meth @ ''/'') key = Some rest" "rest \<noteq> []" "join_with ''/'' (path_segments rest) = rest"
      "\<not> starts_with rest (meth @ ''/'')"
    using assms by (auto simp: well_keyed_def split: option.splits)
  from r(1) have key: "key = meth @ ''/'' @ rest"
    by (auto simp: strip_prefix_def starts_with_iff split: if_splits)
  have "trim_start_matches (meth @ ''/'') key = rest"
    using r(4) unfolding key
    by (subst trim_start_matches.simps, subst trim_start_matches.simps) (simp add: starts_with_def)
  with key r that show ?thesis by blast
qed

lemma routable_route:
  assumes "routable_tree http" "route_in http project meth key d" "is_http_method meth"
  shows "project \<noteq> []" "CHR ''/'' \<notin> set project" "to_uppercase meth = meth" "well_keyed meth key"
  using assms unfolding routable_tree_def route_in_def bind_eq_Some_conv
  by (fastforce dest!: map_of_SomeD)+

lemma upper_lower_char: "ascii_upper_char (ascii_lower_char c) = ascii_upper_char c"
  by (auto simp: ascii_upper_char_def ascii_lower_char_def Let_def of_char_of)

lemma upper_lower: "to_uppercase (to_ascii_lowercase s) = to_uppercase s"
  by (simp add: to_uppercase_def to_ascii_lowercase_def upper_lower_char)

lemma route_pos_inj:
  assumes "routable_tree http"
  shows "inj_on route_pos (set (spec_routes http))"
proof (rule inj_onI)
  fix r r' assume r: "r \<in> set (spec_routes http)" and r': "r' \<in> set (spec_routes http)" and eq: "route_pos r = route_pos r'"
  obtain p m k d where rr: "r = (p, m, k, d)" by (cases r)
  obtain p' m' k' d' where rr': "r' = (p', m', k', d')" by (cases r')
  note a = r[unfolded rr spec_routes_iff[OF assms]] and a' = r'[unfolded rr' spec_routes_iff[OF assms]]
  note w = routable_route[OF assms conjunct2[OF a] conjunct1[OF a]]
  note w' = routable_route[OF assms conjunct2[OF a'] conjunct1[OF a']]
  obtain rest where k: "k = m @ ''/'' @ rest" "trim_start_matches (m @ ''/'') k = rest" by (rule well_keyed_path[OF w(4)]) blast
  obtain rest' where k': "k' = m' @ ''/'' @ rest'" "trim_start_matches (m' @ ''/'') k' = rest'" by (rule well_keyed_path[OF w'(4)]) blast
  have pos: "to_ascii_lowercase m = to_ascii_lowercase m'" "http_path r = http_path r'" using eq by (simp_all only: rr rr' route_pos.simps prod.inject)
  then have m: "m = m'" using w(3) w'(3) upper_lower by metis
  have e: "p @ CHR ''/'' # rest = p' @ CHR ''/'' # rest'" using pos(2) unfolding rr rr' http_path.simps k(2) k'(2) by simp
  have pre: "takeWhile (\<lambda>c. c \<noteq> CHR ''/'') (q @ CHR ''/'' # t) = q" if "CHR ''/'' \<notin> set q" for q t :: string
    using that by (induction q) auto
  have p: "p = p'" using arg_cong[OF e, of "takeWhile (\<lambda>c. c \<noteq> CHR ''/'')"] pre[OF w(2)] pre[OF w'(2)] by simp
  from e have "rest = rest'" by (simp add: p)
  then have "k = k'" using k(1) k'(1) m by simp
  then have "d = d'" using a a' p m by (simp add: route_in_def)
  then show "r = r'" using \<open>k = k'\<close> p m by (simp add: rr rr')
qed

lemma route_resolves:
  assumes "routable_tree http" "is_http_method meth" "route_in http project meth key d"
  obtains rest where "http_path (project, meth, key, d) = ''/'' @ project @ ''/'' @ rest"
    "split_request_path (''/'' @ project @ ''/'' @ rest) = Some (project, rest)"
    "resolve_dsl_with_path_params http project meth rest = Some (d, key, [])"
proof -
  note w = routable_route[OF assms(1,3,2)]
  obtain rest where rest: "key = meth @ ''/'' @ rest" "rest \<noteq> []" "join_with ''/'' (path_segments rest) = rest"
    "trim_start_matches (meth @ ''/'') key = rest" by (rule well_keyed_path[OF w(4)])
  have "path_segments (project @ ''/'' @ rest) = project # path_segments rest"
    using split_on_sep[OF w(2)] w(1) by (simp add: path_segments_def)
  then have split: "split_request_path (''/'' @ project @ ''/'' @ rest) = Some (project, rest)"
    by (simp add: split_request_path_def rest(3))
  have key: "dsl_key_for meth (path_segments rest) = key" by (simp add: dsl_key_for_def rest(1,3))
  have "path_segments rest \<noteq> []" using rest(2,3) by (auto simp del: rest(3))
  then have "resolve_dsl_with_path_params http project meth rest = Some (d, key, [])"
    using assms(3) key
    by (subst resolve_dsl_with_path_params_def) (auto simp: route_in_def bind_eq_Some_conv resolve_loop.simps[of _ _ "path_segments rest"])
  then show thesis using that rest(4) split by simp
qed

lemma resolved_route:
  assumes "resolve_dsl_with_path_params http project meth rest = Some (d, key, [])"
  shows "route_in http project meth key d \<and> key = dsl_key_for meth (path_segments rest)"
proof -
  obtain bm where bm: "Option.bind (map_of http project) (\<lambda>ms. map_of ms meth) = Some bm"
      "resolve_loop bm meth (path_segments rest) [] = Some (d, key, [])"
    using assms by (auto simp: resolve_dsl_with_path_params_def bind_eq_Some_conv)
  from resolve_loop_Some[OF bm(2)] show ?thesis using bm(1) by (auto simp: route_in_def)
qed

lemma spec_lists:
  assumes "routable_tree http"
  shows "spec_operation (build_spec_from_http http v) p m = Some op \<longleftrightarrow>
    (\<exists>project meth key d. is_http_method meth \<and> route_in http project meth key d \<and>
       p = http_path (project, meth, key, d) \<and> m = to_ascii_lowercase meth \<and> op = build_operation project meth key d)"
proof -
  have "op_at (build_paths http) p m = Some op \<longleftrightarrow> (\<exists>r \<in> set (spec_routes http). route_pos r = (p, m) \<and> route_op r = op)"
    unfolding build_paths_def op_at_fold[OF route_pos_inj[OF assms]] by (simp add: op_at_def)
  also have "\<dots> \<longleftrightarrow> (\<exists>project meth key d. is_http_method meth \<and> route_in http project meth key d \<and>
       p = http_path (project, meth, key, d) \<and> m = to_ascii_lowercase meth \<and> op = build_operation project meth key d)"
    by (auto simp: Bex_def spec_routes_iff[OF assms] simp del: http_path.simps)
  finally show ?thesis by (simp only: spec_operation_paths)
qed

section \<open>Bodies and responses\<close>

definition body_schema :: "json \<Rightarrow> json option" where
  "body_schema rb =
     Option.bind (Option.bind (json_member ''content'' rb) (json_member ''application/json'')) (json_member ''schema'')"

definition schema_properties :: "json \<Rightarrow> string set" where
  "schema_properties schema = (case json_member ''properties'' schema of Some (JObject m) \<Rightarrow> fst ` set m | _ \<Rightarrow> {})"

definition schema_required :: "json \<Rightarrow> json set" where
  "schema_required schema = (case json_member ''required'' schema of Some (JArray xs) \<Rightarrow> set xs | _ \<Rightarrow> {})"

lemma fold_insert_keys: "fst ` set (fold (\<lambda>x. hm_insert (k x) (v x)) xs m) = k ` set xs \<union> fst ` set m"
  by (induction xs arbitrary: m) (auto simp: dom_update)

lemma object_schema_reads:
  "schema_properties (build_object_schema fs) = field ` set fs"
  "schema_required (build_object_schema fs) = (JString \<circ> field) ` {f \<in> set fs. opt_or (required f) False}"
proof -
  have "distinct (map fst ([(''type'', t), (''properties'', p)] @ (if c then [] else [(''required'', r)])))" for t p r c
    by simp
  note read = json_member_object[OF this]
  show "schema_properties (build_object_schema fs) = field ` set fs"
    unfolding schema_properties_def build_object_schema_def Let_def read
    by (simp add: json_object_def fold_insert_keys)
  show "schema_required (build_object_schema fs) = (JString \<circ> field) ` {f \<in> set fs. opt_or (required f) False}"
    unfolding schema_required_def build_object_schema_def Let_def read by (auto simp: filter_empty_conv)
qed

lemma flat_schema_reads:
  "schema_properties (flat_body_schema ns) = set ns" "schema_required (flat_body_schema ns) = {}"
  by (simp_all add: schema_properties_def schema_required_def flat_body_schema_def json_member_object)
     (simp add: json_object_def fold_insert_keys)

lemma request_body_schema:
  "to_uppercase meth \<in> {''POST'', ''PUT'', ''PATCH''} \<Longrightarrow>
   Option.bind (build_request_body meth (Some d)) body_schema = body_schema_of d"
  by (cases "body_schema_of d") (simp_all add: build_request_body_def body_schema_def json_member_object)

lemma collect_statuses_fold:
  "set (fold (\<lambda>(_, s) out. case literal_status s of
         Some code \<Rightarrow> if code \<in> set out then out else out @ [code] | None \<Rightarrow> out) ss out) =
   set out \<union> {c. \<exists>n s. (n, s) \<in> set ss \<and> literal_status s = Some c}"
proof (induction ss arbitrary: out)
  case (Cons x ss)
  obtain a b where x: "x = (a, b)" by (cases x)
  have "{c. \<exists>n s. (n, s) \<in> set (x # ss) \<and> literal_status s = Some c} =
      {c. literal_status b = Some c} \<union> {c. \<exists>n s. (n, s) \<in> set ss \<and> literal_status s = Some c}"
    by (auto simp: x)
  then show ?case using Cons.IH by (cases "literal_status b") (auto simp: x)
qed simp

lemma collect_statuses: "set (collect_return_statuses d) = {c. \<exists>n s. (n, s) \<in> set (dsl_steps d) \<and> literal_status s = Some c}"
  unfolding collect_return_statuses_def by (subst collect_statuses_fold) simp

lemma response_keys: "fst ` set (response_map codes decl) = (show_nat \<circ> unat) ` set (effective_statuses codes)"
  unfolding response_map_def by (subst fold_insert_keys) simp

lemma add_status_set:
  "set (add_status P c cs) \<subseteq> insert c (set cs)" "set cs \<subseteq> set (add_status P c cs)"
  "P c \<Longrightarrow> \<exists>x \<in> set (add_status P c cs). P x"
  by (auto simp: add_status_def list_ex_iff)

section \<open>Properties\<close>

text \<open>
  C23. The document and the router agree: on a tree with upper-case method directories and plain keys, the
  document lists an operation for a path and a method exactly when a request for that path resolves with
  that method to a DSL and no segment is left over as a path parameter, and the operation is the one
  generated from that DSL.
\<close>

theorem openapi_agrees_with_router:
  assumes "routable_tree http"
  shows "spec_operation (build_spec_from_http http v) p m = Some op \<longleftrightarrow>
    (\<exists>project rest meth key d. p = ''/'' @ project @ ''/'' @ rest \<and> split_request_path p = Some (project, rest) \<and>
       is_http_method meth \<and> m = to_ascii_lowercase meth \<and>
       resolve_dsl_with_path_params http project meth rest = Some (d, key, []) \<and>
       op = build_operation project meth key d)"
    (is "?lhs \<longleftrightarrow> ?rhs")
proof
  assume ?lhs
  then obtain project meth key d where r: "is_http_method meth" "route_in http project meth key d"
      "p = http_path (project, meth, key, d)" "m = to_ascii_lowercase meth" "op = build_operation project meth key d"
    unfolding spec_lists[OF assms] by blast
  obtain rest where "http_path (project, meth, key, d) = ''/'' @ project @ ''/'' @ rest"
      "split_request_path (''/'' @ project @ ''/'' @ rest) = Some (project, rest)"
      "resolve_dsl_with_path_params http project meth rest = Some (d, key, [])"
    by (rule route_resolves[OF assms r(1,2)])
  with r show ?rhs by (metis (no_types))
next
  assume ?rhs
  then obtain project rest meth key d where r: "p = ''/'' @ project @ ''/'' @ rest" "split_request_path p = Some (project, rest)"
      "is_http_method meth" "m = to_ascii_lowercase meth" "resolve_dsl_with_path_params http project meth rest = Some (d, key, [])"
      "op = build_operation project meth key d"
    by blast
  note route = resolved_route[OF r(5), THEN conjunct1] and key = resolved_route[OF r(5), THEN conjunct2]
  obtain rest' where rest': "http_path (project, meth, key, d) = ''/'' @ project @ ''/'' @ rest'"
      "key = meth @ ''/'' @ rest'"
    using well_keyed_path[OF routable_route(4)[OF assms route r(3)]] by (metis http_path.simps)
  have "join_with ''/'' (path_segments rest) = rest'" using rest'(2) key by (simp add: dsl_key_for_def)
  moreover obtain segs where segs: "path_segments p = project # segs" "rest = join_with ''/'' segs"
    using r(2) by (auto simp: split_request_path_def split: list.splits)
  have "path_segments rest = segs" unfolding segs(2)
    using path_segments_wf[of _ p] segs(1) by (intro path_segments_join) auto
  then have "rest = join_with ''/'' (path_segments rest)" using segs(2) by simp
  ultimately have "p = http_path (project, meth, key, d)" using rest'(1) r(1) by simp
  then show ?lhs unfolding spec_lists[OF assms] using r route by blast
qed

lemma small_tree_facts:
  "routable_tree [(''demo'', [(''GET'', [(''GET/hello'', d)])])]"
  "split_request_path ''/demo/hello'' = Some (''demo'', ''hello'')" "is_http_method ''GET''" "to_ascii_lowercase ''GET'' = ''get''"
  "resolve_dsl_with_path_params [(''demo'', [(''GET'', [(''GET/hello'', d)])])] ''demo'' ''GET'' ''hello'' = Some (d, ''GET/hello'', [])"
proof -
  have f: "well_keyed ''GET'' ''GET/hello''" "to_uppercase ''GET'' = ''GET''" "path_segments ''hello'' = [''hello'']"
    by code_simp+
  then show "routable_tree [(''demo'', [(''GET'', [(''GET/hello'', d)])])]" by (simp add: routable_tree_def)
  show "split_request_path ''/demo/hello'' = Some (''demo'', ''hello'')" "is_http_method ''GET''" "to_ascii_lowercase ''GET'' = ''get''"
    by code_simp+
  show "resolve_dsl_with_path_params [(''demo'', [(''GET'', [(''GET/hello'', d)])])] ''demo'' ''GET'' ''hello'' = Some (d, ''GET/hello'', [])"
    by (simp add: resolve_dsl_with_path_params_def f(3) resolve_loop.simps dsl_key_for_def)
qed

theorem openapi_agrees_with_router_witness:
  "spec_operation (build_spec_from_http [(''demo'', [(''GET'', [(''GET/hello'', dsl_new [])])])] ''1'') ''/demo/hello'' ''get'' =
   Some (build_operation ''demo'' ''GET'' ''GET/hello'' (dsl_new []))"
  unfolding openapi_agrees_with_router[OF small_tree_facts(1)]
  using small_tree_facts(2-5)
  by (intro exI[of _ "''demo''"] exI[of _ "''hello''"] exI[of _ "''GET''"] exI[of _ "''GET/hello''"] exI[of _ "dsl_new []"]) simp

text \<open>
  What the two conditions are for: a lower-case method directory is documented though the router never
  looks into it, a folder named like the method is lost from the documented path, and two routes can share
  an \<open>operationId\<close>.
\<close>

lemma lower_case_directory_documented:
  "spec_operation (build_spec_from_http [(''demo'', [(''get'', [(''get/hello'', dsl_new [])])])] ''1'') ''/demo/hello'' ''get'' \<noteq> None"
  "resolve_dsl_with_path_params [(''demo'', [(''get'', [(''get/hello'', dsl_new [])])])] ''demo'' (to_uppercase ''get'') ''hello'' = None"
proof -
  have t: "trim_start_matches ''get/'' ''get/hello'' = ''hello''" "is_http_method ''get''" "to_ascii_lowercase ''get'' = ''get''"
    "to_uppercase ''get'' = ''GET''" by code_simp+
  show "spec_operation (build_spec_from_http [(''demo'', [(''get'', [(''get/hello'', dsl_new [])])])] ''1'') ''/demo/hello'' ''get'' \<noteq> None"
    by (simp add: spec_operation_paths build_paths_def spec_routes_def op_at_def t)
  show "resolve_dsl_with_path_params [(''demo'', [(''get'', [(''get/hello'', dsl_new [])])])] ''demo'' (to_uppercase ''get'') ''hello'' = None"
    by (simp add: t(4) resolve_dsl_with_path_params_def)
qed

lemma repeated_method_folder_lost: "http_path (''demo'', ''GET'', ''GET/GET/x'', d) = http_path (''demo'', ''GET'', ''GET/x'', d)"
proof -
  have "trim_start_matches ''GET/'' ''GET/GET/x'' = ''x''" "trim_start_matches ''GET/'' ''GET/x'' = ''x''" by code_simp+
  then show ?thesis by simp
qed

lemma operation_ids_collide: "operation_id ''demo'' ''GET'' ''GET/a-b'' = operation_id ''demo'' ''GET'' ''GET/a/b''"
  by code_simp

text \<open>
  The request body the document describes is the one the router accepts: for a POST route whose body
  allowlist is structured, a request that passes the declaration carries every field the schema requires,
  and, unless the declaration is additive, only fields that are properties of the schema.
\<close>

theorem openapi_body_contract:
  assumes "allowed_body d = None" "build_request_body ''POST'' (Some d) = Some rb" "body_schema rb = Some schema"
    and "apply_declaration d body query headers ''POST'' tp = Inr (b, q, h)"
  shows "schema_required schema \<subseteq> (JString \<circ> fst) ` set b \<and> (is_additive d \<or> fst ` set b \<subseteq> schema_properties schema)"
proof -
  have "to_uppercase ''POST'' = ''POST''" by code_simp
  then have "body_schema_of d = Some schema" using request_body_schema[of "''POST''" d] assms(2,3) by simp
  then obtain f fs where s: "structured_body d = Some (f # fs)" "schema = build_object_schema (f # fs)"
    using assms(1) by (auto simp: body_schema_of_def split: option.splits list.splits)
  have allow: "effective_allowed_body d = Some (map field (f # fs))"
    using s(1) assms(1) by (simp add: effective_allowed_body_def structured_body_def)
  have "apply_body d ''POST'' body = Inr b" using assms(4) by (auto simp: apply_declaration_def bindr_Inr_iff)
  note b = apply_body_ok[OF this allow]
  have names: "required_body_field_names d (map field (f # fs)) = map field (filter (\<lambda>g. opt_or (required g) False) (f # fs))"
    unfolding required_body_field_names_def s(1) option.case using assms(1) by simp
  have need: "field g \<in> fst ` set b" if "g \<in> set (f # fs)" "opt_or (required g) False" for g
  proof -
    have "hm_contains b (field g)" using b(2)[OF refl, unfolded names] that by (simp only: set_map set_filter) blast
    then show ?thesis by (simp only: hm_contains_iff)
  qed
  have only: "is_additive d \<or> fst ` set b \<subseteq> set (map field (f # fs))"
  proof (cases "is_strict d")
    case True
    then show ?thesis using b(1) unfolding restrict_section_def bindr_Inr_iff if_P[OF True] reject_unknown_ok by blast
  next
    case False
    then show ?thesis using b(1) unfolding restrict_section_def if_not_P[OF False] filter_str_keyed_def
      by (cases "is_additive d") auto
  qed
  have "schema_required schema \<subseteq> (JString \<circ> fst) ` set b" unfolding s(2) object_schema_reads
    using need by (auto simp: image_iff)
  then show ?thesis using only unfolding s(2) object_schema_reads by simp
qed

definition order_declaration :: declaration_step where
  "order_declaration = declaration_default\<lparr>dc_allowlist := Some
     \<lparr>al_body = Some [DslField ''id'' (Some ''string'') (Some True) None None None None],
      al_headers = None, al_params = None, al_required_one_of = None\<rparr>\<rparr>"

lemma order_facts:
  "build_request_body ''POST'' (Some order_declaration) = Some (json_object
     [(''required'', JBool True), (''content'', json_object [(''application/json'', json_object
        [(''schema'', build_object_schema [DslField ''id'' (Some ''string'') (Some True) None None None None])])])])"
  "apply_declaration order_declaration [(''x'', JNull), (''id'', JString ''7'')] [] [] ''POST'' ''tp'' = Inr ([(''id'', JString ''7'')], [], [])"
  "allowed_body order_declaration = None"
proof -
  show "build_request_body ''POST'' (Some order_declaration) = Some (json_object
     [(''required'', JBool True), (''content'', json_object [(''application/json'', json_object
        [(''schema'', build_object_schema [DslField ''id'' (Some ''string'') (Some True) None None None None])])])])"
    by code_simp
  show "apply_declaration order_declaration [(''x'', JNull), (''id'', JString ''7'')] [] [] ''POST'' ''tp'' = Inr ([(''id'', JString ''7'')], [], [])"
    by code_simp
  show "allowed_body order_declaration = None" by (simp add: order_declaration_def declaration_default_def)
qed

theorem openapi_body_contract_witness:
  "schema_required (build_object_schema [DslField ''id'' (Some ''string'') (Some True) None None None None])
     \<subseteq> (JString \<circ> fst) ` set [(''id'', JString ''7'')]"
  using openapi_body_contract[OF order_facts(3,1) _ order_facts(2)] by (simp add: body_schema_def json_member_object)

text \<open>A legacy body list is documented as optional fields, though the router refuses a POST without them.\<close>

lemma legacy_body_documented_optional:
  "schema_required (flat_body_schema [''id'']) = {}"
  "body_schema_of (declaration_default\<lparr>allowed_body := Some [''id'']\<rparr>) = Some (flat_body_schema [''id''])"
  "apply_declaration (declaration_default\<lparr>allowed_body := Some [''id'']\<rparr>) [] [] [] ''POST'' ''tp'' = Inl (BadRequest (FieldMissing ''id''))"
proof -
  show "schema_required (flat_body_schema [''id'']) = {}" by (rule flat_schema_reads)
  show "body_schema_of (declaration_default\<lparr>allowed_body := Some [''id'']\<rparr>) = Some (flat_body_schema [''id''])"
    by code_simp
  show "apply_declaration (declaration_default\<lparr>allowed_body := Some [''id'']\<rparr>) [] [] [] ''POST'' ''tp'' = Inl (BadRequest (FieldMissing ''id''))"
    by code_simp
qed

text \<open>
  The documented statuses: every status a \<open>return\<close> step writes as a literal from 100 to 599 is
  documented and is what the step answers with, nothing is documented but these and 200, 400 and 500, and
  every operation documents a success, a client error and 500.
\<close>

theorem openapi_statuses:
  "(let literals = {c. \<exists>n s. (n, s) \<in> set (dsl_steps d) \<and> literal_status s = Some c};
        documented = set (effective_statuses (collect_return_statuses d))
    in literals \<subseteq> documented \<and> documented \<subseteq> literals \<union> {200, 400, 500} \<and> 500 \<in> documented \<and>
       (\<exists>c. c \<in> documented \<and> 400 \<le> c \<and> c < 500) \<and> (\<exists>c. c \<in> documented \<and> 200 \<le> c \<and> c < 300) \<and>
       fst ` set (response_map (collect_return_statuses d) decl) = (show_nat \<circ> unat) ` documented) \<and>
   {s. literal_status (Return s) \<noteq> None \<and> return_status_of E (rs_status s) \<noteq> ret (literal_status (Return s))} = {}"
proof -
  let ?cs = "collect_return_statuses d"
  let ?c0 = "if ?cs = [] then [200] else ?cs"
  let ?c1 = "add_status (\<lambda>c. 200 \<le> c \<and> c < 300) 200 ?c0"
  let ?c2 = "add_status (\<lambda>c. 400 \<le> c \<and> c < 500) 400 ?c1"
  have eff: "effective_statuses ?cs = add_status (\<lambda>c. c = 500) 500 ?c2" by (simp add: effective_statuses_def)
  note up = add_status_set(2)
  have two: "\<exists>c \<in> set ?c1. 200 \<le> c \<and> c < 300" and four: "\<exists>c \<in> set ?c2. 400 \<le> c \<and> c < 500"
    and five: "\<exists>c \<in> set (effective_statuses ?cs). c = 500"
    unfolding eff by (rule add_status_set(3); simp)+
  have sub: "set ?cs \<subseteq> set ?c0" "set ?c1 \<subseteq> set (effective_statuses ?cs)" "set ?c2 \<subseteq> set (effective_statuses ?cs)" "set ?c0 \<subseteq> set ?c1"
    unfolding eff using up by (auto split: if_splits) blast+
  have sup: "set (effective_statuses ?cs) \<subseteq> set ?cs \<union> {200, 400, 500}"
    unfolding eff using add_status_set(1) by (auto simp: add_status_def split: if_splits)
  have "return_status_of E (rs_status s) = ret (literal_status (Return s))" if lit: "literal_status (Return s) \<noteq> None" for s
  proof -
    obtain n u where n: "rs_status s = Some (JNumber n)" "as_u64 n = Some u" "100 \<le> u \<and> u \<le> 599"
      using lit by (auto simp: literal_status_def split: option.splits json.splits if_splits)
    have "evaluate P c (JNumber n) = Inr (JNumber n)" for P c by (simp add: evaluate_def evaluate_tracked_def)
    then show ?thesis using n
      by (auto simp: literal_status_def return_status_of_def eval_opt_def eval_expr_def bindc_def ret_def asks_def fun_eq_iff)
  qed
  then show ?thesis using two four five sub sup
    unfolding Let_def collect_statuses[symmetric] response_keys by blast
qed

end
