(* ===== verification/Dsl_Audit.thy ===== *)
theory Dsl_Audit
  imports Dsl_Loading "HOL-Library.Sublist" "HOL-Library.Multiset" "HOL-Library.List_Lexorder" "HOL-Library.Char_ord"
    "HOL-Library.Product_Lexorder"
begin

text \<open>
  The self-audit of the loaded tree (\<open>src/dsl/audit.rs\<close>): one pass over every DSL that collects findings on
  its declaration, sorted for stable output. The messages are fixed texts per code and are left out.
  \<open>step_json\<close> is the serialisation of one step, serde's.
\<close>

section \<open>Findings\<close>

datatype severity = SevError | SevWarning | SevInfo

record finding =
  f_project :: string
  f_dsl :: string
  f_severity :: severity
  f_code :: string
  f_fields :: "string list"

text \<open>\<open>out.push\<close> under a condition.\<close>

definition push_if :: "bool \<Rightarrow> finding \<Rightarrow> finding list" where
  "push_if c f = (if c then [f] else [])"

definition push_fields :: "finding \<Rightarrow> string list \<Rightarrow> finding list" where
  "push_fields f fs = push_if (fs \<noteq> []) (f\<lparr>f_fields := fs\<rparr>)"

section \<open>References\<close>

definition render_dsl_for_scan :: "(dsl_step \<Rightarrow> string option) \<Rightarrow> dsl \<Rightarrow> string" where
  "render_dsl_for_scan step_json d =
     join_with [CHR 0x0A] (concat (map (\<lambda>(name, s).
       if is_declaration s then []
       else (case step_json s of Some t \<Rightarrow> [name @ '':'' @ t] | None \<Rightarrow> [])) (dsl_steps d)))"

definition is_field_referenced :: "string \<Rightarrow> string \<Rightarrow> string \<Rightarrow> bool \<Rightarrow> bool" where
  "is_field_referenced rendered sec fld case_insensitive =
     (let dot = ''incoming.'' @ sec @ ''.'' @ fld;
          br_single = ''incoming.'' @ sec @ ''['' @ [CHR 0x27] @ fld @ [CHR 0x27] @ '']'';
          br_double = ''incoming.'' @ sec @ ''['' @ [CHR 0x22] @ fld @ [CHR 0x22] @ '']'';
          f = (if case_insensitive then to_ascii_lowercase else (\<lambda>s. s))
      in contains_str (f rendered) (f dot) \<or> contains_str (f rendered) (f br_single) \<or>
         contains_str (f rendered) (f br_double))"

definition ident_char :: "char \<Rightarrow> bool" where
  "ident_char c \<longleftrightarrow> (let n = (of_char c :: nat) in
     48 \<le> n \<and> n \<le> 57 \<or> 65 \<le> n \<and> n \<le> 90 \<or> 97 \<le> n \<and> n \<le> 122 \<or> c = CHR ''_'' \<or> c = CHR ''-'')"

text \<open>What follows the first occurrence of \<open>p\<close> (\<open>str::find\<close> and the slice after it).\<close>

fun after_first :: "string \<Rightarrow> string \<Rightarrow> string option" where
  "after_first p [] = (if p = [] then Some [] else None)"
| "after_first p (c # cs) = (if starts_with (c # cs) p then Some (drop (length p) (c # cs)) else after_first p cs)"

lemma after_first_Some: "after_first p s = Some t \<Longrightarrow> \<exists>a. s = a @ p @ t"
proof (induction s)
  case (Cons c cs)
  show ?case
  proof (cases "starts_with (c # cs) p")
    case True
    then have "c # cs = [] @ p @ t" using Cons.prems by (auto simp: starts_with_iff)
    then show ?thesis by blast
  next
    case False
    then obtain a where "cs = a @ p @ t" using Cons by auto
    then have "c # cs = (c # a) @ p @ t" by simp
    then show ?thesis by blast
  qed
qed (auto split: if_splits)

function reference_names :: "string \<Rightarrow> string \<Rightarrow> string list" where
  "reference_names p rest =
     (if p = [] then []
      else (case after_first p rest of
        None \<Rightarrow> []
      | Some after \<Rightarrow>
          let name = takeWhile ident_char after
          in (if name \<noteq> [] then [name] else []) @ reference_names p (dropWhile ident_char after)))"
  by pat_completeness auto
termination
proof (relation "measure (\<lambda>(p, s). length s)")
  fix p rest after name
  assume "p \<noteq> []" "after_first p rest = Some after"
  then have "length after < length rest" by (auto dest!: after_first_Some)
  moreover have "length (dropWhile ident_char after) \<le> length after" by (rule length_dropWhile_le)
  ultimately show "((p, dropWhile ident_char after), p, rest) \<in> measure (\<lambda>(p, s). length s)" by simp
qed simp

declare reference_names.simps [simp del]

text \<open>Names in the order of their first occurrence, without repetitions.\<close>

definition extract_references :: "string \<Rightarrow> string \<Rightarrow> string list" where
  "extract_references rendered sec = rev (remdups (rev (reference_names (''incoming.'' @ sec @ ''.'') rendered)))"

section \<open>The audit of one DSL\<close>

definition FRAMEWORK_HEADERS :: "string list" where
  "FRAMEWORK_HEADERS = [''authorization'', ''traceparent'', ''content-type'', ''x-trace-id'']"

definition over_declared :: "string \<Rightarrow> string \<Rightarrow> string list \<Rightarrow> string list" where
  "over_declared rendered sec declared = filter (\<lambda>f. \<not> is_field_referenced rendered sec f False) declared"

definition over_declared_headers :: "string \<Rightarrow> string list \<Rightarrow> string list" where
  "over_declared_headers rendered declared =
     filter (\<lambda>f. to_ascii_lowercase f \<notin> set FRAMEWORK_HEADERS \<and> \<not> is_field_referenced rendered ''headers'' f True) declared"

definition under_declared :: "string \<Rightarrow> string \<Rightarrow> string list \<Rightarrow> string list" where
  "under_declared rendered sec declared = filter (\<lambda>r. r \<notin> set declared) (extract_references rendered sec)"

definition under_declared_headers :: "string \<Rightarrow> string list \<Rightarrow> string list" where
  "under_declared_headers rendered declared =
     filter (\<lambda>r. to_ascii_lowercase r \<notin> to_ascii_lowercase ` set declared \<and> to_ascii_lowercase r \<notin> set FRAMEWORK_HEADERS)
       (extract_references rendered ''headers'')"

definition legacy_flat :: "declaration_step \<Rightarrow> string list" where
  "legacy_flat decl =
     (if allowed_body decl \<noteq> None then [''allowed_body''] else []) @
     (if allowed_params decl \<noteq> None then [''allowed_params''] else []) @
     (if allowed_header decl \<noteq> None then [''allowed_header''] else [])"

definition audit_dsl :: "(dsl_step \<Rightarrow> string option) \<Rightarrow> string \<Rightarrow> string \<Rightarrow> dsl \<Rightarrow> finding list" where
  "audit_dsl step_json project key d =
     (let found = (\<lambda>sev code. \<lparr>f_project = project, f_dsl = key, f_severity = sev, f_code = code, f_fields = []\<rparr>) in
      case dsl_declaration d of
        None \<Rightarrow> [found SevWarning ''declaration.missing'']
      | Some decl \<Rightarrow>
          let rendered = render_dsl_for_scan step_json d;
              body = opt_or (structured_body decl) [];
              body_names = map field body;
              param_names = map field (opt_or (structured_params decl) []);
              header_names = map field (opt_or (structured_headers decl) [])
          in push_if (case dc_description decl of None \<Rightarrow> True | Some s \<Rightarrow> trim s = [])
               (found SevInfo ''declaration.description_missing'') @
             push_if (dc_returns decl = None) (found SevInfo ''declaration.returns_missing'') @
             push_fields (found SevInfo ''declaration.legacy_flat_allowlist'') (legacy_flat decl) @
             push_fields (found SevInfo ''declaration.body.type_missing'')
               (map field (filter (\<lambda>f. field_type f = None) body)) @
             push_fields (found SevWarning ''declaration.body.over_declared'') (over_declared rendered ''body'' body_names) @
             push_fields (found SevWarning ''declaration.params.over_declared'') (over_declared rendered ''params'' param_names) @
             push_fields (found SevWarning ''declaration.headers.over_declared'') (over_declared_headers rendered header_names) @
             push_fields (found SevWarning ''declaration.body.under_declared'') (under_declared rendered ''body'' body_names) @
             push_fields (found SevWarning ''declaration.params.under_declared'') (under_declared rendered ''params'' param_names) @
             push_fields (found SevWarning ''declaration.headers.under_declared'') (under_declared_headers rendered header_names) @
             push_fields (found SevWarning ''declaration.required_but_unused'')
               (map field (filter (\<lambda>f. required f = Some True \<and> \<not> is_field_referenced rendered ''body'' (field f) False) body)) @
             push_if (internal decl = None) (found SevInfo ''declaration.internal_missing''))"

definition finding_key :: "finding \<Rightarrow> string \<times> string \<times> string" where
  "finding_key f = (f_project f, f_dsl f, f_code f)"

text \<open>Every DSL of the tree with its project, in iteration order.\<close>

definition tree_dsls :: "http_dsls \<Rightarrow> (string \<times> string \<times> dsl) list" where
  "tree_dsls http = concat (map (\<lambda>(project, methods). concat (map (\<lambda>(_, ds). map (\<lambda>(key, d). (project, key, d)) ds) methods)) http)"

definition audit_tree :: "(dsl_step \<Rightarrow> string option) \<Rightarrow> http_dsls \<Rightarrow> finding list" where
  "audit_tree step_json http =
     sort_key finding_key (concat (map (\<lambda>(project, key, d). audit_dsl step_json project key d) (tree_dsls http)))"

section \<open>Codes and keys\<close>

definition AUDIT_CODES :: "string list" where
  "AUDIT_CODES = [''declaration.description_missing'', ''declaration.returns_missing'', ''declaration.legacy_flat_allowlist'',
     ''declaration.body.type_missing'', ''declaration.body.over_declared'', ''declaration.params.over_declared'',
     ''declaration.headers.over_declared'', ''declaration.body.under_declared'', ''declaration.params.under_declared'',
     ''declaration.headers.under_declared'', ''declaration.required_but_unused'', ''declaration.internal_missing'']"

lemma push_codes:
  "subseq (map f_code (push_if c f)) [f_code f]" "subseq (map f_code (push_fields f fs)) [f_code f]"
  by (simp_all add: push_if_def push_fields_def)

lemma push_owner:
  "g \<in> set (push_if c f) \<Longrightarrow> f_project g = f_project f \<and> f_dsl g = f_dsl f"
  "g \<in> set (push_fields f fs) \<Longrightarrow> f_project g = f_project f \<and> f_dsl g = f_dsl f"
  by (auto simp: push_if_def push_fields_def split: if_splits)

lemma subseq_push: "subseq xs [a] \<Longrightarrow> subseq ys zs \<Longrightarrow> subseq (xs @ ys) (a # zs)"
  using list_emb_append_mono[of "(=)" xs "[a]" ys zs] by simp

lemma audit_codes:
  assumes "dsl_declaration d = Some decl"
  shows "subseq (map f_code (audit_dsl step_json p k d)) AUDIT_CODES"
  unfolding audit_dsl_def AUDIT_CODES_def Let_def assms option.case map_append
  by (intro subseq_push push_codes[THEN subseq_order.order_trans]) (simp_all add: push_if_def)

lemma subseq_distinct: "subseq xs ys \<Longrightarrow> distinct ys \<Longrightarrow> distinct xs"
  by (induction rule: list_emb.induct) (auto dest: list_emb_set)

lemma audit_codes_distinct: "distinct (map f_code (audit_dsl step_json p k d))"
proof (cases "dsl_declaration d")
  case None
  then show ?thesis by (simp add: audit_dsl_def)
next
  case (Some decl)
  show ?thesis by (rule subseq_distinct[OF audit_codes[OF Some]]) (simp add: AUDIT_CODES_def)
qed

lemma audit_owner: "f \<in> set (audit_dsl step_json p k d) \<Longrightarrow> f_project f = p \<and> f_dsl f = k"
  unfolding audit_dsl_def Let_def
  by (cases "dsl_declaration d") (auto dest!: push_owner)

section \<open>Soundness of the scan\<close>

lemma reference_names_sound:
  "n \<in> set (reference_names p s) \<Longrightarrow> \<exists>a b. s = a @ p @ n @ b \<and> n \<noteq> [] \<and> list_all ident_char n"
proof (induction p s rule: reference_names.induct)
  case (1 p s)
  obtain after where after: "after_first p s = Some after" "p \<noteq> []"
    using 1(2) by (cases "p = []"; cases "after_first p s") (simp_all add: reference_names.simps)
  from after_first_Some[OF after(1)] obtain a where s: "s = a @ p @ after" by blast
  let ?name = "takeWhile ident_char after" and ?rest = "dropWhile ident_char after"
  have split: "after = ?name @ ?rest" by simp
  consider "n = ?name" "n \<noteq> []" | "n \<in> set (reference_names p ?rest)"
    using 1(2) after by (subst (asm) reference_names.simps) (auto simp: Let_def split: if_splits)
  then show ?case
  proof cases
    case 1
    have "list_all ident_char n" using set_takeWhileD[of _ ident_char after] unfolding 1(1) by (auto simp: list_all_iff)
    moreover have "s = a @ p @ n @ ?rest" using s split 1(1) by metis
    ultimately show ?thesis using 1(2) by blast
  next
    case 2
    from 1(1)[OF after(2,1) refl 2] obtain a' b where
      r: "?rest = a' @ p @ n @ b" "n \<noteq> []" "list_all ident_char n" by blast
    have "s = (a @ p @ ?name @ a') @ p @ n @ b" using s split r(1) by (metis append.assoc)
    then show ?thesis using r(2,3) by blast
  qed
qed

lemma extracted_is_referenced:
  assumes "n \<in> set (extract_references rendered sec)"
  shows "is_field_referenced rendered sec n False" "n \<noteq> []"
proof -
  obtain a b where "rendered = a @ (''incoming.'' @ sec @ ''.'') @ n @ b" "n \<noteq> []"
    using assms reference_names_sound[of n "''incoming.'' @ sec @ ''.''" rendered] by (auto simp: extract_references_def)
  then have "rendered = a @ (''incoming.'' @ sec @ ''.'' @ n) @ b" by simp
  then have "contains_str rendered (''incoming.'' @ sec @ ''.'' @ n)" unfolding contains_str_iff by blast
  then show "is_field_referenced rendered sec n False" "n \<noteq> []"
    using \<open>n \<noteq> []\<close> by (simp_all add: is_field_referenced_def)
qed

lemma under_declared_finding:
  assumes "dsl_declaration d = Some decl" "f \<in> set (audit_dsl step_json p k d)" "f_code f = ''declaration.body.under_declared''"
  shows "f_fields f = under_declared (render_dsl_for_scan step_json d) ''body'' (map field (opt_or (structured_body decl) []))"
  using assms(2,3) unfolding audit_dsl_def Let_def assms(1) option.case
  by (auto simp: push_if_def push_fields_def split: if_splits)

lemma mset_concat_map: "mset (concat (map f xs)) = (\<Sum>x \<in># mset xs. mset (f x))"
  by (induction xs) simp_all

lemma tree_findings_inj:
  assumes "distinct (map (\<lambda>(p, k, _). (p, k)) ds)"
  shows "inj_on finding_key (set (concat (map (\<lambda>(p, k, d). audit_dsl step_json p k d) ds)))"
proof (rule inj_onI)
  fix f g
  assume "f \<in> set (concat (map (\<lambda>(p, k, d). audit_dsl step_json p k d) ds))"
    "g \<in> set (concat (map (\<lambda>(p, k, d). audit_dsl step_json p k d) ds))" and key: "finding_key f = finding_key g"
  then obtain p k d p' k' d' where f: "(p, k, d) \<in> set ds" "f \<in> set (audit_dsl step_json p k d)"
    and g: "(p', k', d') \<in> set ds" "g \<in> set (audit_dsl step_json p' k' d')" by auto
  have "p' = p" "k' = k" using audit_owner[OF f(2)] audit_owner[OF g(2)] key by (simp_all add: finding_key_def)
  then have "d' = d" using assms f(1) g(1) by (induction ds) force+
  then have "f \<in> set (audit_dsl step_json p k d)" "g \<in> set (audit_dsl step_json p k d)" "f_code f = f_code g"
    using f g key \<open>p' = p\<close> \<open>k' = k\<close> by (simp_all add: finding_key_def)
  then show "f = g" using audit_codes_distinct[of step_json p k d] by (simp add: distinct_map inj_on_def)
qed

section \<open>Properties\<close>

text \<open>
  The audit is reproducible: two trees with the same DSLs, each under its own key of its project, give
  the same findings in the same order, whatever the order in which the hash maps list them, and the
  findings are sorted by project, DSL and code.
\<close>

theorem audit_deterministic:
  assumes "mset (tree_dsls http) = mset (tree_dsls http')" "distinct (map (\<lambda>(p, k, _). (p, k)) (tree_dsls http))"
  shows "audit_tree step_json http = audit_tree step_json http' \<and> sorted (map finding_key (audit_tree step_json http))"
proof
  let ?all = "\<lambda>ds. concat (map (\<lambda>(p, k, d). audit_dsl step_json p k d) ds)"
  have "mset (?all (tree_dsls http)) = mset (?all (tree_dsls http'))"
    using assms(1) by (simp add: mset_concat_map)
  then have "mset (?all (tree_dsls http)) = mset (audit_tree step_json http')" by (simp add: audit_tree_def)
  then show "audit_tree step_json http = audit_tree step_json http'"
    unfolding audit_tree_def[of step_json http]
    by (rule sort_key_inj_key_eq[OF _ tree_findings_inj[OF assms(2)]]) (simp add: audit_tree_def)
  show "sorted (map finding_key (audit_tree step_json http))" by (simp add: audit_tree_def)
qed

text \<open>
  An under-declared body field is a field the DSL will never see: with a structured body allowlist (and
  no legacy one, and not additive), the reported fields are exactly those the steps refer to and the
  allowlist lacks; every one of them occurs in the steps, and no request that the declaration accepts
  brings it to the DSL.
\<close>

theorem under_declared_is_stripped:
  assumes "dsl_declaration d = Some decl" "structured_body decl = Some fs" "allowed_body decl = None" "\<not> is_additive decl"
    and "f \<in> set (audit_dsl step_json p k d)" "f_code f = ''declaration.body.under_declared''"
    and "apply_declaration decl body query headers meth tp = Inr (b, q, h)"
  shows "set (f_fields f) = set (extract_references (render_dsl_for_scan step_json d) ''body'') - set (map field fs) \<and>
    (\<forall>n \<in> set (f_fields f). is_field_referenced (render_dsl_for_scan step_json d) ''body'' n False) \<and>
    set (f_fields f) \<inter> fst ` set b = {}"
proof -
  have fields: "f_fields f = under_declared (render_dsl_for_scan step_json d) ''body'' (map field fs)"
    using under_declared_finding[OF assms(1,5,6)] assms(2) by simp
  have allow: "effective_allowed_body decl = Some (map field fs)"
    using assms(2,3) by (simp add: effective_allowed_body_def structured_body_def)
  have "apply_body decl meth body = Inr b" using assms(7) by (simp add: apply_declaration_iff)
  then have "fst ` set b \<subseteq> set (map field fs)" using apply_body_get allow assms(4) by blast
  then show ?thesis using extracted_is_referenced(1) by (auto simp: fields under_declared_def)
qed

theorem audit_deterministic_witness:
  "audit_tree step_json [(''demo'', [(''GET'', [(''GET/a'', hello_dsl), (''GET/b'', hello_dsl)])])] =
   audit_tree step_json [(''demo'', [(''GET'', [(''GET/b'', hello_dsl), (''GET/a'', hello_dsl)])])]"
  by (rule audit_deterministic[THEN conjunct1]) (simp_all add: tree_dsls_def)

text \<open>A route that declares the field \<open>id\<close> and reads the field \<open>x\<close>.\<close>

definition drifted_declaration :: declaration_step where
  "drifted_declaration = declaration_default\<lparr>dc_allowlist := Some \<lparr>al_body = Some [DslField ''id'' None None None None None None],
     al_headers = None, al_params = None, al_required_one_of = None\<rparr>\<rparr>"

definition drifted_dsl :: dsl where
  "drifted_dsl = dsl_new [(''d'', Declaration drifted_declaration), (''r'', Return plain_return)]"

lemma drifted_references:
  "extract_references (render_dsl_for_scan (\<lambda>_. Some ''incoming.body.x'') drifted_dsl) ''body'' = [''x'']"
  by code_simp

definition drifted_finding :: finding where
  "drifted_finding = \<lparr>f_project = ''demo'', f_dsl = ''GET/r'', f_severity = SevWarning,
     f_code = ''declaration.body.under_declared'', f_fields = [''x'']\<rparr>"

lemma drifted_decl: "dsl_declaration drifted_dsl = Some drifted_declaration"
  by (simp add: drifted_dsl_def dsl_new_def)

lemma drifted_body: "structured_body drifted_declaration = Some [DslField ''id'' None None None None None None]"
  "allowed_body drifted_declaration = None" "\<not> is_additive drifted_declaration"
  by (simp_all add: drifted_declaration_def structured_body_def declaration_default_def is_additive_def)

lemma drifted_found: "drifted_finding \<in> set (audit_dsl (\<lambda>_. Some ''incoming.body.x'') ''demo'' ''GET/r'' drifted_dsl)"
proof -
  have "under_declared (render_dsl_for_scan (\<lambda>_. Some ''incoming.body.x'') drifted_dsl) ''body''
      (map field (opt_or (structured_body drifted_declaration) [])) = [''x'']"
    by (simp add: under_declared_def drifted_references drifted_body)
  then show ?thesis
    unfolding audit_dsl_def Let_def drifted_decl option.case
    by (simp add: push_fields_def push_if_def drifted_finding_def)
qed

theorem under_declared_is_stripped_witness:
  "apply_declaration drifted_declaration [(''x'', JNull)] [] [] ''GET'' ''tp'' = Inr ([], [], []) \<and>
   set (f_fields drifted_finding) \<inter> fst ` set ([] :: json hmap) = {} \<and> set (f_fields drifted_finding) = {''x''} - {''id''}"
proof -
  have a: "apply_declaration drifted_declaration [(''x'', JNull)] [] [] ''GET'' ''tp'' = Inr ([], [], [])"
    by (simp add: drifted_declaration_def example_simps Let_def)
  have c: "f_code drifted_finding = ''declaration.body.under_declared''" by (simp add: drifted_finding_def)
  from under_declared_is_stripped[OF drifted_decl drifted_body drifted_found c a] a show ?thesis
    by (simp add: drifted_references)
qed

end
