(* ===== verification/Admin.thy ===== *)
theory Admin
  imports Openapi Dsl_Audit
begin

text \<open>
  The endpoints a deployment can mount beside the DSL routes (\<open>src/router/mod.rs\<close>, \<open>src/supervisor/mod.rs\<close>):
  the route table with and without them, the report of guarded and unguarded routes, the footprint of the
  state store and the report of the DSL audit. The lemmas show that the route report is exact, that is, a
  route is listed as reachable without a guard exactly when it is, and that the numbers of the other two
  reports are those of the store and of the tree.
\<close>

section \<open>Mounting\<close>

text \<open>\<open>admin_enabled\<close>, applied to the environment variable \<open>RUUTER_ADMIN_ENABLED\<close>.\<close>

definition admin_enabled :: "string option \<Rightarrow> bool" where
  "admin_enabled env = (case env of None \<Rightarrow> False | Some v \<Rightarrow> to_ascii_lowercase v \<in> {''1'', ''true'', ''yes''})"

datatype endpoint =
    Health | Unguarded | OpenapiJson | StateStats | AuditDsl | SourcesReport | DslFallback

definition admin_routes :: "(string \<times> endpoint) list" where
  "admin_routes = [(''/_/unguarded'', Unguarded), (''/_/openapi.json'', OpenapiJson),
     (''/_/state-stats'', StateStats), (''/_/audit/dsl'', AuditDsl)]"

definition supervisor_routes :: "(string \<times> endpoint) list" where
  "supervisor_routes = [(''/_/sources'', SourcesReport)]"

definition app_routes :: "string option \<Rightarrow> (string \<times> endpoint) list" where
  "app_routes env = [(''/health'', Health)] @ (if admin_enabled env then supervisor_routes @ admin_routes else [])"

definition endpoint_for :: "string option \<Rightarrow> string \<Rightarrow> endpoint" where
  "endpoint_for env path = opt_or (map_of (app_routes env) path) DslFallback"

definition health_check :: json where
  "health_check = json_object [(''status'', JString ''ok'')]"

definition json_usize :: "nat \<Rightarrow> json" where
  "json_usize n = JNumber (PosInt (of_nat n))"

section \<open>Guarded and unguarded routes\<close>

definition internal_for :: "bool \<Rightarrow> http_dsls \<Rightarrow> string \<Rightarrow> string \<Rightarrow> string \<Rightarrow> bool" where
  "internal_for di http project meth path =
     (case Option.bind (Option.bind (map_of http project) (\<lambda>ms. map_of ms meth)) (\<lambda>ds. map_of ds (meth @ ''/'' @ path)) of
        Some d \<Rightarrow> effective_internal d di
      | None \<Rightarrow> False)"

record project_routes =
  pr_unguarded :: "json list"
  pr_guarded :: "json list"

record route_report =
  rr_unguarded :: nat
  rr_guarded :: nat
  rr_projects :: "project_routes hmap"

definition unguarded_entry :: "route_audit \<Rightarrow> bool \<Rightarrow> json" where
  "unguarded_entry r priv = json_object
     [(''method'', JString (ra_method r)), (''path'', JString (ra_path r)), (''internal'', JBool priv)]"

definition guarded_entry :: "route_audit \<Rightarrow> bool \<Rightarrow> json" where
  "guarded_entry r priv = json_object
     [(''method'', JString (ra_method r)), (''path'', JString (ra_path r)),
      (''guards'', JArray (map JString (ra_guards r))), (''internal'', JBool priv)]"

definition report_route :: "bool \<Rightarrow> http_dsls \<Rightarrow> route_audit \<Rightarrow> route_report \<Rightarrow> route_report" where
  "report_route di http r rep =
     (let entry = opt_or (map_of (rr_projects rep) (ra_project r)) \<lparr>pr_unguarded = [], pr_guarded = []\<rparr>;
          priv = internal_for di http (ra_project r) (ra_method r) (ra_path r)
      in if is_unguarded r
         then rep\<lparr>rr_unguarded := Suc (rr_unguarded rep),
                  rr_projects := hm_insert (ra_project r)
                    (entry\<lparr>pr_unguarded := pr_unguarded entry @ [unguarded_entry r priv]\<rparr>) (rr_projects rep)\<rparr>
         else rep\<lparr>rr_guarded := Suc (rr_guarded rep),
                  rr_projects := hm_insert (ra_project r)
                    (entry\<lparr>pr_guarded := pr_guarded entry @ [guarded_entry r priv]\<rparr>) (rr_projects rep)\<rparr>)"

definition route_report_of :: "bool \<Rightarrow> http_dsls \<Rightarrow> guard_dsls \<Rightarrow> guard_mode \<Rightarrow> route_report" where
  "route_report_of di http gs md =
     fold (report_route di http) (audit_all_routes is_override_guard http gs md)
       \<lparr>rr_unguarded = 0, rr_guarded = 0, rr_projects = []\<rparr>"

definition handle_unguarded :: "bool \<Rightarrow> http_dsls \<Rightarrow> guard_dsls \<Rightarrow> guard_mode \<Rightarrow> json" where
  "handle_unguarded di http gs md =
     (let rep = route_report_of di http gs md in json_object
        [(''totals'', json_object
           [(''guarded'', json_usize (rr_guarded rep)), (''unguarded'', json_usize (rr_unguarded rep)),
            (''routes'', json_usize (rr_guarded rep + rr_unguarded rep))]),
         (''projects'', json_object (map (\<lambda>(p, e). (p, json_object
            [(''unguarded'', JArray (pr_unguarded e)), (''guarded'', JArray (pr_guarded e))])) (rr_projects rep)))])"

section \<open>State store\<close>

text \<open>
  \<open>a as f64 / b as f64\<close>, rounded to 53 bits, ties to even: the quotient is scaled by \<open>2^s\<close> so that its
  integer part has 53 bits. Entry counts are far below \<open>2^53\<close>, so both operands are exact.
\<close>

fun bits :: "nat \<Rightarrow> nat" where
  "bits n = (if n = 0 then 0 else Suc (bits (n div 2)))"

declare bits.simps [simp del]

definition round_half_even :: "nat \<Rightarrow> nat \<Rightarrow> nat" where
  "round_half_even a b =
     (let q = a div b; r = a mod b in
      if 2 * r < b \<or> (2 * r = b \<and> even q) then q else Suc q)"

definition scaled_ratio :: "nat \<Rightarrow> nat \<Rightarrow> int \<Rightarrow> nat \<times> nat" where
  "scaled_ratio a b s = (a * 2 ^ nat s, b * 2 ^ nat (- s))"

definition f64_div :: "nat \<Rightarrow> nat \<Rightarrow> number" where
  "f64_div a b =
     (if a = 0 then Float 0 0
      else let s0 = int 52 + int (bits b) - int (bits a);
               s = (case scaled_ratio a b s0 of (x, y) \<Rightarrow> if x div y < 2 ^ 52 then s0 + 1 else s0)
           in case scaled_ratio a b s of (x, y) \<Rightarrow> Float (int (round_half_even x y)) (- s))"

definition stats_entry :: "project_stats \<Rightarrow> json" where
  "stats_entry s = json_object
     ([(''project'', JString (ps_project s)), (''entries'', json_usize (ps_entries s)),
       (''cap'', case ps_cap s of Some c \<Rightarrow> json_usize c | None \<Rightarrow> JNull)] @
      (case ps_cap s of
         Some c \<Rightarrow> if c = 0 then [] else [(''used_pct'', JNumber (f64_div (ps_entries s) c))]
       | None \<Rightarrow> []))"

definition total_entries :: "state_store \<Rightarrow> nat" where
  "total_entries st = sum_list (map ps_entries (sort_key ps_project (all_project_stats st)))"

definition handle_state_stats :: "state_store \<Rightarrow> json" where
  "handle_state_stats st =
     (let stats = sort_key ps_project (all_project_stats st) in json_object
        [(''cap'', case max_entries_per_project st of Some c \<Rightarrow> json_usize c | None \<Rightarrow> JNull),
         (''totals'', json_object
           [(''projects'', json_usize (length stats)), (''entries'', json_usize (total_entries st))]),
         (''projects'', JArray (map stats_entry stats))])"

section \<open>DSL audit\<close>

text \<open>\<open>finding_json\<close> is the serde rendering of a finding, whose message the model leaves out.\<close>

definition count_severity :: "severity \<Rightarrow> finding list \<Rightarrow> nat" where
  "count_severity sev fs = length (filter (\<lambda>f. f_severity f = sev) fs)"

definition dsl_count :: "http_dsls \<Rightarrow> nat" where
  "dsl_count http = sum_list (map (\<lambda>(_, ms). sum_list (map (\<lambda>(_, ds). length ds) ms)) http)"

definition handle_audit_dsl ::
  "(finding \<Rightarrow> json) \<Rightarrow> (dsl_step \<Rightarrow> string option) \<Rightarrow> http_dsls \<Rightarrow> json" where
  "handle_audit_dsl finding_json step_json http =
     (let fs = audit_tree step_json http in json_object
        [(''totals'', json_object
           [(''projects'', json_usize (length http)), (''dsls'', json_usize (dsl_count http)),
            (''errors'', json_usize (count_severity SevError fs)),
            (''warnings'', json_usize (count_severity SevWarning fs)),
            (''info'', json_usize (count_severity SevInfo fs))]),
         (''findings'', JArray (map finding_json fs))])"

section \<open>The route report\<close>

definition report_entry :: "route_report \<Rightarrow> string \<Rightarrow> project_routes" where
  "report_entry rep p = opt_or (map_of (rr_projects rep) p) \<lparr>pr_unguarded = [], pr_guarded = []\<rparr>"

lemma report_route_entry:
  "report_entry (report_route di http r rep) p =
     (let priv = internal_for di http (ra_project r) (ra_method r) (ra_path r); e = report_entry rep p in
      if p \<noteq> ra_project r then e
      else if is_unguarded r then e\<lparr>pr_unguarded := pr_unguarded e @ [unguarded_entry r priv]\<rparr>
      else e\<lparr>pr_guarded := pr_guarded e @ [guarded_entry r priv]\<rparr>)"
  by (simp add: report_entry_def report_route_def Let_def update_conv')

definition unguarded_of :: "bool \<Rightarrow> http_dsls \<Rightarrow> string \<Rightarrow> route_audit list \<Rightarrow> json list" where
  "unguarded_of di http p rs =
     map (\<lambda>r. unguarded_entry r (internal_for di http p (ra_method r) (ra_path r)))
       (filter (\<lambda>r. ra_project r = p \<and> is_unguarded r) rs)"

lemma report_fold:
  "pr_unguarded (report_entry (fold (report_route di http) rs rep) p) =
     pr_unguarded (report_entry rep p) @ unguarded_of di http p rs"
  "rr_unguarded (fold (report_route di http) rs rep) = rr_unguarded rep + length (filter is_unguarded rs)"
  "rr_guarded (fold (report_route di http) rs rep) = rr_guarded rep + length (filter (\<lambda>r. \<not> is_unguarded r) rs)"
  by (induction rs arbitrary: rep) (auto simp: unguarded_of_def report_route_entry Let_def, auto simp: report_route_def Let_def)

lemma report_of:
  "pr_unguarded (report_entry (route_report_of di http gs md) p) =
     unguarded_of di http p (audit_all_routes is_override_guard http gs md)"
  "rr_unguarded (route_report_of di http gs md) + rr_guarded (route_report_of di http gs md) =
     length (audit_all_routes is_override_guard http gs md)"
proof -
  show "pr_unguarded (report_entry (route_report_of di http gs md) p) =
     unguarded_of di http p (audit_all_routes is_override_guard http gs md)"
    unfolding route_report_of_def report_fold by (simp add: report_entry_def)
  show "rr_unguarded (route_report_of di http gs md) + rr_guarded (route_report_of di http gs md) =
     length (audit_all_routes is_override_guard http gs md)"
    by (simp add: route_report_of_def report_fold sum_length_filter_compl)
qed

definition listed_unguarded :: "json \<Rightarrow> string \<Rightarrow> json set" where
  "listed_unguarded rep p =
     (case Option.bind (Option.bind (json_member ''projects'' rep) (json_member p)) (json_member ''unguarded'') of
        Some (JArray xs) \<Rightarrow> set xs | _ \<Rightarrow> {})"

lemma report_projects_distinct:
  "distinct (map fst (rr_projects rep)) \<Longrightarrow> distinct (map fst (rr_projects (fold (report_route di http) rs rep)))"
  by (induction rs arbitrary: rep) (auto simp: report_route_def Let_def distinct_update)

lemma listed_unguarded_report:
  "listed_unguarded (handle_unguarded di http gs md) p =
     set (unguarded_of di http p (audit_all_routes is_override_guard http gs md))"
proof -
  let ?rep = "route_report_of di http gs md"
  let ?render = "\<lambda>e. json_object [(''unguarded'', JArray (pr_unguarded e)), (''guarded'', JArray (pr_guarded e))]"
  have "distinct (map fst (rr_projects ?rep))"
    unfolding route_report_of_def by (rule report_projects_distinct) simp
  then have d: "distinct (map fst (map (\<lambda>(p, e). (p, ?render e)) (rr_projects ?rep)))"
    by (simp add: comp_def case_prod_unfold)
  have "json_member ''projects'' (handle_unguarded di http gs md) = Some (json_object (map (\<lambda>(p, e). (p, ?render e)) (rr_projects ?rep)))"
    unfolding handle_unguarded_def Let_def by (subst json_member_object) simp_all
  then have proj: "Option.bind (json_member ''projects'' (handle_unguarded di http gs md)) (json_member p) =
      map_option ?render (map_of (rr_projects ?rep) p)"
    by (simp add: json_member_object[OF d] map_of_map_value)
  have ren: "json_member ''unguarded'' (?render e) = Some (JArray (pr_unguarded e))" for e
    by (subst json_member_object) simp_all
  have "listed_unguarded (handle_unguarded di http gs md) p = set (pr_unguarded (report_entry ?rep p))"
    unfolding listed_unguarded_def proj report_entry_def
    by (cases "map_of (rr_projects ?rep) p") (simp_all add: ren)
  then show ?thesis by (simp only: report_of)
qed

definition keyed_tree :: "http_dsls \<Rightarrow> bool" where
  "keyed_tree http \<longleftrightarrow> distinct (map fst http) \<and>
     (\<forall>(p, ms) \<in> set http. distinct (map fst ms) \<and>
       (\<forall>(m, ds) \<in> set ms. distinct (map fst ds) \<and> (\<forall>(k, d) \<in> set ds. starts_with k (m @ ''/''))))"

lemma keyed_routes:
  assumes "keyed_tree http"
  shows "(\<exists>ms ds. (p, ms) \<in> set http \<and> (m, ds) \<in> set ms \<and> (k, d) \<in> set ds) \<longleftrightarrow> route_in http p m k d"
    and "route_in http p m k d \<Longrightarrow> \<exists>q. k = m @ ''/'' @ q"
proof -
  have mem: "(p, ms) \<in> set http \<longleftrightarrow> map_of http p = Some ms" for p ms
    using assms by (simp add: keyed_tree_def)
  have level: "distinct (map fst ms) \<and> (\<forall>(m, ds) \<in> set ms. distinct (map fst ds) \<and> (\<forall>(k, d) \<in> set ds. starts_with k (m @ ''/'')))"
    if "(p, ms) \<in> set http" for ms
    using bspec[OF conjunct2[OF assms[unfolded keyed_tree_def]] that] by simp
  have mem2: "(m, ds) \<in> set ms \<longleftrightarrow> map_of ms m = Some ds" if "(p, ms) \<in> set http" for ms ds
    using level[OF that] by simp
  have bucket: "distinct (map fst ds) \<and> (\<forall>(k, d) \<in> set ds. starts_with k (m @ ''/''))"
    if "(p, ms) \<in> set http" "(m, ds) \<in> set ms" for ms ds
    using bspec[OF conjunct2[OF level[OF that(1)]] that(2)] by simp
  have mem3: "(k, d) \<in> set ds \<longleftrightarrow> map_of ds k = Some d" if "(p, ms) \<in> set http" "(m, ds) \<in> set ms" for ms ds
    using bucket[OF that] by simp
  show "(\<exists>ms ds. (p, ms) \<in> set http \<and> (m, ds) \<in> set ms \<and> (k, d) \<in> set ds) \<longleftrightarrow> route_in http p m k d"
    unfolding route_in_def bind_eq_Some_conv by (metis mem mem2 mem3)
  assume "route_in http p m k d"
  then obtain ms ds where "map_of http p = Some ms" "map_of ms m = Some ds" "map_of ds k = Some d"
    by (auto simp: route_in_def bind_eq_Some_conv)
  then have "(p, ms) \<in> set http" "(m, ds) \<in> set ms" "(k, d) \<in> set ds" by (auto dest: map_of_SomeD)
  then have "starts_with k (m @ ''/'')" using bucket by fast
  then show "\<exists>q. k = m @ ''/'' @ q" by (auto simp: starts_with_iff)
qed

lemma unguarded_entry_inj:
  "unguarded_entry r i = unguarded_entry r' i' \<longleftrightarrow> ra_method r = ra_method r' \<and> ra_path r = ra_path r' \<and> i = i'"
  by (auto simp: unguarded_entry_def json_object_def)

section \<open>Counts\<close>

lemma filter_buckets:
  "distinct S \<Longrightarrow> (\<And>x. x \<in> set xs \<Longrightarrow> f x \<in> set S) \<Longrightarrow>
   sum_list (map (\<lambda>p. length (filter (\<lambda>x. f x = p) xs)) S) = length xs"
proof (induction xs)
  case (Cons x xs)
  have one: "sum_list (map (\<lambda>p. if f x = p then 1 else 0) S) = (1 :: nat)"
    using Cons.prems by (simp add: sum_list_distinct_conv_sum_set)
  have "sum_list (map (\<lambda>p. length (filter (\<lambda>x. f x = p) (x # xs))) S) =
      sum_list (map (\<lambda>p. (if f x = p then 1 else 0) + length (filter (\<lambda>x. f x = p) xs)) S)"
    by (intro arg_cong[where f = sum_list] map_cong) auto
  then show ?case using Cons one by (simp add: sum_list_addf)
qed simp

lemma group_counts_total: "sum_list (map snd (group_counts es acc)) = sum_list (map snd acc) + length es"
proof (induction es acc rule: group_counts.induct)
  case (2 sk v es acc)
  have "sum_list (map snd (hm_insert p (opt_or (map_of acc p) 0 + 1) acc)) = Suc (sum_list (map snd acc))" for p :: string
    by (induction acc) auto
  with 2 show ?case by simp
qed simp

lemma total_entries_len:
  assumes "wf_store st"
  shows "total_entries st = store_len st"
proof -
  have perm: "sum_list (map ps_entries (sort_key ps_project xs)) = sum_list (map ps_entries xs)" for xs
    by (metis mset_map mset_sort sum_mset_sum_list)
  show ?thesis
  proof (cases "max_entries_per_project st")
    case None
    then show ?thesis
      by (simp add: total_entries_def perm all_project_stats_def comp_def case_prod_unfold store_len_def group_counts_total)
  next
    case (Some cap)
    note wf = wf_storeD[OF assms]
    have cnt: "n = length (project_entries st p)" if "(p, n) \<in> set (project_counts st)" for p n
      using wf(2) wf(3)[OF Some, of p] that by (simp add: current_count_def)
    have pr: "sk_project sk \<in> set (map fst (project_counts st))" if "(sk, v) \<in> set (inner st)" for sk v
    proof (rule ccontr)
      assume "sk_project sk \<notin> set (map fst (project_counts st))"
      then have "map_of (project_counts st) (sk_project sk) = None" by (simp add: map_of_eq_None_iff)
      then have "current_count st (sk_project sk) = 0" by (simp add: current_count_def)
      then have "project_entries st (sk_project sk) = []" using wf(3)[OF Some] by simp
      then show False using that by (auto simp: project_entries_def filter_empty_conv)
    qed
    have "total_entries st = sum_list (map snd (project_counts st))"
      using Some by (simp add: total_entries_def perm all_project_stats_def comp_def case_prod_unfold)
    also have "\<dots> = sum_list (map (\<lambda>p. length (filter (\<lambda>e. sk_project (fst e) = p) (inner st))) (map fst (project_counts st)))"
      using cnt by (auto simp: project_entries_def case_prod_unfold comp_def intro!: arg_cong[where f = sum_list])
    also have "\<dots> = length (inner st)" using wf(2) pr by (intro filter_buckets) auto
    finally show ?thesis by (simp add: store_len_def)
  qed
qed

lemma audit_counts:
  "count_severity SevError fs + count_severity SevWarning fs + count_severity SevInfo fs = length fs"
  "dsl_count http = length (tree_dsls http)"
proof -
  show "count_severity SevError fs + count_severity SevWarning fs + count_severity SevInfo fs = length fs"
  proof (induction fs)
    case (Cons f fs)
    then show ?case by (cases "f_severity f") (simp_all add: count_severity_def)
  qed (simp add: count_severity_def)
  show "dsl_count http = length (tree_dsls http)"
    by (simp add: dsl_count_def tree_dsls_def length_concat comp_def case_prod_unfold)
qed

section \<open>Properties\<close>

text \<open>
  The route report is exact: on a tree whose keys start with their method, \<open>/_/unguarded\<close> lists a route as
  not internal and unguarded exactly when it is a route of an auditable method that outside callers reach
  and for which the router runs no guard.
\<close>

theorem unguarded_report_exact:
  assumes "keyed_tree http"
  shows "json_object [(''method'', JString m), (''path'', JString q), (''internal'', JBool False)]
      \<in> listed_unguarded (handle_unguarded di http gs md) p \<longleftrightarrow>
    is_auditable_method m \<and> (\<exists>d. route_in http p m (m @ ''/'' @ q) d \<and> \<not> effective_internal d di \<and>
      applicable_guards is_override_guard p (m @ ''/'' @ q) gs md = [])"
proof -
  define rt where "rt k = \<lparr>ra_project = p, ra_method = m, ra_path = opt_or (strip_prefix (m @ ''/'') k) k,
      ra_dsl_key = k, ra_guards = guard_keys_for_dsl is_override_guard p k gs md\<rparr>" for k
  have entry: "json_object [(''method'', JString m), (''path'', JString q), (''internal'', JBool False)] =
      unguarded_entry (rt (m @ ''/'' @ q)) False"
    by (simp add: unguarded_entry_def rt_def strip_prefix_def starts_with_def)
  have "unguarded_entry (rt (m @ ''/'' @ q)) False \<in> set (unguarded_of di http p (audit_all_routes is_override_guard http gs md)) \<longleftrightarrow>
    (\<exists>r. r \<in> set (audit_all_routes is_override_guard http gs md) \<and> ra_project r = p \<and> is_unguarded r \<and>
       ra_method r = m \<and> ra_path r = q \<and> \<not> internal_for di http p m q)"
    by (auto simp: unguarded_of_def unguarded_entry_inj rt_def strip_prefix_def starts_with_def)
  also have "\<dots> \<longleftrightarrow> is_auditable_method m \<and> (\<exists>k d. route_in http p m k d \<and> is_unguarded (rt k) \<and> ra_path (rt k) = q) \<and>
       \<not> internal_for di http p m q"
    unfolding keyed_routes(1)[OF assms, symmetric] set_audit_all_routes rt_def by fastforce
  also have "\<dots> \<longleftrightarrow> is_auditable_method m \<and> (\<exists>d. route_in http p m (m @ ''/'' @ q) d \<and> is_unguarded (rt (m @ ''/'' @ q))) \<and>
       \<not> internal_for di http p m q"
  proof -
    have "ra_path (rt k) = q \<longleftrightarrow> k = m @ ''/'' @ q" if "route_in http p m k d" for k d
      using keyed_routes(2)[OF assms that] by (auto simp: rt_def strip_prefix_def starts_with_def)
    then have "(\<exists>k d. route_in http p m k d \<and> is_unguarded (rt k) \<and> ra_path (rt k) = q) \<longleftrightarrow>
        (\<exists>d. route_in http p m (m @ ''/'' @ q) d \<and> is_unguarded (rt (m @ ''/'' @ q)))"
      by metis
    then show ?thesis by simp
  qed
  also have "\<dots> \<longleftrightarrow> is_auditable_method m \<and> (\<exists>d. route_in http p m (m @ ''/'' @ q) d \<and> \<not> effective_internal d di \<and>
      applicable_guards is_override_guard p (m @ ''/'' @ q) gs md = [])"
  proof -
    have "is_unguarded (rt k) \<longleftrightarrow> applicable_guards is_override_guard p k gs md = []" for k
      using applicable_guards_keys[of is_override_guard p k gs md] by (auto simp: is_unguarded_def rt_def)
    then show ?thesis by (auto simp: internal_for_def route_in_def)
  qed
  finally show ?thesis by (simp only: listed_unguarded_report entry)
qed

lemma demo_tree_keyed: "keyed_tree [(''demo'', [(''GET'', [(''GET/hello'', dsl_new [])])])]"
  by code_simp

theorem unguarded_report_exact_witness:
  "json_object [(''method'', JString ''GET''), (''path'', JString ''hello''), (''internal'', JBool False)]
     \<in> listed_unguarded (handle_unguarded False [(''demo'', [(''GET'', [(''GET/hello'', dsl_new [])])])] [] Stack) ''demo''"
proof -
  have "is_auditable_method ''GET''" by code_simp
  moreover have "applicable_guards is_override_guard ''demo'' (''GET'' @ ''/'' @ ''hello'') [] Stack = []" by code_simp
  moreover have "\<not> effective_internal (dsl_new []) False" by code_simp
  ultimately show ?thesis
    unfolding unguarded_report_exact[OF demo_tree_keyed] by (auto simp: route_in_def)
qed

text \<open>
  The numbers of the reports are right: the guarded and unguarded totals add up to the audited routes, the
  total of the store report is the number of entries of any store the operations can build, the severities
  of the audit report add up to its findings, and its DSL count is that of the tree.
\<close>

theorem report_totals:
  "rr_unguarded (route_report_of di http gs md) + rr_guarded (route_report_of di http gs md) =
     length (audit_all_routes is_override_guard http gs md) \<and>
   total_entries (fold (\<lambda>x t. store_step t x) ops (store_with_config cap)) =
     store_len (fold (\<lambda>x t. store_step t x) ops (store_with_config cap)) \<and>
   (let fs = audit_tree step_json http in
      count_severity SevError fs + count_severity SevWarning fs + count_severity SevInfo fs = length fs) \<and>
   dsl_count http = length (tree_dsls http)"
  using report_of(2) total_entries_len[OF store_run_wf[OF wf_store_with_config]] audit_counts
  by (simp add: Let_def)

end
