(* ===== verification/Hot_Reload.thy ===== *)
theory Hot_Reload
  imports Dsl_Loading
begin

text \<open>
  Hot reload (\<open>src/dsl/hot_reload.rs\<close> and \<open>DslRouter::publish_dsls\<close> of \<open>src/router/mod.rs\<close>): which
  file-system events ask for a reload, the bounded channel between the watcher thread and the reload
  task, the reload itself and the handler behind \<open>reload_dsl\<close> steps. The notify library's events are
  data; a path is the list of its components. The two trees are published by two stores, so what a
  request between them sees is a state of the model.
\<close>

section \<open>Events\<close>

datatype event_kind = EvCreate | EvRemove | EvModifyData | EvModifyName | EvModifyMetadata | EvModifyAny
  | EvModifyOther | EvAccess | EvAny | EvOther

record fs_event =
  ev_kind :: event_kind
  ev_paths :: "string list list"

definition event_kind_matters :: "event_kind \<Rightarrow> bool" where
  "event_kind_matters k \<longleftrightarrow> k = EvCreate \<or> k = EvRemove \<or> k = EvModifyData \<or> k = EvModifyName"

definition is_under_reserved_subdir :: "string list \<Rightarrow> string list \<Rightarrow> bool" where
  "is_under_reserved_subdir path dsl_root =
     (if take (length dsl_root) path \<noteq> dsl_root then False
      else
        let comps = drop (length dsl_root) path in
        if length comps < 2 then False
        else comps ! 1 \<in> set RESERVED_SUBDIRS \<or>
          comps ! 1 = ''WS'' \<and> 2 < length comps \<and> comps ! 2 = ''outbound'')"

definition path_is_relevant :: "string list \<Rightarrow> string list \<Rightarrow> bool" where
  "path_is_relevant path dsl_root \<longleftrightarrow>
     \<not> is_under_reserved_subdir path dsl_root \<and> path \<noteq> [] \<and>
     (let name = last path in
      name = ''.guard'' \<or> contains_str name ''.guard.'' \<or> extension name = Some ''yml'' \<or> extension name = Some ''yaml'')"

definition event_paths_relevant :: "string list list \<Rightarrow> string list \<Rightarrow> bool" where
  "event_paths_relevant paths dsl_root \<longleftrightarrow> paths = [] \<or> list_ex (\<lambda>p. path_is_relevant p dsl_root) paths"

definition batch_warrants_reload :: "fs_event list \<Rightarrow> string list \<Rightarrow> bool" where
  "batch_warrants_reload events dsl_root \<longleftrightarrow>
     list_ex (\<lambda>ev. event_kind_matters (ev_kind ev) \<and> event_paths_relevant (ev_paths ev) dsl_root) events"

section \<open>Publishing\<close>

definition store_dsls :: "http_dsls \<Rightarrow> world \<Rightarrow> world" where
  "store_dsls http w = w\<lparr>dsls := Some http\<rparr>"

definition store_guards :: "guard_dsls \<Rightarrow> world \<Rightarrow> world" where
  "store_guards gs w = w\<lparr>guards := gs\<rparr>"

definition publish_dsls :: "http_dsls \<Rightarrow> guard_dsls \<Rightarrow> world \<Rightarrow> world" where
  "publish_dsls http gs w = store_guards gs (store_dsls http w)"

definition reload_once :: "load_params \<Rightarrow> fs_node \<Rightarrow> world \<Rightarrow> world" where
  "reload_once L disk w =
     (case load_everything L disk of
        Inr loaded \<Rightarrow> publish_dsls (ld_http loaded) (ld_guards loaded) w
      | Inl _ \<Rightarrow> w)"

text \<open>\<open>StepReloadHandler\<close>, in the form the engine of the model takes: the n-th reload reads the n-th disk.\<close>

definition step_reload_handler ::
  "bool \<Rightarrow> load_params \<Rightarrow> (nat \<Rightarrow> fs_node) \<Rightarrow> nat \<Rightarrow> (http_dsls \<times> guard_dsls) option" where
  "step_reload_handler allow_dsl_reloading L disk n =
     (if \<not> allow_dsl_reloading then None
      else (case load_everything L (disk n) of
              Inr loaded \<Rightarrow> Some (ld_http loaded, ld_guards loaded)
            | Inl _ \<Rightarrow> None))"

section \<open>The watcher\<close>

definition RELOAD_QUEUE :: nat where
  "RELOAD_QUEUE = 16"

record watcher =
  wt_queue :: nat
  wt_disk :: fs_node
  wt_world :: world

text \<open>A debounced batch: one signal when it matters; on a full channel the signal is dropped.\<close>

definition watcher_batch :: "string list \<Rightarrow> fs_event list \<Rightarrow> watcher \<Rightarrow> watcher" where
  "watcher_batch dsl_root events wt =
     (if batch_warrants_reload events dsl_root \<and> wt_queue wt < RELOAD_QUEUE
      then wt\<lparr>wt_queue := Suc (wt_queue wt)\<rparr> else wt)"

text \<open>The reload task takes one signal and reads the disk as it then is.\<close>

definition watcher_reload :: "load_params \<Rightarrow> watcher \<Rightarrow> watcher" where
  "watcher_reload L wt =
     (if wt_queue wt = 0 then wt
      else wt\<lparr>wt_queue := wt_queue wt - 1, wt_world := reload_once L (wt_disk wt) (wt_world wt)\<rparr>)"

fun watcher_reloads :: "load_params \<Rightarrow> nat \<Rightarrow> watcher \<Rightarrow> watcher" where
  "watcher_reloads L 0 wt = wt"
| "watcher_reloads L (Suc n) wt = watcher_reloads L n (watcher_reload L wt)"

section \<open>Lemmas\<close>

lemma reload_once_idem: "reload_once L disk (reload_once L disk w) = reload_once L disk w"
  by (simp add: reload_once_def publish_dsls_def store_guards_def store_dsls_def split: sum.splits)

lemma watcher_reloads_spec:
  "wt_queue wt = n \<Longrightarrow> watcher_reloads L n wt =
     wt\<lparr>wt_queue := 0, wt_world := (if n = 0 then wt_world wt else reload_once L (wt_disk wt) (wt_world wt))\<rparr>"
proof (induction n arbitrary: wt)
  case (Suc n)
  have "wt_queue (watcher_reload L wt) = n" using Suc.prems by (simp add: watcher_reload_def)
  from Suc.IH[OF this] show ?case using Suc.prems by (simp add: watcher_reload_def reload_once_idem)
qed simp

lemma trigger_reload_publishes:
  assumes "reload_handler E = Some (step_reload_handler True L disk)"
  shows "trigger_reload E c w = Some (Inr (), c, (reload_once L (disk (reloads w)) w)\<lparr>reloads := Suc (reloads w)\<rparr>)"
  using assms
  by (auto simp: trigger_reload_def on_world_def step_reload_handler_def reload_once_def publish_dsls_def
      store_guards_def store_dsls_def split: sum.splits)

lemma under_root:
  "is_under_reserved_subdir (root @ comps) root \<longleftrightarrow> 2 \<le> length comps \<and>
     (comps ! 1 \<in> set RESERVED_SUBDIRS \<or> comps ! 1 = ''WS'' \<and> 2 < length comps \<and> comps ! 2 = ''outbound'')"
  by (auto simp: is_under_reserved_subdir_def Let_def)

lemma processable_relevant:
  assumes "is_processable_file L n" "set (processed_filetypes L) \<subseteq> {''.yml'', ''.yaml'', ''yml'', ''yaml''}"
  shows "n = ''.guard'' \<or> contains_str n ''.guard.'' \<or> extension n = Some ''yml'' \<or> extension n = Some ''yaml''"
proof (cases "extension n")
  case None
  then have "n = ''.guard'' \<or> n = ''.guard.yml'' \<or> n = ''.guard.yaml''" using assms(1) by (simp add: is_processable_file_def)
  then show ?thesis by (elim disjE) (simp_all add: starts_with_def)
next
  case (Some e)
  show ?thesis
  proof (cases "n = ''.guard'' \<or> n = ''.guard.yml'' \<or> n = ''.guard.yaml''")
    case True
    then show ?thesis by (elim disjE) (simp_all add: starts_with_def)
  next
    case False
    then have "list_ex (\<lambda>a. a = e \<or> a = ''.'' @ e) (processed_filetypes L)"
      using assms(1) Some unfolding is_processable_file_def by simp
    then obtain a where a: "a \<in> set (processed_filetypes L)" "a = e \<or> a = ''.'' @ e" by (auto simp: list_ex_iff)
    from a(1) assms(2) have "a = ''.yml'' \<or> a = ''.yaml'' \<or> a = ''yml'' \<or> a = ''yaml''" by blast
    moreover have "CHR ''.'' \<notin> set e"
      using Some at_last_dot_Some[of n _ e] by (auto simp: extension_def split: option.splits if_splits)
    ultimately have "e = ''yml'' \<or> e = ''yaml''" using a(2) by (elim disjE) simp_all
    then show ?thesis using Some by simp
  qed
qed

section \<open>A reload of the sample deployment\<close>

definition secret_result :: dsl_execution_result where
  "secret_result = \<lparr>er_value = Some (JString ''secret''), er_status = 200, er_headers = [], er_wrapper = None\<rparr>"

definition empty_world :: world where
  "empty_world = sample_world\<lparr>dsls := Some [], guards := []\<rparr>"

lemma secret_run: "run_with sample_engine run secret_dsl c w = Some (Inr secret_result, c, w)"
  by (simp add: run_eval secret_dsl_def secret_result_def)

lemma empty_unknown: "resolve_dsl_with_path_params [] ''demo'' ''GET'' ''admin/secret'' = None"
  by code_simp

lemma window_guards:
  "applicable_guards_for sample_engine (store_dsls sample_dsls empty_world) ''demo'' ''GET/admin/secret'' = []"
  "applicable_guards_for sample_engine (publish_dsls sample_dsls sample_guards empty_world) ''demo'' ''GET/admin/secret'' =
     [(''GET/admin'', deny_guard)]"
  using sample_guards_for(2)
  by (simp_all add: applicable_guards_for_def store_dsls_def publish_dsls_def store_guards_def empty_world_def
      applicable_guards_def guard_keys_for_dsl_def)

lemmas window_request = execute_dsl_def sample_upper sample_resolve guarded_run_def bindc_def filter_request_def window_guards

section \<open>Properties\<close>

text \<open>
  C15. A saved change reaches the running server: once a debounced batch that matters has arrived, draining
  the reload channel (full or not) leaves the server with exactly the trees that loading the disk gives;
  when the disk does not load, with the trees it had. No signal stays behind.
\<close>

theorem hot_reload_converges:
  assumes "batch_warrants_reload events dsl_root"
  shows "let wt1 = watcher_batch dsl_root events wt; wt2 = watcher_reloads L (wt_queue wt1) wt1 in
    wt_queue wt2 = 0 \<and>
    wt_world wt2 = (case load_everything L (wt_disk wt) of
        Inr ld \<Rightarrow> (wt_world wt)\<lparr>dsls := Some (ld_http ld), guards := ld_guards ld\<rparr>
      | Inl _ \<Rightarrow> wt_world wt)"
proof -
  let ?wt1 = "watcher_batch dsl_root events wt"
  have "0 < wt_queue ?wt1" "wt_disk ?wt1 = wt_disk wt" "wt_world ?wt1 = wt_world wt"
    using assms by (simp_all add: watcher_batch_def RELOAD_QUEUE_def)
  then show ?thesis using watcher_reloads_spec[of ?wt1 "wt_queue ?wt1" L]
    by (simp add: Let_def reload_once_def publish_dsls_def store_dsls_def store_guards_def split: sum.splits)
qed

theorem hot_reload_converges_witness:
  "wt_world (watcher_reloads sample_loader 1 \<lparr>wt_queue = 1, wt_disk = sample_tree, wt_world = sample_world\<rparr>) =
     sample_world\<lparr>dsls := Some (ld_http sample_loaded), guards := ld_guards sample_loaded\<rparr>"
proof -
  let ?wt = "\<lparr>wt_queue = 0, wt_disk = sample_tree, wt_world = sample_world\<rparr>"
  have "batch_warrants_reload [\<lparr>ev_kind = EvCreate, ev_paths = []\<rparr>] [''dsl'']"
    by (simp add: batch_warrants_reload_def event_kind_matters_def event_paths_relevant_def)
  from this hot_reload_converges[OF this, of ?wt sample_loader] show ?thesis
    by (simp add: Let_def watcher_batch_def RELOAD_QUEUE_def sample_load)
qed

text \<open>
  The watcher sees every change the loader would: for each file of a method directory that the loader
  reads (with the YAML file types of the default configuration), creating, removing, renaming or writing
  it asks for a reload. Reading it or touching its metadata never does, and neither does any change below
  a reserved directory.
\<close>

theorem loader_input_watched:
  assumes "ordinary_method meth" "reserved \<in> set RESERVED_SUBDIRS" "is_processable_file L n"
    and "set (processed_filetypes L) \<subseteq> {''.yml'', ''.yaml'', ''yml'', ''yaml''}"
  shows "(batch_warrants_reload [\<lparr>ev_kind = kind, ev_paths = [root @ [project, meth] @ r @ [n]]\<rparr>] root \<longleftrightarrow>
      kind \<in> {EvCreate, EvRemove, EvModifyData, EvModifyName}) \<and>
    \<not> batch_warrants_reload [\<lparr>ev_kind = kind, ev_paths = [root @ [project, reserved] @ r @ [n]]\<rparr>] root"
proof
  have "\<not> is_under_reserved_subdir (root @ [project, meth] @ r @ [n]) root"
    using assms(1) by (simp add: under_root ordinary_method_def)
  then have "path_is_relevant (root @ [project, meth] @ r @ [n]) root"
    using processable_relevant[OF assms(3,4)] by (simp add: path_is_relevant_def)
  then show "batch_warrants_reload [\<lparr>ev_kind = kind, ev_paths = [root @ [project, meth] @ r @ [n]]\<rparr>] root \<longleftrightarrow>
      kind \<in> {EvCreate, EvRemove, EvModifyData, EvModifyName}"
    by (simp add: batch_warrants_reload_def event_paths_relevant_def event_kind_matters_def)
  have "is_under_reserved_subdir (root @ [project, reserved] @ r @ [n]) root"
    using assms(2) by (simp add: under_root)
  then show "\<not> batch_warrants_reload [\<lparr>ev_kind = kind, ev_paths = [root @ [project, reserved] @ r @ [n]]\<rparr>] root"
    by (simp add: batch_warrants_reload_def event_paths_relevant_def path_is_relevant_def)
qed

theorem loader_input_watched_witness:
  "batch_warrants_reload [\<lparr>ev_kind = EvModifyData, ev_paths = [[''dsl'', ''demo'', ''GET'', ''secret.yml'']]\<rparr>] [''dsl''] \<and>
   \<not> batch_warrants_reload [\<lparr>ev_kind = EvModifyData, ev_paths = [[''dsl'', ''demo'', ''sources'', ''secret.yml'']]\<rparr>] [''dsl'']"
  using loader_input_watched[of "''GET''" "''sources''" sample_loader "''secret.yml''" EvModifyData "[''dsl'']" "''demo''" "[]"]
    sample_names(3)
  by (simp add: ordinary_method_def RESERVED_SUBDIRS_def sample_loader_def)

text \<open>
  The two trees are published one after the other: a request that arrives between the two stores reads
  the new routes with the old guards. On a reload that adds a route together with the guard that denies
  it, the request is answered by the route, although it is unknown before the reload and denied after it.
\<close>

theorem publish_window_unguarded:
  "let between = store_dsls sample_dsls empty_world;
       after = publish_dsls sample_dsls sample_guards empty_world;
       request = execute_dsl sample_engine (engine_run 1 sample_engine) ''demo'' ''get'' ''admin/secret'' [] [] [] ''o''
   in request empty_world = Some (Inl (FileNotFound (DslNotFound ''GET'' ''admin/secret'')), empty_world) \<and>
      request between = Some (Inr secret_result, between) \<and>
      request after = Some (Inr denied_result, after)"
proof -
  have d: "dsls empty_world = Some []" "dsls (store_dsls sample_dsls empty_world) = Some sample_dsls"
    "dsls (publish_dsls sample_dsls sample_guards empty_world) = Some sample_dsls"
    by (simp_all add: empty_world_def store_dsls_def publish_dsls_def store_guards_def)
  show ?thesis
    by (simp add: Let_def window_request d empty_unknown secret_run guarded_def push_guard_def MAX_GUARD_DEPTH_def
        request_context_def with_traceparent_def ctx_with_state_def pop_guard_def)
qed

end
