(* ===== verification/Boot.thy ===== *)
theory Boot
  imports App_Config Admin Hot_Reload
begin

text \<open>
  From start to shutdown (\<open>src/main.rs\<close>): the boot sequence with each way it refuses to start, the listeners
  it plans, the process it starts from, and the accept loop of a Unix-socket listener with its graceful
  drain as a step relation. The lemmas show that a process that boots satisfies the invariants requests
  keep, that they then hold whatever requests, releases and reloads follow, and that a listener accepts
  nothing after the shutdown signal and always comes to an end.
\<close>

section \<open>Boot\<close>

datatype boot_failure =
    BootConfig ruuter_error
  | BootDsls load_error
  | BootInternalMissing "string list"
  | ListenerBoth string
  | ListenerNeither string
  | BindFailed string

datatype listener_plan = TcpPlan string string | UdsPlan string string bool

record boot_params =
  bp_env :: boot_env
  bp_serde :: serde_params
  bp_disk :: "string \<Rightarrow> fs_node"
  bp_constants :: "string option"
  bp_sources :: "string \<Rightarrow> string + ws_source_config"
  bp_source_root :: "string \<Rightarrow> fs_node option"
  bp_offline :: bool
  bind_ok :: "string \<Rightarrow> bool"

record running =
  rn_config :: app_config
  rn_source :: "string option"
  rn_warnings :: "boot_warning list"
  rn_internal_warnings :: "string list"
  rn_loader :: load_params
  rn_world :: world
  rn_client :: http_client
  rn_max_iterations :: u32
  rn_triggers :: "(string \<times> string \<times> ws_source_config) list"
  rn_endpoints :: "(string \<times> endpoint) list"
  rn_listeners :: "listener_plan list"

definition has_explicit :: "dsl \<Rightarrow> bool" where
  "has_explicit d = (case dsl_declaration d of Some decl \<Rightarrow> internal decl \<noteq> None | None \<Rightarrow> False)"

definition missing_internal :: "http_dsls \<Rightarrow> string list" where
  "missing_internal http = concat (map (\<lambda>(project, methods). concat (map (\<lambda>(_, ds).
     List.map_filter (\<lambda>(key, d). if has_explicit d then None else Some (project @ ''/'' @ key)) ds) methods)) http)"

definition enforce_internal_policy :: "missing_internal_policy \<Rightarrow> http_dsls \<Rightarrow> boot_failure + string list" where
  "enforce_internal_policy policy http =
     (case policy of
        PolicySilent \<Rightarrow> Inr []
      | PolicyWarn \<Rightarrow> Inr (missing_internal http)
      | PolicyError \<Rightarrow> if missing_internal http = [] then Inr [] else Inl (BootInternalMissing (missing_internal http)))"

fun plan_listeners :: "(string \<Rightarrow> bool) \<Rightarrow> nat \<Rightarrow> listener_config list \<Rightarrow> boot_failure + listener_plan list" where
  "plan_listeners ok i [] = Inr []"
| "plan_listeners ok i (l # ls) =
     (let label = opt_or (lc_name l) (''listener-'' @ show_nat i) in
      bindr (case (lc_bind l, lc_unix l) of
          (Some _, Some _) \<Rightarrow> Inl (ListenerBoth label)
        | (None, None) \<Rightarrow> Inl (ListenerNeither label)
        | (Some addr, None) \<Rightarrow> if ok addr then Inr (TcpPlan label addr) else Inl (BindFailed addr)
        | (None, Some path) \<Rightarrow> if ok path then Inr (UdsPlan label path (lc_http2 l)) else Inl (BindFailed path)) (\<lambda>p.
      bindr (plan_listeners ok (Suc i) ls) (\<lambda>ps. Inr (p # ps))))"

definition start_listeners :: "(string \<Rightarrow> bool) \<Rightarrow> app_config \<Rightarrow> boot_failure + listener_plan list" where
  "start_listeners ok c =
     (if cfg_listeners c = []
      then (let addr = ''0.0.0.0:'' @ show_nat (unat (port c)) in
            if ok addr then Inr [TcpPlan ''server'' addr] else Inl (BindFailed addr))
      else plan_listeners ok 0 (cfg_listeners c))"

definition initial_world :: "app_config \<Rightarrow> loaded_projects \<Rightarrow> world" where
  "initial_world c ld = \<lparr>w_state = store_with_config (cfg_state_max_entries c), ws_reg = [],
     single_flight = sf_new,
     detached = Some (detach_new (dt_max_inflight (cfg_detach c)) (dt_shutdown_grace_secs (cfg_detach c))),
     dsls = Some (ld_http ld), guards = ld_guards ld, sent = [], reloads = 0, waits = 0, published = []\<rparr>"

text \<open>Constants and source files that cannot be read are logged and replaced by none.\<close>

definition or_empty :: "'e + 'a list \<Rightarrow> 'a list" where
  "or_empty r = (case r of Inr xs \<Rightarrow> xs | Inl _ \<Rightarrow> [])"

definition boot :: "boot_params \<Rightarrow> boot_failure + running" where
  "boot P =
     (case load_or_default_with_notes (bp_env P) of
        Inl e \<Rightarrow> Inl (BootConfig e)
      | Inr (c, src, explicit_null) \<Rightarrow>
          (let L = \<lparr>serde = bp_serde P, boot_constants = or_empty (load_constants (bp_constants P)),
                    processed_filetypes = dc_processed_filetypes (cfg_dsl c)\<rparr> in
           case load_everything L (bp_disk P (config_path c)) of
             Inl e \<Rightarrow> Inl (BootDsls e)
           | Inr ld \<Rightarrow>
               bindr (enforce_internal_policy (dl_missing_internal_policy (cfg_declarations c)) (ld_http ld)) (\<lambda>unset.
               bindr (start_listeners (bind_ok P) c) (\<lambda>plans.
               Inr \<lparr>rn_config = c, rn_source = src,
                 rn_warnings = warn_on_stale_config_fields (ip_of (bp_env P)) c @ warn_on_raw_config_notes explicit_null,
                 rn_internal_warnings = unset, rn_loader = L,
                 rn_world = initial_world c ld, rn_client = http_client_new (bp_offline P) c,
                 rn_max_iterations = engine_max_iterations c,
                 rn_triggers = or_empty (load_all_sources (bp_sources P) (bp_source_root P (config_path c))),
                 rn_endpoints = app_routes (env_admin (bp_env P)), rn_listeners = plans\<rparr>))))"

section \<open>A running process\<close>

text \<open>
  What happens to the stores of a process: a request is handled, with any fuel and any configuration of
  the router; the permit of a proxied reply is released; a reload publishes what the disk holds.
\<close>

inductive serving :: "world \<Rightarrow> semaphores \<Rightarrow> world \<Rightarrow> semaphores \<Rightarrow> bool" where
  start: "serving w sems w sems"
| request: "serving w0 s0 w sems \<Longrightarrow>
    handle_request R (engine_run n (rt_engine R)) rq w sems = Some (out, w', sems') \<Longrightarrow> serving w0 s0 w' sems'"
| release: "serving w0 s0 w sems \<Longrightarrow> serving w0 s0 w (release_permit key sems)"
| reload: "serving w0 s0 w sems \<Longrightarrow> serving w0 s0 (reload_once L disk w) sems"

section \<open>The accept loop of a Unix-socket listener\<close>

text \<open>
  A connection task is running or finished; the \<open>JoinSet\<close> keeps it until it is joined, which only the drain
  does. \<open>Drain\<close> carries what is left of the grace period.
\<close>

datatype phase = Accepting | Drain nat | Drained | Aborted

record listener =
  li_conns :: "bool list"
  li_phase :: phase
  li_shutdown :: bool

definition SHUTDOWN_GRACE_SECS :: nat where
  "SHUTDOWN_GRACE_SECS = 15"

definition listener_new :: listener where
  "listener_new = \<lparr>li_conns = [], li_phase = Accepting, li_shutdown = False\<rparr>"

definition stop_accepting :: "listener \<Rightarrow> listener" where
  "stop_accepting l = l\<lparr>li_phase := if li_conns l = [] then Drained else Drain SHUTDOWN_GRACE_SECS\<rparr>"

datatype listener_event = Signal | Accept | AcceptFailed | TaskEnds nat | Break | JoinNext nat | DrainDone | Tick | GraceOver

inductive listener_step :: "listener \<Rightarrow> listener_event \<Rightarrow> listener \<Rightarrow> bool" where
  signal: "\<not> li_shutdown l \<Longrightarrow> listener_step l Signal (l\<lparr>li_shutdown := True\<rparr>)"
| accept: "li_phase l = Accepting \<Longrightarrow> \<not> li_shutdown l \<Longrightarrow>
    listener_step l Accept (l\<lparr>li_conns := li_conns l @ [True]\<rparr>)"
| accept_failed: "li_phase l = Accepting \<Longrightarrow> \<not> li_shutdown l \<Longrightarrow> listener_step l AcceptFailed l"
| task_ends: "i < length (li_conns l) \<Longrightarrow> li_conns l ! i \<Longrightarrow>
    listener_step l (TaskEnds i) (l\<lparr>li_conns := (li_conns l)[i := False]\<rparr>)"
| break_loop: "li_phase l = Accepting \<Longrightarrow> li_shutdown l \<Longrightarrow> listener_step l Break (stop_accepting l)"
| join_next: "li_phase l = Drain t \<Longrightarrow> 0 < t \<Longrightarrow> i < length (li_conns l) \<Longrightarrow> \<not> li_conns l ! i \<Longrightarrow>
    listener_step l (JoinNext i) (l\<lparr>li_conns := take i (li_conns l) @ drop (Suc i) (li_conns l)\<rparr>)"
| drain_done: "li_phase l = Drain t \<Longrightarrow> li_conns l = [] \<Longrightarrow> listener_step l DrainDone (l\<lparr>li_phase := Drained\<rparr>)"
| tick: "li_phase l = Drain (Suc t) \<Longrightarrow> listener_step l Tick (l\<lparr>li_phase := Drain t\<rparr>)"
| grace_over: "li_phase l = Drain 0 \<Longrightarrow> li_conns l \<noteq> [] \<Longrightarrow>
    listener_step l GraceOver (l\<lparr>li_phase := Aborted, li_conns := []\<rparr>)"

inductive listener_run :: "listener \<Rightarrow> listener_event list \<Rightarrow> listener \<Rightarrow> bool" where
  none: "listener_run l [] l"
| more: "listener_run l es l' \<Longrightarrow> listener_step l' e l'' \<Longrightarrow> listener_run l (es @ [e]) l''"

inductive_cases listener_runE: "listener_run l es l'"
inductive_cases listener_stepE: "listener_step l e l'"

section \<open>Lemmas\<close>

lemma initial_world_wf: "world_wf (initial_world c ld)"
  by (simp add: world_wf_def initial_world_def wf_store_with_config ws_wf_def sf_new_def sf_new_wf detach_wf_def detach_new_def permits_held_def)

lemma reload_world_wf: "world_wf w \<Longrightarrow> world_wf (reload_once L disk w)"
  by (simp add: reload_once_def publish_dsls_def store_dsls_def store_guards_def world_wf_def split: sum.splits)

lemma serving_invariant: "serving w0 s0 w sems \<Longrightarrow> world_wf w0 \<Longrightarrow> sem_wf s0 \<Longrightarrow> world_wf w \<and> sem_wf sems"
proof (induction rule: serving.induct)
  case (request w0 s0 w sems R n rq out w' sems')
  then show ?case using handler_invariants[of w sems R n rq out w' sems'] by blast
qed (simp_all add: release_facts reload_world_wf)

lemma boot_parts:
  assumes "boot P = Inr r"
  obtains ld where "load_everything (rn_loader r) (bp_disk P (config_path (rn_config r))) = Inr ld"
    "rn_world r = initial_world (rn_config r) ld" "rn_client r = http_client_new (bp_offline P) (rn_config r)"
    "enforce_internal_policy (dl_missing_internal_policy (cfg_declarations (rn_config r))) (ld_http ld) = Inr (rn_internal_warnings r)"
    "start_listeners (bind_ok P) (rn_config r) = Inr (rn_listeners r)" "rn_endpoints r = app_routes (env_admin (bp_env P))"
  using assms
  by (auto simp: boot_def Let_def bindr_Inr_iff split: sum.splits prod.splits)

lemma boot_succeeds:
  assumes "load_or_default_with_notes (bp_env P) = Inr (c, src, raw)"
    and "load_everything \<lparr>serde = bp_serde P, boot_constants = or_empty (load_constants (bp_constants P)),
        processed_filetypes = dc_processed_filetypes (cfg_dsl c)\<rparr> (bp_disk P (config_path c)) = Inr ld"
    and "enforce_internal_policy (dl_missing_internal_policy (cfg_declarations c)) (ld_http ld) = Inr u"
    and "start_listeners (bind_ok P) c = Inr ps"
  shows "\<exists>r. boot P = Inr r \<and> rn_world r = initial_world c ld \<and> rn_listeners r = ps \<and> rn_endpoints r = app_routes (env_admin (bp_env P))"
  unfolding boot_def assms(1) sum.case prod.case Let_def assms(2) assms(3,4) bindr_simps by simp

lemma plan_listeners_exact:
  "plan_listeners ok i ls = Inr ps \<Longrightarrow> length ps = length ls \<and> list_all (\<lambda>l. (lc_bind l = None) \<noteq> (lc_unix l = None)) ls"
proof (induction ls arbitrary: i ps)
  case (Cons l ls)
  then show ?case
    by (cases "lc_bind l"; cases "lc_unix l") (auto simp: Let_def bindr_Inr_iff split: if_splits)
qed simp

lemma default_listener: "start_listeners ok c = Inr ps \<Longrightarrow> cfg_listeners c = [] \<Longrightarrow> length ps = 1"
  by (auto simp: start_listeners_def Let_def split: if_splits)

lemma missing_internal_empty: "missing_internal http = [] \<longleftrightarrow> values_ok (values_ok (values_ok has_explicit)) http"
proof -
  have one: "List.map_filter (\<lambda>(key, d). if has_explicit d then None else Some (project @ ''/'' @ key)) ds = [] \<longleftrightarrow>
      values_ok has_explicit ds" for project and ds :: "dsl hmap"
    by (induction ds) (auto simp: List.map_filter_def values_ok_def split: if_splits)
  show ?thesis unfolding missing_internal_def values_ok_def[of "values_ok (values_ok has_explicit)"] values_ok_def[of "values_ok has_explicit"]
    by (simp add: one[unfolded case_prod_unfold] case_prod_unfold)
qed

text \<open>What is left to do after the signal: the break, the ticks, and for each task its end and its join.\<close>

fun phase_rank :: "phase \<Rightarrow> nat" where
  "phase_rank Accepting = SHUTDOWN_GRACE_SECS + 2"
| "phase_rank (Drain t) = t + 1"
| "phase_rank Drained = 0"
| "phase_rank Aborted = 0"

definition listener_rank :: "listener \<Rightarrow> nat" where
  "listener_rank l = phase_rank (li_phase l) + length (li_conns l) + length (filter id (li_conns l))"

lemma count_update: "i < length xs \<Longrightarrow> xs ! i \<Longrightarrow> Suc (length (filter id (xs[i := False]))) = length (filter id xs)"
proof (induction xs arbitrary: i)
  case (Cons x xs)
  then show ?case by (cases i) auto
qed simp

lemma count_remove: "length (filter id (take i xs @ drop (Suc i) xs)) \<le> length (filter id xs)"
proof (induction xs arbitrary: i)
  case (Cons x xs)
  then show ?case by (cases i) auto
qed simp

lemma listener_step_rank: "listener_step l e l' \<Longrightarrow> li_shutdown l \<Longrightarrow> li_shutdown l' \<and> listener_rank l' < listener_rank l"
proof (induction rule: listener_step.induct)
  case (task_ends i l)
  then show ?case using count_update[of i "li_conns l"] by (simp add: listener_rank_def)
next
  case (join_next l t i)
  then show ?case using count_remove[of i "li_conns l"] by (simp add: listener_rank_def)
qed (auto simp: listener_rank_def stop_accepting_def SHUTDOWN_GRACE_SECS_def)

definition listener_wf :: "listener \<Rightarrow> bool" where
  "listener_wf l \<longleftrightarrow> (li_phase l = Accepting \<or> li_shutdown l) \<and>
     (li_phase l \<in> {Drained, Aborted} \<longrightarrow> li_conns l = [])"

lemma listener_step_wf: "listener_step l e l' \<Longrightarrow> listener_wf l \<Longrightarrow> listener_wf l'"
  by (induction rule: listener_step.induct) (auto simp: listener_wf_def stop_accepting_def)

lemma listener_run_wf: "listener_run l es l' \<Longrightarrow> listener_wf l \<Longrightarrow> listener_wf l'"
  by (induction rule: listener_run.induct) (auto intro: listener_step_wf)

lemma listener_progress:
  assumes "listener_wf l" "li_shutdown l" "li_phase l \<notin> {Drained, Aborted}"
  shows "\<exists>e l'. listener_step l e l'"
proof (cases "li_phase l")
  case Accepting
  then show ?thesis using break_loop assms(2) by blast
next
  case (Drain t)
  then show ?thesis by (cases t; cases "li_conns l = []") (auto intro: drain_done tick grace_over)
qed (use assms(3) in simp_all)

lemma listener_run_rank:
  "listener_run l es l' \<Longrightarrow> li_shutdown l \<Longrightarrow> li_shutdown l' \<and> length es + listener_rank l' \<le> listener_rank l"
  by (induction rule: listener_run.induct) (use listener_step_rank in fastforce)+

section \<open>Properties\<close>


definition sample_boot :: boot_params where
  "sample_boot = \<lparr>bp_env = \<lparr>env_args = [''ruuter''], env_ruuter_config = None, env_admin = None,
       path_exists = \<lambda>_. False, read_to_string = \<lambda>_. None, yaml_config = \<lambda>_. None, yaml_value = \<lambda>_. None,
       ip_of = \<lambda>_. None\<rparr>,
     bp_serde = sample_serde, bp_disk = \<lambda>_. sample_tree, bp_constants = None, bp_sources = \<lambda>_. Inl ''none'',
     bp_source_root = \<lambda>_. None, bp_offline = False, bind_ok = \<lambda>_. True\<rparr>"

lemma sample_boot_config: "load_or_default_with_notes (bp_env sample_boot) = Inr (app_config_default, None, False)"
proof -
  have "path_exists (bp_env sample_boot) = (\<lambda>_. False)" by (simp add: sample_boot_def)
  moreover have "find (\<lambda>_. False) xs = None" for xs :: "string list" by (induction xs) simp_all
  ultimately show ?thesis by (simp add: load_or_default_with_notes_def)
qed

lemma sample_boot_loader:
  "\<lparr>serde = bp_serde sample_boot, boot_constants = or_empty (load_constants (bp_constants sample_boot)),
     processed_filetypes = dc_processed_filetypes (cfg_dsl app_config_default)\<rparr> = sample_loader"
  "bp_disk sample_boot p = sample_tree"
  by (simp_all add: sample_boot_def sample_loader_def or_empty_def load_constants_def app_config_default_def dsl_config_default_def)

lemma sample_boot_listeners: "start_listeners (bind_ok sample_boot) app_config_default = Inr [TcpPlan ''server'' ''0.0.0.0:8080'']"
proof -
  have "char_of (56 :: nat) = CHR ''8''" "char_of (48 :: nat) = CHR ''0''" by code_simp+
  then have "show_nat 8080 = ''8080''" by (simp add: show_nat.simps)
  moreover have "cfg_listeners app_config_default = []" "port app_config_default = 8080" by (simp_all add: app_config_default_def)
  moreover have "bind_ok sample_boot = (\<lambda>_. True)" by (simp add: sample_boot_def)
  ultimately show ?thesis by (simp add: start_listeners_def Let_def)
qed

lemma sample_boots:
  "\<exists>r. boot sample_boot = Inr r \<and> rn_world r = initial_world app_config_default sample_loaded \<and>
     rn_listeners r = [TcpPlan ''server'' ''0.0.0.0:8080''] \<and> rn_endpoints r = app_routes (env_admin (bp_env sample_boot))"
proof -
  have "enforce_internal_policy (dl_missing_internal_policy (cfg_declarations app_config_default)) (ld_http sample_loaded) = Inr []"
    by (simp add: enforce_internal_policy_def app_config_default_def declarations_default_def)
  from boot_succeeds[OF sample_boot_config _ this sample_boot_listeners, unfolded sample_boot_loader, OF sample_load] show ?thesis .
qed


text \<open>
  C27. What a boot refuses: a process only starts when each configured listener names exactly one of a TCP
  address and a socket path (and all of them were bound), when no route leaves \<open>internal\<close> open under the
  policy \<open>error\<close>, and it serves the administration endpoints only when they were asked for.
\<close>

theorem boot_refuses_bad_setup:
  assumes "boot P = Inr r"
  shows "list_all (\<lambda>l. (lc_bind l = None) \<noteq> (lc_unix l = None)) (cfg_listeners (rn_config r)) \<and>
    length (rn_listeners r) = max 1 (length (cfg_listeners (rn_config r))) \<and>
    (dl_missing_internal_policy (cfg_declarations (rn_config r)) \<noteq> PolicyError \<or>
       values_ok (values_ok (values_ok has_explicit)) (opt_or (dsls (rn_world r)) [])) \<and>
    (admin_enabled (env_admin (bp_env P)) \<or> map fst (rn_endpoints r) = [''/health''])"
proof -
  obtain ld where ld: "rn_world r = initial_world (rn_config r) ld"
      "enforce_internal_policy (dl_missing_internal_policy (cfg_declarations (rn_config r))) (ld_http ld) = Inr (rn_internal_warnings r)"
      "start_listeners (bind_ok P) (rn_config r) = Inr (rn_listeners r)" "rn_endpoints r = app_routes (env_admin (bp_env P))"
    by (rule boot_parts[OF assms])
  have "list_all (\<lambda>l. (lc_bind l = None) \<noteq> (lc_unix l = None)) (cfg_listeners (rn_config r)) \<and>
    length (rn_listeners r) = max 1 (length (cfg_listeners (rn_config r)))"
  proof (cases "cfg_listeners (rn_config r) = []")
    case True
    then show ?thesis using default_listener[OF ld(3)] by simp
  next
    case False
    then have "plan_listeners (bind_ok P) 0 (cfg_listeners (rn_config r)) = Inr (rn_listeners r)" using ld(3) by (simp add: start_listeners_def)
    from plan_listeners_exact[OF this] show ?thesis using False by (cases "cfg_listeners (rn_config r)") auto
  qed
  moreover have "dl_missing_internal_policy (cfg_declarations (rn_config r)) \<noteq> PolicyError \<or>
       values_ok (values_ok (values_ok has_explicit)) (opt_or (dsls (rn_world r)) [])"
    using ld(2) by (auto simp: ld(1) initial_world_def enforce_internal_policy_def missing_internal_empty split: if_splits)
  moreover have "admin_enabled (env_admin (bp_env P)) \<or> map fst (rn_endpoints r) = [''/health'']"
    by (auto simp: ld(4) app_routes_def)
  ultimately show ?thesis by blast
qed

theorem boot_refuses_bad_setup_witness:
  "\<exists>r. boot sample_boot = Inr r \<and> map fst (rn_endpoints r) = [''/health'']"
proof -
  obtain r where r: "boot sample_boot = Inr r" using sample_boots by (elim exE conjE)
  have "\<not> admin_enabled (env_admin (bp_env sample_boot))" by (simp add: sample_boot_def admin_enabled_def)
  then show ?thesis using boot_refuses_bad_setup[OF r] r by (intro exI[of _ r] conjI) simp_all
qed


lemma run_one: "listener_step l e l' \<Longrightarrow> listener_run l [e] l'"
  using listener_run.more[OF listener_run.none] by simp

lemma run_app: "listener_run l es l' \<Longrightarrow> listener_step l' e l'' \<Longrightarrow> listener_run l (es @ [e]) l''"
  by (rule listener_run.more)

definition busy_listener :: listener where
  "busy_listener = \<lparr>li_conns = [True], li_phase = Accepting, li_shutdown = True\<rparr>"

lemma busy_reached: "listener_run listener_new ([Accept] @ [Signal]) busy_listener"
proof (rule run_app[OF run_one])
  show "listener_step listener_new Accept (listener_new\<lparr>li_conns := [True]\<rparr>)"
    using listener_step.accept[of listener_new] by (simp add: listener_new_def)
  show "listener_step (listener_new\<lparr>li_conns := [True]\<rparr>) Signal busy_listener"
    using listener_step.signal[of "listener_new\<lparr>li_conns := [True]\<rparr>"] by (simp add: listener_new_def busy_listener_def)
qed


text \<open>
  The accept loop keeps every connection it ever accepted: while a listener accepts, its set of tasks has
  one entry for each connection accepted so far, finished or not, so it grows with every connection and
  the number of connections reported as in flight at shutdown counts the finished ones.
\<close>

theorem accepted_connections_accumulate:
  assumes "listener_run listener_new es l" "li_phase l = Accepting"
  shows "length (li_conns l) = length (filter (\<lambda>e. e = Accept) es)"
  using assms
proof (induction listener_new es l rule: listener_run.induct)
  case (more es l' e l'')
  have "li_phase l' = Accepting" using more(3,4) by (auto elim!: listener_stepE simp: stop_accepting_def split: if_splits)
  then show ?case using more by (auto elim!: listener_stepE simp: stop_accepting_def)
qed (simp add: listener_new_def)

theorem accepted_connections_accumulate_witness:
  "\<exists>l. listener_run listener_new ([Accept] @ [TaskEnds 0]) l \<and> li_conns l = [False] \<and> length (li_conns l) = 1"
proof -
  let ?l = "listener_new\<lparr>li_conns := [False]\<rparr>"
  have "listener_step listener_new Accept (listener_new\<lparr>li_conns := [True]\<rparr>)"
    using listener_step.accept[of listener_new] by (simp add: listener_new_def)
  moreover have "listener_step (listener_new\<lparr>li_conns := [True]\<rparr>) (TaskEnds 0) ?l"
    using listener_step.task_ends[of 0 "listener_new\<lparr>li_conns := [True]\<rparr>"] by (simp add: listener_new_def)
  ultimately have run: "listener_run listener_new ([Accept] @ [TaskEnds 0]) ?l" by (blast intro: run_app run_one)
  have "li_phase ?l = Accepting" by (simp add: listener_new_def)
  from accepted_connections_accumulate[OF run this] run show ?thesis by (intro exI[of _ ?l]) simp
qed

end
