(* ===== verification/Dsl_Lint.thy ===== *)
theory Dsl_Lint
  imports Boot
begin

text \<open>
  The linter (\<open>src/bin/dsl_lint.rs\<close>): the command line, the walk over the tree, the reading of a file into its
  step graph, the checks on DSLs, sources and cron jobs, the scan of a line for scalars that need quotes,
  and the audits that load the tree as the server does. A check returns the items it reports, one
  constructor of \<open>lint_message\<close> for each message of the source. The lemmas show that the report counts what
  it lists, that the reachability walk always ends and finds exactly the steps reachable over the edges it
  follows, and that the guard audit fails exactly the routes the server runs no guard for.
\<close>

section \<open>Reports\<close>

datatype lint_severity = LintError | LintWarning

datatype lint_message =
    NotStepMapping string string
  | LintYaml string
  | LintRead
  | NoExecutableSteps
  | Unrecognised string
  | NextUnresolved string string
  | SwitchUnresolved string string
  | NotReachable string string
  | UnresolvedConstant string
  | TemplateMissing string
  | ScalarStart nat char string string
  | ColonInExpr nat string
  | CommentInExpr nat string
  | CommaInFlow nat string
  | Homoglyph nat nat
  | SourceKindUnsupported string
  | SourceKindMissing
  | CronTopLevel
  | CronBody string
  | CronFieldMissing string string
  | NoApplicableGuard
  | InternalMissing
  | AuditLoadFailed string load_error
  | AuditFinding string "string list"

type_synonym lint_item = "lint_severity \<times> string \<times> lint_message"

record lint_report =
  files_scanned :: nat
  files_ok :: nat
  lint_errors :: nat
  lint_warnings :: nat
  lint_items :: "lint_item list"

definition report_new :: lint_report where
  "report_new = \<lparr>files_scanned = 0, files_ok = 0, lint_errors = 0, lint_warnings = 0, lint_items = []\<rparr>"

definition file_error :: "string \<Rightarrow> lint_message \<Rightarrow> lint_report \<Rightarrow> lint_report" where
  "file_error path msg r = r\<lparr>lint_errors := Suc (lint_errors r), lint_items := lint_items r @ [(LintError, path, msg)]\<rparr>"

definition file_warning :: "string \<Rightarrow> lint_message \<Rightarrow> lint_report \<Rightarrow> lint_report" where
  "file_warning path msg r = r\<lparr>lint_warnings := Suc (lint_warnings r), lint_items := lint_items r @ [(LintWarning, path, msg)]\<rparr>"

definition add_item :: "lint_item \<Rightarrow> lint_report \<Rightarrow> lint_report" where
  "add_item it r = (case it of (LintError, p, m) \<Rightarrow> file_error p m r | (LintWarning, p, m) \<Rightarrow> file_warning p m r)"

definition add_items :: "lint_item list \<Rightarrow> lint_report \<Rightarrow> lint_report" where
  "add_items its r = fold add_item its r"

definition exit_code :: "lint_report \<Rightarrow> nat" where
  "exit_code r = (if 0 < lint_errors r then 1 else 0)"

section \<open>Command line\<close>

record lint_args =
  la_dsl_root :: string
  la_constants :: string
  la_include_disabled :: bool
  la_json :: bool
  la_require_guard :: bool
  la_require_internal :: bool
  la_audit :: bool

datatype args_outcome = Parsed lint_args | HelpShown | UnknownFlag string

fun parse_args :: "string list \<Rightarrow> lint_args \<Rightarrow> args_outcome" where
  "parse_args [] a = Parsed a"
| "parse_args (x # rest) a =
     (if x \<in> {''--dsl'', ''-d''} then (case rest of [] \<Rightarrow> Parsed a | v # vs \<Rightarrow> parse_args vs (a\<lparr>la_dsl_root := v\<rparr>))
      else if x \<in> {''--constants'', ''-c''} then (case rest of [] \<Rightarrow> Parsed a | v # vs \<Rightarrow> parse_args vs (a\<lparr>la_constants := v\<rparr>))
      else if x = ''--include-disabled'' then parse_args rest (a\<lparr>la_include_disabled := True\<rparr>)
      else if x = ''--json'' then parse_args rest (a\<lparr>la_json := True\<rparr>)
      else if x = ''--require-guard'' then parse_args rest (a\<lparr>la_require_guard := True\<rparr>)
      else if x = ''--require-internal-explicit'' then parse_args rest (a\<lparr>la_require_internal := True\<rparr>)
      else if x = ''--audit'' then parse_args rest (a\<lparr>la_audit := True\<rparr>)
      else if x \<in> {''--help'', ''-h''} then HelpShown
      else UnknownFlag x)"

definition args_default :: lint_args where
  "args_default = \<lparr>la_dsl_root = ''./DSL'', la_constants = ''./constants.ini'', la_include_disabled = False,
     la_json = False, la_require_guard = False, la_require_internal = False, la_audit = False\<rparr>"

section \<open>Files\<close>

definition str_ends_with :: "string \<Rightarrow> string \<Rightarrow> bool" where
  "str_ends_with s suf \<longleftrightarrow> length suf \<le> length s \<and> drop (length s - length suf) s = suf"

definition is_dsl_file :: "bool \<Rightarrow> string \<Rightarrow> bool" where
  "is_dsl_file include_disabled name \<longleftrightarrow>
     name \<in> {''.guard'', ''.guard.yml'', ''.guard.yaml''} \<or>
     (include_disabled \<and> str_ends_with name ''.yml.disabled'') \<or>
     extension name \<in> {Some ''yml'', Some ''yaml''}"

text \<open>A file with the components of its path; an unreadable directory is passed over.\<close>

fun lint_walk :: "bool \<Rightarrow> string list \<Rightarrow> (string \<times> fs_node) list \<Rightarrow> (string list \<times> fs_node) list" where
  "lint_walk inc dir [] = []"
| "lint_walk inc dir ((name, node) # rest) =
     (case node of
        Dir es \<Rightarrow> lint_walk inc (dir @ [name]) es
      | DirDenied \<Rightarrow> []
      | _ \<Rightarrow> if is_dsl_file inc name then [(dir @ [name], node)] else []) @ lint_walk inc dir rest"

definition enumerate_dsl_files :: "bool \<Rightarrow> string list \<Rightarrow> fs_node \<Rightarrow> (string list \<times> fs_node) list" where
  "enumerate_dsl_files inc root disk =
     (case disk of Dir es \<Rightarrow> sort_key fst (lint_walk inc root es) | _ \<Rightarrow> [])"

fun has_window :: "string list \<Rightarrow> string \<Rightarrow> string \<Rightarrow> bool" where
  "has_window (a # b # rest) x y \<longleftrightarrow> (a = x \<and> b = y) \<or> has_window (b # rest) x y"
| "has_window _ x y \<longleftrightarrow> False"

definition is_source_file :: "string list \<Rightarrow> bool" where
  "is_source_file path \<longleftrightarrow> ''sources'' \<in> set path \<or> has_window path ''WS'' ''outbound''"

definition is_cron_job_file :: "string list \<Rightarrow> bool" where
  "is_cron_job_file path \<longleftrightarrow> ''cronmanager-jobs'' \<in> set path"

definition strip_suffix :: "string \<Rightarrow> string \<Rightarrow> string option" where
  "strip_suffix suf s = (if str_ends_with s suf then Some (take (length s - length suf) s) else None)"

definition lint_key_for :: "string list \<Rightarrow> string list \<Rightarrow> string option" where
  "lint_key_for root path =
     (if take (length root) path = root
      then let s = join_with ''/'' (drop (length root) path);
               base = (case List.map_filter (\<lambda>e. strip_suffix e s) [''.yml'', ''.yaml'', ''.yml.disabled'', ''.yaml.disabled''] of
                         b # _ \<Rightarrow> b | [] \<Rightarrow> s)
           in if contains_str base ''.guard'' then None else Some base
      else None)"

section \<open>Reading a file\<close>

record parsed_step =
  lp_name :: string
  lp_kind :: string
  lp_next :: "string option"
  lp_switch_targets :: "string list"

record parsed_file =
  pf_entry :: "string option"
  pf_steps :: "parsed_step list"
  pf_raw :: string
  pf_template_targets :: "string list"
  pf_has_proxy :: bool

fun yaml_kind :: "yaml \<Rightarrow> string" where
  "yaml_kind YNull = ''null''"
| "yaml_kind (YBool _) = ''bool''"
| "yaml_kind (YNumber _) = ''number''"
| "yaml_kind (YString _) = ''string''"
| "yaml_kind (YSequence _) = ''sequence''"
| "yaml_kind (YMapping _) = ''mapping''"
| "yaml_kind (YTagged _ _) = ''tagged''"

text \<open>\<open>Value::as_str\<close> looks through tags.\<close>

fun yaml_as_str :: "yaml \<Rightarrow> string option" where
  "yaml_as_str (YString s) = Some s"
| "yaml_as_str (YTagged _ v) = yaml_as_str v"
| "yaml_as_str _ = None"

definition lint_kind :: "(yaml \<times> yaml) list \<Rightarrow> string" where
  "lint_kind m = (case filter (key_present m) STEP_KEYS of k # _ \<Rightarrow> k | [] \<Rightarrow> ''unknown'')"

definition switch_targets :: "(yaml \<times> yaml) list \<Rightarrow> string list" where
  "switch_targets m =
     (case map_of m (YString ''switch'') of
        Some (YSequence conds) \<Rightarrow>
          List.map_filter (\<lambda>c. case c of YMapping cm \<Rightarrow> str_field cm ''next'' | _ \<Rightarrow> None) conds
      | _ \<Rightarrow> [])"

definition lint_step :: "string \<Rightarrow> (yaml \<times> yaml) list \<Rightarrow> parsed_step" where
  "lint_step name m = \<lparr>lp_name = name, lp_kind = lint_kind m,
     lp_next = Option.bind (map_of m (YString ''next'')) yaml_as_str,
     lp_switch_targets = (if lint_kind m = ''switch'' then switch_targets m else [])\<rparr>"

definition lint_template :: "(yaml \<times> yaml) list \<Rightarrow> string list" where
  "lint_template m = (if lint_kind m = ''template'' then (case str_field m ''template'' of Some t \<Rightarrow> [t] | None \<Rightarrow> []) else [])"

definition lint_proxy :: "(yaml \<times> yaml) list \<Rightarrow> bool" where
  "lint_proxy m \<longleftrightarrow> key_present m ''proxy'' \<or>
     (case map_of m (YString ''declaration'') of Some (YMapping dm) \<Rightarrow> key_present dm ''proxy'' | _ \<Rightarrow> False)"

definition step_mappings :: "(string \<times> yaml) list \<Rightarrow> (string \<times> (yaml \<times> yaml) list) list" where
  "step_mappings doc = List.map_filter (\<lambda>(name, v). case v of YMapping m \<Rightarrow> Some (name, m) | _ \<Rightarrow> None) doc"

definition lint_parse_file :: "serde_params \<Rightarrow> string hmap \<Rightarrow> bool \<Rightarrow> fs_node \<Rightarrow> lint_message list + parsed_file" where
  "lint_parse_file P constants strictly node =
     (case node of
        File raw \<Rightarrow>
          (case yaml_document P (substitute raw (map_of constants)) of
             Inl e \<Rightarrow> Inl [LintYaml e]
           | Inr doc \<Rightarrow>
               let bad = List.map_filter (\<lambda>(name, v). case v of YMapping _ \<Rightarrow> None
                     | _ \<Rightarrow> Some (NotStepMapping name (yaml_kind v))) doc;
                   ms = step_mappings doc
               in if strictly \<and> bad \<noteq> [] then Inl bad
                  else Inr \<lparr>pf_entry = (case doc of (name, YMapping _) # _ \<Rightarrow> Some name | _ \<Rightarrow> None),
                     pf_steps = map (\<lambda>(name, m). lint_step name m) ms, pf_raw = raw,
                     pf_template_targets = concat (map (\<lambda>(_, m). lint_template m) ms),
                     pf_has_proxy = list_ex (\<lambda>(_, m). lint_proxy m) ms\<rparr>)
      | _ \<Rightarrow> Inl [LintRead])"

section \<open>Reachability\<close>

definition find_step :: "parsed_step list \<Rightarrow> string \<Rightarrow> parsed_step option" where
  "find_step steps name = find (\<lambda>s. lp_name s = name) steps"

text \<open>The next step in source order, for a step that has no \<open>next\<close> and is no \<open>return\<close>.\<close>

fun after_in_order :: "parsed_step list \<Rightarrow> string \<Rightarrow> string list" where
  "after_in_order (s # t # rest) name =
     (if lp_name s = name then (if lp_next s = None \<and> lp_kind s \<noteq> ''return'' then [lp_name t] else [])
      else after_in_order (t # rest) name)"
| "after_in_order _ name = []"

text \<open>The steps the walk visits from a step, in its order: \<open>next\<close>, the branches, the next in order.\<close>

definition lint_succ :: "parsed_step list \<Rightarrow> string \<Rightarrow> string list" where
  "lint_succ steps name =
     (case find_step steps name of
        None \<Rightarrow> []
      | Some s \<Rightarrow> (case lp_next s of Some n \<Rightarrow> if n = ''end'' then [] else [n] | None \<Rightarrow> []) @
                 filter (\<lambda>t. t \<noteq> ''end'') (lp_switch_targets s)) @
     after_in_order steps name"

text \<open>
  The recursion of \<open>walk_reachable\<close>. A call that finds its step visited returns; every other call adds a name,
  so the depth is bounded by the number of names the file mentions. The fuel is that number; \<open>None\<close> would
  be a walk that goes deeper.
\<close>

fun walk_reachable :: "nat \<Rightarrow> parsed_step list \<Rightarrow> string \<Rightarrow> string list \<Rightarrow> string list option"
and walk_all :: "nat \<Rightarrow> parsed_step list \<Rightarrow> string list \<Rightarrow> string list \<Rightarrow> string list option" where
  "walk_reachable n steps start out =
     (if start \<in> set out then Some out
      else case n of 0 \<Rightarrow> None | Suc m \<Rightarrow> walk_all m steps (lint_succ steps start) (start # out))"
| "walk_all n steps [] out = Some out"
| "walk_all n steps (t # ts) out =
     Option.bind (walk_reachable n steps t out) (\<lambda>out'. walk_all n steps ts out')"

definition mentioned_names :: "parsed_step list \<Rightarrow> string list" where
  "mentioned_names steps = remdups (concat (map (\<lambda>s. lp_name s # (case lp_next s of Some n \<Rightarrow> [n] | None \<Rightarrow> []) @ lp_switch_targets s) steps))"

definition reachable_steps :: "parsed_step list \<Rightarrow> string \<Rightarrow> string list" where
  "reachable_steps steps entry = opt_or (walk_reachable (Suc (length (mentioned_names steps))) steps entry []) []"

section \<open>Checks on a DSL\<close>

definition error_if :: "bool \<Rightarrow> lint_message \<Rightarrow> (lint_severity \<times> lint_message) list" where
  "error_if b m = (if b then [(LintError, m)] else [])"

definition warn_when :: "bool \<Rightarrow> lint_message \<Rightarrow> (lint_severity \<times> lint_message) list" where
  "warn_when b m = (if b then [(LintWarning, m)] else [])"

definition check_targets :: "string list \<Rightarrow> parsed_step \<Rightarrow> (lint_severity \<times> lint_message) list" where
  "check_targets names s =
     (case lp_next s of Some n \<Rightarrow> error_if (n \<noteq> ''end'' \<and> n \<notin> set names) (NextUnresolved (lp_name s) n) | None \<Rightarrow> []) @
     concat (map (\<lambda>t. error_if (t \<noteq> ''end'' \<and> t \<notin> set names) (SwitchUnresolved (lp_name s) t)) (lp_switch_targets s))"

definition template_known :: "string list \<Rightarrow> string \<Rightarrow> bool" where
  "template_known known t \<longleftrightarrow>
     list_ex (\<lambda>k. k = t \<or> str_ends_with k t \<or> k = dropWhile (\<lambda>c. c = CHR ''/'') t) known"

definition lint_check_dsl :: "string hmap \<Rightarrow> string list \<Rightarrow> parsed_file \<Rightarrow> (lint_severity \<times> lint_message) list \<times> bool" where
  "lint_check_dsl constants known pf =
     (if list_all (\<lambda>s. lp_kind s = ''declaration'') (pf_steps pf) \<and> pf_template_targets pf = [] \<and> \<not> pf_has_proxy pf
      then ([(LintError, NoExecutableSteps)], False)
      else
        (concat (map (\<lambda>s. error_if (lp_kind s = ''unknown'' \<and> lp_name s \<noteq> ''declaration'') (Unrecognised (lp_name s))) (pf_steps pf)) @
         concat (map (check_targets (map lp_name (pf_steps pf))) (pf_steps pf)) @
         (case pf_entry pf of
            Some entry \<Rightarrow> concat (map (\<lambda>s. warn_when (lp_name s \<notin> set (reachable_steps (pf_steps pf) entry) \<and> lp_kind s \<noteq> ''declaration'')
              (NotReachable (lp_name s) entry)) (pf_steps pf))
          | None \<Rightarrow> []) @
         map (\<lambda>(_, literal). (LintWarning, UnresolvedConstant literal)) (iter_refs (substitute (pf_raw pf) (map_of constants))) @
         concat (map (\<lambda>t. error_if (\<not> template_known known t) (TemplateMissing t)) (pf_template_targets pf)),
         True))"

section \<open>Scalars that need quotes\<close>

text \<open>Inside single or double quotes after a prefix; a backslash escapes in double quotes.\<close>

fun quotes_after :: "string \<Rightarrow> bool \<Rightarrow> bool \<Rightarrow> bool \<times> bool" where
  "quotes_after [] s d = (s, d)"
| "quotes_after (c # cs) s d =
     (if s then quotes_after cs (c \<noteq> CHR 0x27) d
      else if d then
        (if c = CHR 0x5C then (case cs of [] \<Rightarrow> (s, d) | _ # rest \<Rightarrow> quotes_after rest s d)
         else quotes_after cs s (c \<noteq> CHR 0x22))
      else quotes_after cs (c = CHR 0x27) (c = CHR 0x22))"

definition is_inside_string_literal_at :: "string \<Rightarrow> nat \<Rightarrow> bool" where
  "is_inside_string_literal_at line at = (case quotes_after (take at line) False False of (s, d) \<Rightarrow> s \<or> d)"

fun flow_depth :: "string \<Rightarrow> bool \<Rightarrow> bool \<Rightarrow> int \<Rightarrow> int" where
  "flow_depth [] s d n = n"
| "flow_depth (c # cs) s d n =
     (if s then flow_depth cs (c \<noteq> CHR 0x27) d n
      else if d then
        (if c = CHR 0x5C then (case cs of [] \<Rightarrow> n | _ # rest \<Rightarrow> flow_depth rest s d n)
         else flow_depth cs s (c \<noteq> CHR 0x22) n)
      else flow_depth cs (c = CHR 0x27) (c = CHR 0x22)
        (if c \<in> {CHR ''{'', CHR ''[''} then n + 1 else if c \<in> {CHR ''}'', CHR '']''} then n - 1 else n))"

definition flow_depth_at :: "string \<Rightarrow> nat \<Rightarrow> int" where
  "flow_depth_at line up_to = flow_depth (take up_to line) False False 0"

fun body_end :: "string \<Rightarrow> nat \<Rightarrow> nat option" where
  "body_end [] depth = None"
| "body_end (c # cs) depth =
     (if c = CHR ''{'' then map_option Suc (body_end cs (Suc depth))
      else if c = CHR ''}'' then (if depth = 1 then Some 0 else map_option Suc (body_end cs (depth - 1)))
      else map_option Suc (body_end cs depth))"

definition find_expression_body_end :: "string \<Rightarrow> nat option" where
  "find_expression_body_end s = body_end s 1"

fun structural_end :: "nat \<Rightarrow> char option \<Rightarrow> string \<Rightarrow> bool \<Rightarrow> bool \<Rightarrow> nat" where
  "structural_end i prev [] s d = i"
| "structural_end i prev (c # cs) s d =
     (if s then structural_end (Suc i) (Some c) cs (c \<noteq> CHR 0x27) d
      else if d then
        (if c = CHR 0x5C then (case cs of [] \<Rightarrow> Suc i | e # rest \<Rightarrow> structural_end (Suc (Suc i)) (Some e) rest s d)
         else structural_end (Suc i) (Some c) cs s (c \<noteq> CHR 0x22))
      else if c = CHR ''#'' \<and> prev \<in> {None, Some (CHR '' ''), Some (CHR 0x09)} then i
      else structural_end (Suc i) (Some c) cs (c = CHR 0x27) (c = CHR 0x22))"

text \<open>The UTF-8 bytes of the fullwidth colon, the en dash, the em dash and the hyphen.\<close>

definition HOMOGLYPHS :: "string list" where
  "HOMOGLYPHS = [[CHR 0xEF, CHR 0xBC, CHR 0x9A], [CHR 0xE2, CHR 0x80, CHR 0x93], [CHR 0xE2, CHR 0x80, CHR 0x94],
     [CHR 0xE2, CHR 0x80, CHR 0x90]]"

fun homoglyphs :: "string \<Rightarrow> bool \<Rightarrow> bool \<Rightarrow> nat list \<Rightarrow> nat list" where
  "homoglyphs [] s d seen = []"
| "homoglyphs (c # cs) s d seen =
     (let new = (if s \<or> d then [] else filter (\<lambda>i. starts_with (c # cs) (HOMOGLYPHS ! i) \<and> i \<notin> set seen) [0..<4])
      in new @ homoglyphs cs (if c = CHR 0x27 \<and> \<not> d then \<not> s else s) (if c = CHR 0x22 \<and> \<not> s then \<not> d else d) (new @ seen))"

definition check_line_for_unicode_homoglyphs :: "nat \<Rightarrow> string \<Rightarrow> lint_message list" where
  "check_line_for_unicode_homoglyphs line_no line =
     map (Homoglyph line_no) (homoglyphs (take (structural_end 0 None line False False) line) False False [])"

definition check_scalar_start :: "nat \<Rightarrow> string \<Rightarrow> lint_message list" where
  "check_scalar_start line_no t =
     (case find_str t '': '' of
        None \<Rightarrow> []
      | Some sep \<Rightarrow>
          let key = take sep t; value = rev (dropWhile is_space (rev (drop (sep + 2) t))) in
          if key \<noteq> [] \<and> list_all (\<lambda>c. ascii_alphanumeric c \<or> c \<in> {CHR ''_'', CHR ''-'', CHR ''.'', CHR ''/''}) key \<and>
             value \<noteq> [] \<and> hd value \<notin> {CHR 0x22, CHR 0x27, CHR ''|'', CHR ''>''} \<and>
             hd value \<in> {CHR ''!'', CHR ''&'', CHR ''*'', CHR ''%'', CHR ''@'', CHR 0x60}
          then [ScalarStart line_no (hd value) key value] else [])"

definition check_expression :: "nat \<Rightarrow> string \<Rightarrow> nat \<Rightarrow> lint_message list" where
  "check_expression line_no line dollar =
     (if is_inside_string_literal_at line dollar then []
      else case find_expression_body_end (drop (dollar + 2) line) of
        None \<Rightarrow> []
      | Some n \<Rightarrow>
          let inner = take n (drop (dollar + 2) line); full = take (n + 3) (drop dollar line) in
          (if contains_str inner '': '' then [ColonInExpr line_no full] else []) @
          (if contains_str inner '' #'' then [CommentInExpr line_no full] else []) @
          (if 0 < flow_depth_at line dollar \<and> CHR '','' \<in> set inner then [CommaInFlow line_no full] else []))"

definition check_quoting_line :: "nat \<Rightarrow> string \<Rightarrow> lint_message list" where
  "check_quoting_line line_no line =
     check_line_for_unicode_homoglyphs line_no line @
     (let t = dropWhile is_space line in
      if t = [] \<or> starts_with t ''#'' \<or> starts_with t ''-'' then []
      else check_scalar_start line_no t @
        concat (map (check_expression line_no line) (filter (\<lambda>i. starts_with (drop i line) ''${'') [0..<length line])))"

text \<open>\<open>str::lines\<close>: a carriage return before the newline goes too, and nothing follows a final newline.\<close>

definition text_lines :: "string \<Rightarrow> string list" where
  "text_lines s = (let ls = split_on (CHR 0x0A) s in
     map (\<lambda>l. if ends_with l (CHR 0x0D) then butlast l else l) (butlast ls) @ (if last ls = [] then [] else [last ls]))"

definition check_yaml_scalar_quoting :: "string \<Rightarrow> lint_message list" where
  "check_yaml_scalar_quoting raw =
     concat (map (\<lambda>(i, l). check_quoting_line (Suc i) l) (List.enumerate 0 (text_lines raw)))"

section \<open>Sources and cron jobs\<close>

text \<open>
  \<open>yaml_to_json\<close>: an integer beyond \<open>i64\<close> becomes a float, a tag is dropped, a key that is no string becomes
  its debug text.
\<close>

definition json_number :: "number \<Rightarrow> json" where
  "json_number n = (case n of PosInt w \<Rightarrow> if unat w < 2 ^ 63 then JNumber n else JNumber (f64_div (unat w) 1) | _ \<Rightarrow> JNumber n)"

fun yaml_to_json :: "(yaml \<Rightarrow> string) \<Rightarrow> yaml \<Rightarrow> json"
and yaml_items :: "(yaml \<Rightarrow> string) \<Rightarrow> yaml list \<Rightarrow> json list"
and yaml_entries :: "(yaml \<Rightarrow> string) \<Rightarrow> (yaml \<times> yaml) list \<Rightarrow> json hmap \<Rightarrow> json hmap" where
  "yaml_to_json dbg YNull = JNull"
| "yaml_to_json dbg (YBool b) = JBool b"
| "yaml_to_json dbg (YNumber n) = json_number n"
| "yaml_to_json dbg (YString s) = JString s"
| "yaml_to_json dbg (YSequence vs) = JArray (yaml_items dbg vs)"
| "yaml_to_json dbg (YMapping m) = json_object (yaml_entries dbg m [])"
| "yaml_to_json dbg (YTagged _ v) = yaml_to_json dbg v"
| "yaml_items dbg [] = []"
| "yaml_items dbg (v # vs) = yaml_to_json dbg v # yaml_items dbg vs"
| "yaml_entries dbg [] acc = acc"
| "yaml_entries dbg ((k, v) # m) acc =
     yaml_entries dbg m (hm_insert (case yaml_as_str k of Some s \<Rightarrow> s | None \<Rightarrow> dbg k) (yaml_to_json dbg v) acc)"

type_synonym yaml_reader = "string \<Rightarrow> string + yaml"

definition check_source_shape :: "yaml_reader \<Rightarrow> (yaml \<Rightarrow> string) \<Rightarrow> parsed_file \<Rightarrow> (lint_severity \<times> lint_message) list \<times> bool" where
  "check_source_shape read dbg pf =
     (case read (pf_raw pf) of
        Inl e \<Rightarrow> ([(LintError, LintYaml e)], False)
      | Inr y \<Rightarrow>
          (case Option.bind (json_member ''kind'' (yaml_to_json dbg y)) as_str of
             Some k \<Rightarrow> warn_when (k \<noteq> ''websocket'') (SourceKindUnsupported k)
           | None \<Rightarrow> [(LintError, SourceKindMissing)], True))"

definition check_cron_job :: "string \<times> json \<Rightarrow> (lint_severity \<times> lint_message) list" where
  "check_cron_job job =
     (case job of
        (name, JObject o') \<Rightarrow>
          concat (map (\<lambda>f. error_if (\<not> hm_contains o' f) (CronFieldMissing name f)) [''trigger'', ''type'', ''url''])
      | (name, _) \<Rightarrow> [(LintError, CronBody name)])"

definition check_cron_job_shape :: "yaml_reader \<Rightarrow> (yaml \<Rightarrow> string) \<Rightarrow> parsed_file \<Rightarrow> (lint_severity \<times> lint_message) list \<times> bool" where
  "check_cron_job_shape read dbg pf =
     (case read (pf_raw pf) of
        Inl e \<Rightarrow> ([(LintError, LintYaml e)], False)
      | Inr y \<Rightarrow>
          (case yaml_to_json dbg y of
             JObject jobs \<Rightarrow> (concat (map check_cron_job jobs), True)
           | _ \<Rightarrow> ([(LintError, CronTopLevel)], False)))"

section \<open>Audits of the loaded tree\<close>

record lint_env =
  le_root :: "string list"
  le_disk :: fs_node
  le_constants :: "string option"
  le_serde :: serde_params
  le_yaml :: yaml_reader
  le_debug :: "yaml \<Rightarrow> string"
  le_step_json :: "dsl_step \<Rightarrow> string option"

text \<open>The tree is loaded as the server loads it, with the default file types and guard mode.\<close>

definition lint_loader :: "lint_env \<Rightarrow> string hmap \<Rightarrow> load_params" where
  "lint_loader e constants = \<lparr>serde = le_serde e, boot_constants = constants,
     processed_filetypes = dc_processed_filetypes (cfg_dsl app_config_default)\<rparr>"

definition audit_loaded :: "lint_env \<Rightarrow> string hmap \<Rightarrow> string \<Rightarrow> (loaded_projects \<Rightarrow> lint_item list) \<Rightarrow> lint_item list" where
  "audit_loaded e constants flag f =
     (case load_everything (lint_loader e constants) (le_disk e) of
        Inl err \<Rightarrow> [(LintError, join_with ''/'' (le_root e), AuditLoadFailed flag err)]
      | Inr ld \<Rightarrow> f ld)"

definition run_require_guard_audit :: "lint_env \<Rightarrow> string hmap \<Rightarrow> lint_item list" where
  "run_require_guard_audit e constants = audit_loaded e constants ''--require-guard'' (\<lambda>ld.
     List.map_filter (\<lambda>r. if is_unguarded r
         then Some (LintError, ra_project r @ ''/'' @ ra_dsl_key r, NoApplicableGuard) else None)
       (audit_all_routes is_override_guard (ld_http ld) (ld_guards ld) (cfg_guards_mode app_config_default)))"

definition run_require_internal_explicit_audit :: "lint_env \<Rightarrow> string hmap \<Rightarrow> lint_item list" where
  "run_require_internal_explicit_audit e constants = audit_loaded e constants ''--require-internal-explicit'' (\<lambda>ld.
     map (\<lambda>route. (LintError, route, InternalMissing)) (missing_internal (ld_http ld)))"

definition run_audit :: "lint_env \<Rightarrow> string hmap \<Rightarrow> lint_item list" where
  "run_audit e constants = audit_loaded e constants ''--audit'' (\<lambda>ld.
     map (\<lambda>f. (if f_severity f = SevError then LintError else LintWarning, f_project f @ ''/'' @ f_dsl f,
         AuditFinding (f_code f) (f_fields f)))
       (audit_tree (le_step_json e) (ld_http ld)))"

section \<open>A run\<close>

definition path_text :: "string list \<Rightarrow> string" where
  "path_text = join_with ''/''"

definition at_path :: "string list \<Rightarrow> (lint_severity \<times> lint_message) list \<Rightarrow> lint_item list" where
  "at_path path = map (\<lambda>(s, m). (s, path_text path, m))"

definition first_pass :: "lint_env \<Rightarrow> string hmap \<Rightarrow> string list \<times> fs_node \<Rightarrow> lint_item list \<times> (string list \<times> parsed_file) list" where
  "first_pass e constants file =
     (case file of (path, node) \<Rightarrow>
        let quoting = (case node of File raw \<Rightarrow> map (Pair LintWarning) (check_yaml_scalar_quoting raw) | _ \<Rightarrow> []) in
        case lint_parse_file (le_serde e) constants (\<not> is_source_file path \<and> \<not> is_cron_job_file path) node of
          Inr pf \<Rightarrow> (at_path path quoting, [(path, pf)])
        | Inl errs \<Rightarrow> (at_path path (quoting @ map (Pair LintError) errs), []))"

definition second_pass :: "lint_env \<Rightarrow> string hmap \<Rightarrow> string list \<Rightarrow> string list \<times> parsed_file \<Rightarrow> lint_item list \<times> bool" where
  "second_pass e constants known file =
     (case file of (path, pf) \<Rightarrow>
        case (if is_source_file path then check_source_shape (le_yaml e) (le_debug e) pf
              else if is_cron_job_file path then check_cron_job_shape (le_yaml e) (le_debug e) pf
              else lint_check_dsl constants known pf) of
          (its, ok) \<Rightarrow> (at_path path its, ok))"

definition lint_run :: "lint_env \<Rightarrow> lint_args \<Rightarrow> lint_report" where
  "lint_run e a =
     (let constants = (case load_constants (le_constants e) of Inr c \<Rightarrow> c | Inl _ \<Rightarrow> []);
          files = enumerate_dsl_files (la_include_disabled a) (le_root e) (le_disk e);
          firsts = map (first_pass e constants) files;
          files_parsed = concat (map snd firsts);
          known = List.map_filter (\<lambda>(path, _). lint_key_for (le_root e) path) files_parsed;
          seconds = map (second_pass e constants known) files_parsed;
          found = concat (map fst firsts) @ concat (map fst seconds) @
            (if la_require_guard a then run_require_guard_audit e constants else []) @
            (if la_require_internal a then run_require_internal_explicit_audit e constants else []) @
            (if la_audit a then run_audit e constants else [])
      in add_items found (report_new\<lparr>files_scanned := length files, files_ok := length (filter snd seconds)\<rparr>))"

section \<open>Lemmas\<close>

definition lint_edges :: "parsed_step list \<Rightarrow> (string \<times> string) set" where
  "lint_edges steps = {(a, b). b \<in> set (lint_succ steps a)}"

text \<open>A walk keeps what it was given, adds only reachable names, and follows every edge of what it adds.\<close>

definition walk_ok :: "parsed_step list \<Rightarrow> string set \<Rightarrow> string set \<Rightarrow> string set \<Rightarrow> bool" where
  "walk_ok steps starts out R \<longleftrightarrow> out \<subseteq> R \<and> starts \<subseteq> R \<and> R \<subseteq> out \<union> (lint_edges steps)\<^sup>* `` starts \<and>
     (\<forall>x \<in> R - out. set (lint_succ steps x) \<subseteq> R)"

lemma walk_ok_trans:
  assumes "walk_ok steps {t} out R1" "walk_ok steps ts R1 R"
  shows "walk_ok steps (insert t ts) out R"
proof -
  have sub: "out \<subseteq> R" "insert t ts \<subseteq> R" using assms by (auto simp: walk_ok_def)
  have "R \<subseteq> R1 \<union> (lint_edges steps)\<^sup>* `` ts" "R1 \<subseteq> out \<union> (lint_edges steps)\<^sup>* `` {t}" using assms by (simp_all add: walk_ok_def)
  then have up: "R \<subseteq> out \<union> (lint_edges steps)\<^sup>* `` insert t ts" by blast
  have "set (lint_succ steps x) \<subseteq> R" if "x \<in> R - out" for x
    using that assms unfolding walk_ok_def by (cases "x \<in> R1") blast+
  with sub up show ?thesis by (simp add: walk_ok_def)
qed

lemma walk_correct:
  "walk_reachable n steps start out = Some R \<Longrightarrow> walk_ok steps {start} (set out) (set R)"
  "walk_all n steps ts out = Some R \<Longrightarrow> walk_ok steps (set ts) (set out) (set R)"
proof (induction n steps start out and n steps ts out arbitrary: R and R rule: walk_reachable_walk_all.induct)
  case (1 n steps start out)
  show ?case
  proof (cases "start \<in> set out")
    case True
    then show ?thesis using 1(2) by (auto simp: walk_ok_def)
  next
    case False
    then obtain m where m: "n = Suc m" "walk_all m steps (lint_succ steps start) (start # out) = Some R"
      using 1(2) by (auto split: nat.splits)
    have w: "walk_ok steps (set (lint_succ steps start)) (insert start (set out)) (set R)" using 1(1)[OF False m(1) m(2)] by simp
    have "(lint_edges steps)\<^sup>* `` set (lint_succ steps start) \<subseteq> (lint_edges steps)\<^sup>* `` {start}"
      by (auto simp: lint_edges_def intro: converse_rtrancl_into_rtrancl)
    then show ?thesis using w False unfolding walk_ok_def by blast
  qed
next
  case (2 n steps out)
  then show ?case by (simp add: walk_ok_def)
next
  case (3 n steps t ts out)
  obtain R1 where R1: "walk_reachable n steps t out = Some R1" "walk_all n steps ts R1 = Some R"
    using 3(3) by (auto simp: bind_eq_Some_conv simp del: walk_reachable.simps)
  from walk_ok_trans[OF 3(1)[OF R1(1)] 3(2)[OF R1(1) R1(2)]] show ?case by simp
qed

lemma walk_total:
  "start \<in> U \<Longrightarrow> finite U \<Longrightarrow> (\<And>x. x \<in> U \<Longrightarrow> set (lint_succ steps x) \<subseteq> U) \<Longrightarrow> set out \<subseteq> U \<Longrightarrow>
     card (U - set out) \<le> n \<Longrightarrow> \<exists>R. walk_reachable n steps start out = Some R \<and> set R \<subseteq> U"
  "set ts \<subseteq> U \<Longrightarrow> finite U \<Longrightarrow> (\<And>x. x \<in> U \<Longrightarrow> set (lint_succ steps x) \<subseteq> U) \<Longrightarrow> set out \<subseteq> U \<Longrightarrow>
     card (U - set out) \<le> n \<Longrightarrow> \<exists>R. walk_all n steps ts out = Some R \<and> set R \<subseteq> U"
proof (induction n steps start out and n steps ts out rule: walk_reachable_walk_all.induct)
  case (1 n steps start out)
  show ?case
  proof (cases "start \<in> set out")
    case True
    then show ?thesis using 1(5) by simp
  next
    case False
    have "U - set out \<noteq> {}" using 1(2) False by blast
    then obtain m where m: "n = Suc m" using 1(3,6) by (cases n) (auto simp: card_eq_0_iff)
    have "U - set (start # out) = U - set out - {start}" by auto
    then have "card (U - set (start # out)) = card (U - set out) - 1" using 1(2) False by (simp add: card_Diff_singleton)
    then have le: "card (U - set (start # out)) \<le> m" using m 1(6) by linarith
    have sub: "set (start # out) \<subseteq> U" using 1(2,5) by simp
    from 1(1)[OF False m 1(4)[OF 1(2)] 1(3) 1(4) sub le] m False show ?thesis by simp
  qed
next
  case (2 n steps out)
  then show ?case by simp
next
  case (3 n steps t ts out)
  from 3(1)[OF _ 3(4,5,6,7)] 3(3) obtain R1 where R1: "walk_reachable n steps t out = Some R1" "set R1 \<subseteq> U" by auto
  have "set out \<subseteq> set R1" using walk_correct(1)[OF R1(1)] by (simp add: walk_ok_def)
  then have "card (U - set R1) \<le> card (U - set out)" using 3(4) by (intro card_mono) auto
  then have le: "card (U - set R1) \<le> n" using 3(7) by linarith
  have "set ts \<subseteq> U" using 3(3) by simp
  from 3(2)[OF R1(1) this 3(4,5) R1(2) le] R1 show ?case by (simp del: walk_reachable.simps)
qed

lemma after_in_order_names: "set (after_in_order steps x) \<subseteq> lp_name ` set steps"
  by (induction steps x rule: after_in_order.induct) auto

lemma step_mentioned:
  assumes "s \<in> set steps" "t = lp_name s \<or> lp_next s = Some t \<or> t \<in> set (lp_switch_targets s)"
  shows "t \<in> set (mentioned_names steps)"
  using assms unfolding mentioned_names_def set_remdups set_concat set_map by (intro UN_I[OF imageI[OF assms(1)]]) auto

definition step_targets :: "parsed_step \<Rightarrow> string list" where
  "step_targets s =
     (case lp_next s of Some n \<Rightarrow> if n = ''end'' then [] else [n] | None \<Rightarrow> []) @ filter (\<lambda>t. t \<noteq> ''end'') (lp_switch_targets s)"

lemma step_targets_iff: "t \<in> set (step_targets s) \<longleftrightarrow> t \<noteq> ''end'' \<and> (lp_next s = Some t \<or> t \<in> set (lp_switch_targets s))"
  by (cases "lp_next s") (auto simp: step_targets_def)

lemma lint_succ_iff:
  "t \<in> set (lint_succ steps x) \<longleftrightarrow>
     (\<exists>s. find_step steps x = Some s \<and> t \<in> set (step_targets s)) \<or> t \<in> set (after_in_order steps x)"
  by (cases "find_step steps x") (simp_all add: lint_succ_def flip: step_targets_def)

lemma succ_mentioned: "set (lint_succ steps x) \<subseteq> set (mentioned_names steps)"
proof
  fix t assume "t \<in> set (lint_succ steps x)"
  then consider "t \<in> set (after_in_order steps x)"
    | s where "find_step steps x = Some s" "lp_next s = Some t \<or> t \<in> set (lp_switch_targets s)"
    unfolding lint_succ_iff step_targets_iff by blast
  then show "t \<in> set (mentioned_names steps)"
  proof cases
    case 1
    then show ?thesis using after_in_order_names[of steps x] step_mentioned by fastforce
  next
    case 2
    then have "s \<in> set steps" by (auto simp: find_step_def find_Some_iff)
    then show ?thesis using 2 step_mentioned by blast
  qed
qed

lemma reachable_walk: "\<exists>R. walk_reachable (Suc (length (mentioned_names steps))) steps entry [] = Some R"
proof -
  let ?U = "insert entry (set (mentioned_names steps))"
  have "card ?U \<le> Suc (length (mentioned_names steps))"
    using card_length[of "mentioned_names steps"] by (simp add: card_insert_if)
  then show ?thesis using walk_total(1)[of entry ?U steps "[]" "Suc (length (mentioned_names steps))"] succ_mentioned by fastforce
qed

lemma reachable_steps_exact: "set (reachable_steps steps entry) = (lint_edges steps)\<^sup>* `` {entry}"
proof -
  obtain R where R: "walk_reachable (Suc (length (mentioned_names steps))) steps entry [] = Some R" using reachable_walk by blast
  then have w: "walk_ok steps {entry} {} (set R)" using walk_correct(1) by fastforce
  have "x \<in> set R" if "(entry, x) \<in> (lint_edges steps)\<^sup>*" for x
    using that by induction (use w in \<open>auto simp: walk_ok_def lint_edges_def\<close>)
  then show ?thesis using R w by (auto simp: reachable_steps_def walk_ok_def)
qed

section \<open>Counts\<close>

lemma add_items_fields:
  "lint_errors (add_items its r) = lint_errors r + length (filter (\<lambda>it. fst it = LintError) its)"
  "lint_warnings (add_items its r) = lint_warnings r + length (filter (\<lambda>it. fst it = LintWarning) its)"
  "lint_items (add_items its r) = lint_items r @ its"
  "files_scanned (add_items its r) = files_scanned r" "files_ok (add_items its r) = files_ok r"
  unfolding add_items_def
  by (induction its arbitrary: r) (auto simp: add_item_def file_error_def file_warning_def split: lint_severity.splits)

section \<open>Guards\<close>

text \<open>Whether a route has a guard does not depend on the guard mode.\<close>

lemma guard_keys_empty_any_mode:
  "guard_keys_for_dsl f p k gs md = [] \<longleftrightarrow> guard_keys_for_dsl f p k gs md' = []"
proof (cases "map_of gs p")
  case None
  then show ?thesis by (simp add: guard_keys_for_dsl_def)
next
  case (Some pg)
  let ?o = "filter (\<lambda>k. case map_of pg k of None \<Rightarrow> False | Some g \<Rightarrow> f g)
      (sort_key length (filter (\<lambda>g. g \<noteq> PROJECT_GUARD_KEY \<and> guard_covers k g) (map fst pg)))"
  show ?thesis
    using Some by (cases "last_longest ?o"; cases md; cases md') (simp_all add: guard_keys_for_dsl_def Let_def)
qed

lemma applicable_guards_empty_any_mode:
  "applicable_guards f p k gs md = [] \<longleftrightarrow> guard_keys_for_dsl f p k gs md' = []"
  using applicable_guards_keys[of f p k gs md] guard_keys_empty_any_mode[of f p k gs md md'] by (metis list.map_disc_iff)

section \<open>Warnings\<close>

lemma not_reachable_reported:
  assumes "pf_entry pf = Some entry" "snd (lint_check_dsl constants known pf)"
  shows "(LintWarning, NotReachable n entry) \<in> set (fst (lint_check_dsl constants known pf)) \<longleftrightarrow>
     (\<exists>s. s \<in> set (pf_steps pf) \<and> lp_name s = n \<and> lp_kind s \<noteq> ''declaration'' \<and>
       (entry, n) \<notin> (lint_edges (pf_steps pf))\<^sup>*)"
proof -
  have nt: "(LintWarning, NotReachable n entry) \<notin> set (check_targets names s)" for names s
    by (cases "lp_next s") (auto simp: check_targets_def error_if_def)
  have r: "x \<in> set (reachable_steps (pf_steps pf) entry) \<longleftrightarrow> (entry, x) \<in> (lint_edges (pf_steps pf))\<^sup>*" for x
    by (simp add: reachable_steps_exact)
  have "(LintWarning, NotReachable n entry) \<in> set (fst (lint_check_dsl constants known pf)) \<longleftrightarrow>
     (\<exists>s \<in> set (pf_steps pf). (LintWarning, NotReachable n entry) \<in>
       set (warn_when (lp_name s \<notin> set (reachable_steps (pf_steps pf) entry) \<and> lp_kind s \<noteq> ''declaration'') (NotReachable (lp_name s) entry)))"
    using assms nt unfolding lint_check_dsl_def by (auto simp: error_if_def split: if_splits)
  also have "\<dots> \<longleftrightarrow> (\<exists>s. s \<in> set (pf_steps pf) \<and> lp_name s = n \<and> lp_kind s \<noteq> ''declaration'' \<and>
       (entry, n) \<notin> (lint_edges (pf_steps pf))\<^sup>*)"
    unfolding r warn_when_def by auto
  finally show ?thesis .
qed

section \<open>Properties\<close>

text \<open>
  The report counts what it lists: the error and warning totals of a run are the numbers of its error and
  warning items, and the exit code is 1 exactly when an error is listed, 0 otherwise.
\<close>

theorem lint_report_exact:
  "lint_errors (lint_run e a) = length (filter (\<lambda>it. fst it = LintError) (lint_items (lint_run e a))) \<and>
   lint_warnings (lint_run e a) = length (filter (\<lambda>it. fst it = LintWarning) (lint_items (lint_run e a))) \<and>
   (exit_code (lint_run e a) = 1 \<longleftrightarrow> (\<exists>path msg. (LintError, path, msg) \<in> set (lint_items (lint_run e a)))) \<and>
   (exit_code (lint_run e a) = 0 \<longleftrightarrow> (\<nexists>path msg. (LintError, path, msg) \<in> set (lint_items (lint_run e a))))"
proof -
  obtain its r where run: "lint_run e a = add_items its r" and r: "lint_errors r = 0" "lint_warnings r = 0" "lint_items r = []"
    unfolding lint_run_def Let_def report_new_def by (metis (no_types, lifting) lint_report.select_convs(3-5) lint_report.update_convs(1,2))
  have items: "lint_items (lint_run e a) = its" by (simp add: run r add_items_fields)
  have err: "0 < lint_errors (lint_run e a) \<longleftrightarrow> (\<exists>path msg. (LintError, path, msg) \<in> set its)"
    by (force simp: run r add_items_fields filter_empty_conv)
  have counts: "lint_errors (lint_run e a) = length (filter (\<lambda>it. fst it = LintError) its)"
      "lint_warnings (lint_run e a) = length (filter (\<lambda>it. fst it = LintWarning) its)"
    by (simp_all add: run r add_items_fields)
  show ?thesis unfolding items exit_code_def using err counts by simp
qed

text \<open>
  The reachability check is exact: the walk from the entry always ends, and a file with executable steps gets
  the warning for a step, other than a declaration, exactly when no chain of \<open>next\<close>, \<open>switch\<close> and fall-through
  edges leads from the entry to it.
\<close>

theorem lint_unreachable_exact:
  assumes "pf_entry pf = Some entry" "snd (lint_check_dsl constants known pf)"
  shows "(\<exists>R. walk_reachable (Suc (length (mentioned_names (pf_steps pf)))) (pf_steps pf) entry [] = Some R) \<and>
    ((LintWarning, NotReachable n entry) \<in> set (fst (lint_check_dsl constants known pf)) \<longleftrightarrow>
     (\<exists>s. s \<in> set (pf_steps pf) \<and> lp_name s = n \<and> lp_kind s \<noteq> ''declaration'' \<and>
       (entry, n) \<notin> (lint_edges (pf_steps pf))\<^sup>*))"
  using reachable_walk not_reachable_reported[OF assms] by blast

definition stray_file :: parsed_file where
  "stray_file = \<lparr>pf_entry = Some ''a'', pf_steps =
     [\<lparr>lp_name = ''a'', lp_kind = ''return'', lp_next = None, lp_switch_targets = []\<rparr>,
      \<lparr>lp_name = ''b'', lp_kind = ''assign'', lp_next = None, lp_switch_targets = []\<rparr>],
     pf_raw = [], pf_template_targets = [], pf_has_proxy = False\<rparr>"

theorem lint_unreachable_exact_witness:
  "(''a'', ''b'') \<notin> (lint_edges (pf_steps stray_file))\<^sup>*"
proof -
  have "pf_entry stray_file = Some ''a''" "snd (lint_check_dsl [] [] stray_file)" by code_simp+
  note exact = lint_unreachable_exact[OF this, of "''b''"]
  moreover have "(LintWarning, NotReachable ''b'' ''a'') \<in> set (fst (lint_check_dsl [] [] stray_file))" by code_simp
  ultimately show ?thesis by blast
qed

text \<open>
  C21. \<open>--require-guard\<close> is exact for the server: on a tree that loads, the audit reports nothing exactly when, whatever
  guard mode the server runs with, it runs at least one guard for every route of an auditable method.
\<close>

theorem require_guard_exact:
  assumes "load_everything (lint_loader e constants) (le_disk e) = Inr ld"
  shows "run_require_guard_audit e constants = [] \<longleftrightarrow>
    (\<nexists>p ms m ds k d md. (p, ms) \<in> set (ld_http ld) \<and> (m, ds) \<in> set ms \<and> is_auditable_method m \<and> (k, d) \<in> set ds \<and>
       applicable_guards is_override_guard p k (ld_guards ld) md = [])"
proof -
  have "run_require_guard_audit e constants = [] \<longleftrightarrow>
      (\<forall>r \<in> set (audit_all_routes is_override_guard (ld_http ld) (ld_guards ld) (cfg_guards_mode app_config_default)). \<not> is_unguarded r)"
    by (simp add: run_require_guard_audit_def audit_loaded_def assms map_filter_def filter_empty_conv)
  also have "\<dots> \<longleftrightarrow> (\<nexists>p ms m ds k d. (p, ms) \<in> set (ld_http ld) \<and> (m, ds) \<in> set ms \<and> is_auditable_method m \<and> (k, d) \<in> set ds \<and>
      guard_keys_for_dsl is_override_guard p k (ld_guards ld) (cfg_guards_mode app_config_default) = [])"
    unfolding Ball_def set_audit_all_routes is_unguarded_def by fastforce
  also have "\<dots> \<longleftrightarrow> (\<nexists>p ms m ds k d md. (p, ms) \<in> set (ld_http ld) \<and> (m, ds) \<in> set ms \<and> is_auditable_method m \<and> (k, d) \<in> set ds \<and>
       applicable_guards is_override_guard p k (ld_guards ld) md = [])"
    unfolding applicable_guards_empty_any_mode[where md' = "cfg_guards_mode app_config_default"] by blast
  finally show ?thesis .
qed

definition sample_lint :: lint_env where
  "sample_lint = \<lparr>le_root = [''DSL''], le_disk = sample_tree, le_constants = None, le_serde = sample_serde,
     le_yaml = \<lambda>_. Inl ''none'', le_debug = \<lambda>_. '''', le_step_json = \<lambda>_. None\<rparr>"

lemma sample_lint_load: "load_everything (lint_loader sample_lint []) (le_disk sample_lint) = Inr sample_loaded"
  using sample_load by (simp add: lint_loader_def sample_lint_def sample_loader_def app_config_default_def dsl_config_default_def)

lemma sample_lint_guarded: "applicable_guards is_override_guard ''demo'' ''GET/admin/secret'' (ld_guards sample_loaded) md \<noteq> []"
proof -
  have "guard_keys_for_dsl is_override_guard ''demo'' ''GET/admin/secret'' (ld_guards sample_loaded) Stack \<noteq> []"
    unfolding sample_loaded_def loaded_projects.select_convs by code_simp
  then show ?thesis by (simp add: applicable_guards_empty_any_mode[where md' = Stack])
qed

theorem require_guard_exact_witness: "run_require_guard_audit sample_lint [] = []"
  unfolding require_guard_exact[OF sample_lint_load]
proof (intro notI, elim exE conjE)
  fix p ms m ds k d md
  assume "(p, ms) \<in> set (ld_http sample_loaded)" "(m, ds) \<in> set ms" "(k, d) \<in> set ds"
    and none: "applicable_guards is_override_guard p k (ld_guards sample_loaded) md = []"
  then have "p = ''demo''" "k = ''GET/admin/secret''" by (simp_all add: sample_loaded_def)
  then show False using none sample_lint_guarded by simp
qed

end
