(* ===== verification/Lint_Soundness.thy ===== *)
theory Lint_Soundness
  imports Dsl_Lint
begin

text \<open>
  What the linter's verdicts mean for the engine. The linter (\<open>src/bin/dsl_lint.rs\<close>) reads names, \<open>next\<close> targets
  and \<open>switch\<close> branches off the YAML; the engine (\<open>src/steps/engine.rs\<close>) runs the decoded steps. For a file
  that both read the same way, a DSL the linter has no error for never stops at an unknown step, and a step
  the linter calls unreachable is dead code: putting any other step in its place changes no run. Both need
  what the linter does not look at to be absent or harmless: the \<open>error\<close> target of an HTTP step, and \<open>skip\<close> and
  \<open>max_recursions\<close> on steps that would otherwise not fall through.
\<close>

section \<open>Where a step can lead\<close>

text \<open>\<open>gives P m\<close>: whatever \<open>m\<close> returns satisfies \<open>P\<close>.\<close>

definition gives :: "('a \<Rightarrow> bool) \<Rightarrow> 'a comp \<Rightarrow> bool" where
  "gives P m \<longleftrightarrow> (\<forall>c w x c' w'. m c w = Some (Inr x, c', w') \<longrightarrow> P x)"

named_theorems gives_intro

lemma givesD: "gives P m \<Longrightarrow> m c w = Some (Inr x, c', w') \<Longrightarrow> P x"
  unfolding gives_def by blast

lemma gives_basic [gives_intro]:
  "P x \<Longrightarrow> gives P (ret x)" "gives P (raise e)" "gives P (invalid_step r)" "gives P (ws_error r')"
  by (simp_all add: gives_def invalid_step_def ws_error_def)

lemma gives_bind [gives_intro]: "(\<And>x. gives P (f x)) \<Longrightarrow> gives P (bindc m f)"
  unfolding gives_def bindc_Some by blast

lemma gives_bindD: "gives Q m \<Longrightarrow> (\<And>x. Q x \<Longrightarrow> gives P (f x)) \<Longrightarrow> gives P (bindc m f)"
  unfolding gives_def bindc_Some by blast

lemma gives_if [gives_intro]: "(b \<Longrightarrow> gives P m) \<Longrightarrow> (\<not> b \<Longrightarrow> gives P m') \<Longrightarrow> gives P (if b then m else m')"
  by simp

lemma gives_let [gives_intro]: "(\<And>x. gives P (f x)) \<Longrightarrow> gives P (let x = v in f x)"
  by simp

lemma gives_cases [gives_intro]:
  "(x = None \<Longrightarrow> gives P m) \<Longrightarrow> (\<And>y. x = Some y \<Longrightarrow> gives P (f y)) \<Longrightarrow> gives P (case x of None \<Rightarrow> m | Some y \<Rightarrow> f y)"
  "(\<And>a. gives P (g a)) \<Longrightarrow> (\<And>b. gives P (h b)) \<Longrightarrow> gives P (case s of Inl a \<Rightarrow> g a | Inr b \<Rightarrow> h b)"
  by (auto split: option.split sum.split)

lemma gives_mono: "gives Q m \<Longrightarrow> (\<And>x. Q x \<Longrightarrow> P x) \<Longrightarrow> gives P m"
  unfolding gives_def by blast

lemma gives_map_error: "gives P m \<Longrightarrow> gives P (map_error g m)"
  unfolding gives_def map_error_Some by (metis Inl_Inr_False Inr_inject obj_sumE sum.case(1) sum.case(2))

text \<open>The names a step can pass control to, other than its explicit \<open>next\<close>.\<close>

fun switch_nexts :: "dsl_step \<Rightarrow> string list" where
  "switch_nexts (Switch s) = map sc_next (sw_switch s)"
| "switch_nexts _ = []"

fun error_next :: "dsl_step \<Rightarrow> string option" where
  "error_next (HttpCall s) = hs_error s"
| "error_next _ = None"

definition leads_to :: "dsl_step \<Rightarrow> step_result \<Rightarrow> bool" where
  "leads_to s r \<longleftrightarrow> should_return r \<or>
     (next_step r = explicit_next s \<and> \<not> is_return s) \<or>
     (\<exists>n. next_step r = Some n \<and> (n \<in> set (switch_nexts s) \<or> error_next s = Some n))"

lemma gives_continue: "explicit_next s = n \<Longrightarrow> \<not> is_return s \<Longrightarrow> gives (leads_to s) (continue_with n)"
  unfolding continue_with_def by (rule gives_basic) (simp add: leads_to_def step_result_next_def)

lemma gives_after_response: "gives (leads_to (HttpCall s)) (after_response E run s r)"
  unfolding after_response_def continue_with_def
  by (intro gives_intro)
    (auto simp: leads_to_def step_result_next_def is_return_def gives_def invalid_step_def bindc_Some split: option.splits)

lemma gives_switch_loop: "set conds \<subseteq> set (sw_switch s) \<Longrightarrow> gives (leads_to (Switch s)) (switch_loop E conds (sw_next s))"
proof (induction conds)
  case Nil
  then show ?case unfolding switch_loop.simps by (intro gives_continue) (simp_all add: is_return_def)
next
  case (Cons cond conds)
  have "gives (leads_to (Switch s)) (continue_with (Some (sc_next cond)))"
    unfolding continue_with_def using Cons.prems by (intro gives_basic) (auto simp: leads_to_def step_result_next_def)
  then show ?case unfolding switch_loop.simps using Cons by (intro gives_intro) auto
qed

lemma gives_return: "gives should_return (exec_return E s)"
  unfolding exec_return_def by (intro gives_intro) simp

lemma gives_early: "gives (\<lambda>out. case out of Some r \<Rightarrow> should_return r | None \<Rightarrow> True) (exec_body E run body)"
proof (induction body)
  case Nil
  then show ?case by (simp add: gives_def)
next
  case (Cons s body)
  then show ?case unfolding exec_body.simps by (intro gives_intro) simp_all
qed

lemma gives_iterate_loop:
  assumes "gives (\<lambda>out. case out of Some r \<Rightarrow> should_return r | None \<Rightarrow> True) body"
  shows "gives (\<lambda>out. case out of Inl r \<Rightarrow> should_return r | Inr _ \<Rightarrow> True) (iterate_loop E v body collect xs acc)"
proof (induction xs arbitrary: acc)
  case Nil
  then show ?case by (simp add: gives_def)
next
  case (Cons x xs)
  show ?case unfolding iterate_loop.simps
    by (rule gives_bind, rule gives_bindD[OF assms], rule gives_intro, rule gives_intro) (auto intro!: gives_basic gives_bind Cons.IH)
qed

lemma gives_single_flight:
  assumes "gives (\<lambda>out. case out of Some r \<Rightarrow> should_return r | None \<Rightarrow> True) body"
  shows "gives (leads_to (SingleFlight k t b res n base)) (exec_single_flight E k t body res n)"
proof -
  let ?P = "leads_to (SingleFlight k t b res n base)"
  have cont: "gives ?P (continue_with n)" by (rule gives_continue) (simp_all add: is_return_def)
  have "gives (\<lambda>out. case out of Inr (Some r) \<Rightarrow> should_return r | _ \<Rightarrow> True) (attempt body)"
    using assms unfolding gives_def attempt_Some by (auto split: sum.splits option.splits)
  then have "gives ?P (run_as_leader E key body res n)" for key
    unfolding run_as_leader_def
    by (rule gives_bindD) (auto intro!: gives_intro cont simp: leads_to_def split: sum.splits option.splits)
  moreover have "gives ?P (run_as_follower E key t res n)" for key
    unfolding run_as_follower_def by (auto intro!: gives_intro cont split: sf_recv.splits sum.splits)
  ultimately show ?thesis unfolding exec_single_flight_def by (intro gives_intro)
qed

lemma step_leads: "gives (leads_to s) (exec_step E run s)"
proof (cases s)
  case (Return x2)
  show ?thesis unfolding Return exec_step.simps by (rule gives_mono[OF gives_return]) (simp add: leads_to_def)
next
  case (HttpCall x3)
  show ?thesis unfolding HttpCall exec_step.simps exec_http_def by (intro gives_intro gives_after_response)
next
  case (Switch x5)
  show ?thesis unfolding Switch exec_step.simps exec_switch_def by (rule gives_switch_loop) simp
next
  case (Iterate over v body col into mx n b)
  have "gives (leads_to s) (continue_with n)" by (rule gives_continue) (simp_all add: Iterate is_return_def)
  then have "gives (leads_to s) (bindc (iterate_loop E v (exec_body E run body) col xs []) (\<lambda>out.
      case out of Inl r \<Rightarrow> ret r | Inr collected \<Rightarrow> bindc (set_var_opt into (JArray collected)) (\<lambda>_. continue_with n)))" for xs
    by (intro gives_bindD[OF gives_iterate_loop[OF gives_early]]) (auto intro!: gives_intro simp: leads_to_def split: sum.splits)
  note loop = this[unfolded Iterate]
  show ?thesis unfolding Iterate exec_step.simps exec_iterate_def
    by (rule gives_bind, rule gives_bind, rule gives_let, rule gives_if[OF gives_basic(3) loop])
next
  case (SingleFlight k t b res n base)
  show ?thesis unfolding SingleFlight exec_step.simps by (rule gives_single_flight[OF gives_early])
next
  case (Declaration x15)
  show ?thesis unfolding Declaration exec_step.simps by (rule gives_basic) (simp add: leads_to_def step_result_new_def is_return_def)
next
  case (Detach x11 x12 x13 x14)
  show ?thesis unfolding Detach exec_step.simps exec_detach_def by (intro gives_intro gives_continue) (simp_all add: is_return_def)
next
  case (ParallelHttp x10)
  show ?thesis unfolding ParallelHttp exec_step.simps exec_parallel_http_def
    by (intro gives_intro gives_continue) (simp_all add: is_return_def)
next
  case (Template x7)
  show ?thesis unfolding Template exec_step.simps exec_template_def template_call_def
    by (intro gives_intro gives_continue) (simp_all add: is_return_def)
qed (simp_all add: exec_assign_def exec_http_mock_def exec_log_def exec_state_def exec_ws_send_def exec_ws_tag_def Let_def,
     (intro gives_intro gives_continue; simp add: is_return_def)+)

section \<open>What both read\<close>

text \<open>
  The linter's step list agrees with the decoded one: the same names in the same order, the same \<open>next\<close>, the same
  branches, and \<open>return\<close> for return steps. \<open>lint_blind\<close> is what the linter does not see on a step: an \<open>error\<close> target,
  and, on a step that does not fall through, \<open>skip\<close> or \<open>max_recursions\<close>, which make it fall through.
\<close>

definition step_agrees :: "parsed_step \<Rightarrow> string \<times> dsl_step \<Rightarrow> bool" where
  "step_agrees ps ns = (case ns of (name, s) \<Rightarrow> lp_name ps = name \<and> lp_next ps = explicit_next s \<and>
     (lp_kind ps = ''return'' \<longleftrightarrow> is_return s) \<and> set (lp_switch_targets ps) = set (switch_nexts s))"

definition lint_reads :: "parsed_file \<Rightarrow> dsl \<Rightarrow> bool" where
  "lint_reads pf d \<longleftrightarrow> list_all2 step_agrees (pf_steps pf) (dsl_steps d) \<and> distinct (step_names d) \<and>
     dsl_steps d \<noteq> [] \<and> pf_entry pf = Some (fst (hd (dsl_steps d)))"

definition lint_blind :: "dsl_step \<Rightarrow> bool" where
  "lint_blind s \<longleftrightarrow> error_next s \<noteq> None \<or>
     ((explicit_next s \<noteq> None \<or> is_return s) \<and> (is_skipped s \<or> Option.bind (step_base s) max_recursions \<noteq> None))"

lemma reads_at:
  assumes "lint_reads pf d" "i < length (dsl_steps d)"
  shows "step_agrees (pf_steps pf ! i) (dsl_steps d ! i)" "lp_name (pf_steps pf ! i) = step_names d ! i"
    "length (pf_steps pf) = length (dsl_steps d)"
proof -
  have l: "list_all2 step_agrees (pf_steps pf) (dsl_steps d)" using assms(1) by (simp add: lint_reads_def)
  then show "length (pf_steps pf) = length (dsl_steps d)" by (rule list_all2_lengthD)
  show a: "step_agrees (pf_steps pf ! i) (dsl_steps d ! i)" using l assms(2) by (simp add: list_all2_conv_all_nth)
  then show "lp_name (pf_steps pf ! i) = step_names d ! i"
    using assms(2) by (simp add: step_agrees_def step_names_def split: prod.splits)
qed

lemma reads_names: "lint_reads pf d \<Longrightarrow> map lp_name (pf_steps pf) = step_names d"
proof (rule nth_equalityI)
  assume r: "lint_reads pf d"
  then show l: "length (map lp_name (pf_steps pf)) = length (step_names d)"
    by (auto simp: step_names_def lint_reads_def dest: list_all2_lengthD)
  show "map lp_name (pf_steps pf) ! i = step_names d ! i" if "i < length (map lp_name (pf_steps pf))" for i
    using that l reads_at(2)[OF r, of i] by (simp add: step_names_def)
qed

lemma step_at:
  assumes "distinct (step_names d)" "i < length (dsl_steps d)"
  shows "get_step d (step_names d ! i) = Some (snd (dsl_steps d ! i))"
  using assms unfolding get_step_def step_names_def by (simp add: map_of_eq_Some_iff)

lemma find_step_nth:
  assumes "distinct (map lp_name ps)" "i < length ps"
  shows "find_step ps (lp_name (ps ! i)) = Some (ps ! i)"
  unfolding find_step_def find_Some_iff using assms by (intro exI[of _ i]) (auto simp: distinct_conv_nth)

lemma after_in_order_nth:
  "distinct (map lp_name ps) \<Longrightarrow> Suc i < length ps \<Longrightarrow> lp_next (ps ! i) = None \<Longrightarrow> lp_kind (ps ! i) \<noteq> ''return'' \<Longrightarrow>
     lp_name (ps ! Suc i) \<in> set (after_in_order ps (lp_name (ps ! i)))"
proof (induction ps arbitrary: i)
  case (Cons p ps)
  then obtain q qs where ps: "ps = q # qs" by (cases ps) auto
  show ?case
  proof (cases i)
    case 0
    then show ?thesis using Cons.prems by (simp add: ps)
  next
    case (Suc j)
    have "lp_name (ps ! j) \<in> set (map lp_name ps)" using Cons.prems(2) Suc by simp
    then have "lp_name p \<noteq> lp_name (ps ! j)" using Cons.prems(1) by auto
    then show ?thesis using Cons.IH[of j] Cons.prems by (simp add: ps Suc)
  qed
qed simp

section \<open>Unknown targets\<close>

lemma position_names: "n \<in> set ns \<Longrightarrow> \<exists>i. position n ns = Some i \<and> i < length ns \<and> ns ! i = n"
  by (induction ns) fastforce+

lemma position_Some: "position n ns = Some i \<Longrightarrow> i < length ns \<and> ns ! i = n"
  by (induction ns arbitrary: i) (auto split: if_splits)

lemma lint_targets_resolve:
  assumes "\<forall>m. (LintError, m) \<notin> set (fst (lint_check_dsl constants known pf))" "s \<in> set (pf_steps pf)"
    "lp_next s = Some t \<or> t \<in> set (lp_switch_targets s)"
  shows "t = ''end'' \<or> t \<in> set (map lp_name (pf_steps pf))"
proof (rule ccontr)
  assume bad: "\<not> ?thesis"
  let ?c = "check_targets (map lp_name (pf_steps pf)) s"
  have "(LintError, NextUnresolved (lp_name s) t) \<in> set ?c \<or> (LintError, SwitchUnresolved (lp_name s) t) \<in> set ?c"
    using assms(3) bad by (force simp: check_targets_def error_if_def)
  then obtain m where m: "(LintError, m) \<in> set ?c" by blast
  have "(LintError, m) \<in> set (fst (lint_check_dsl constants known pf)) \<or>
      fst (lint_check_dsl constants known pf) = [(LintError, NoExecutableSteps)]"
    using m assms(2) unfolding lint_check_dsl_def by auto
  then show False using assms(1) by auto
qed

text \<open>The outcome of one step of a run, as the loop sees it.\<close>

lemma run_step_leads:
  assumes "run_step E run name s c w = Some (Inr r, c', w')" "\<not> should_return r"
  shows "(is_skipped s \<and> next_step r = None) \<or> (\<not> is_skipped s \<and> leads_to s r)"
proof (cases "is_skipped s")
  case True
  then show ?thesis using assms(1) by (auto simp: run_step_def map_error_Some step_result_new_def split: sum.splits)
next
  case False
  then have "gives (leads_to s) (run_step E run name s)" unfolding run_step_def by (simp add: gives_map_error step_leads)
  then show ?thesis using givesD assms(1) False by fast
qed

lemma bindc_cong: "(\<And>x c1 w1. m c w = Some (Inr x, c1, w1) \<Longrightarrow> f x c1 w1 = g x c1 w1) \<Longrightarrow> bindc m f c w = bindc m g c w"
  by (auto simp: bindc_def split: option.splits sum.splits)

lemma reload_ok: "(if b then trigger_reload E else ret ()) c w = Some (Inl e, c', w') \<Longrightarrow> False"
  by (auto simp: trigger_reload_def on_world_def split: if_splits option.splits prod.splits)

lemma leads_resolved:
  assumes "lint_reads pf d" "\<forall>m. (LintError, m) \<notin> set (fst (lint_check_dsl constants known pf))"
    and "\<forall>(_, s) \<in> set (dsl_steps d). error_next s = None \<or> error_next s = Some ''end'' \<or> the (error_next s) \<in> set (step_names d)"
    and "i < length (dsl_steps d)" "leads_to (snd (dsl_steps d ! i)) r" "\<not> should_return r" "next_step r = Some t"
  shows "t = ''end'' \<or> t \<in> set (step_names d)"
proof -
  let ?p = "pf_steps pf ! i" and ?s = "snd (dsl_steps d ! i)"
  have ag: "lp_next ?p = explicit_next ?s" "set (lp_switch_targets ?p) = set (switch_nexts ?s)"
    using reads_at(1)[OF assms(1,4)] by (simp_all add: step_agrees_def split: prod.splits)
  have p: "?p \<in> set (pf_steps pf)" using reads_at(3)[OF assms(1,4)] assms(4) by simp
  consider "lp_next ?p = Some t \<or> t \<in> set (lp_switch_targets ?p)" | "error_next ?s = Some t"
    using assms(5-7) ag by (auto simp: leads_to_def)
  then show ?thesis
  proof cases
    case 1
    then show ?thesis using lint_targets_resolve[OF assms(2) p] reads_names[OF assms(1)] by simp
  next
    case 2
    have "dsl_steps d ! i \<in> set (dsl_steps d)" using assms(4) by simp
    from bspec[OF assms(3) this] 2 show ?thesis by (auto split: prod.splits)
  qed
qed

text \<open>The loop, one step at a time.\<close>

definition loop_next ::
  "engine \<Rightarrow> runner \<Rightarrow> dsl \<Rightarrow> nat \<Rightarrow> nat \<Rightarrow> nat hmap \<Rightarrow> step_result \<Rightarrow> dsl_execution_result comp" where
  "loop_next E run d budget idx recs r =
     (case next_step r of
        None \<Rightarrow> run_loop E run d budget (Suc idx) recs
      | Some nxt \<Rightarrow>
          if nxt = ''end'' then ret empty_result
          else case position nxt (step_names d) of
            Some idx' \<Rightarrow> run_loop E run d budget idx' recs
          | None \<Rightarrow> raise (DslExecution (step_names d ! idx) (InStep (UnknownNext (step_names d ! idx) nxt))))"

definition loop_counted :: "dsl \<Rightarrow> nat \<Rightarrow> nat hmap \<Rightarrow> nat hmap" where
  "loop_counted d idx recs = hm_insert (step_names d ! idx) (Suc (opt_or (map_of recs (step_names d ! idx)) 0)) recs"

definition loop_after ::
  "engine \<Rightarrow> runner \<Rightarrow> dsl \<Rightarrow> nat \<Rightarrow> nat \<Rightarrow> nat hmap \<Rightarrow> dsl_step \<Rightarrow> step_result \<Rightarrow> dsl_execution_result comp" where
  "loop_after E run d budget idx recs s r =
     (if should_return r then ret (returned r)
      else bindc (if \<not> is_skipped s \<and> wants_reload s then trigger_reload E else ret ())
        (\<lambda>_. loop_next E run d budget idx (loop_counted d idx recs) r))"

lemma run_loop_step:
  assumes "get_step d (step_names d ! idx) = Some s"
  shows "run_loop E run d (Suc budget) idx recs =
     (if length (step_names d) \<le> idx then ret empty_result
      else if per_step_cap s (max_iterations E) \<le> opt_or (map_of recs (step_names d ! idx)) 0
      then run_loop E run d budget (Suc idx) recs
      else bindc (run_step E run (step_names d ! idx) s) (loop_after E run d budget idx recs s))"
  unfolding run_loop.simps Let_def loop_after_def loop_next_def loop_counted_def assms option.case ..

lemma run_step_error: "run_step E run name s c w = Some (Inl e, c', w') \<Longrightarrow> \<exists>k p e'. e = StepContext name k p e'"
proof -
  assume "run_step E run name s c w = Some (Inl e, c', w')"
  then obtain r0 where "Inl e = (case r0 of Inl e \<Rightarrow> Inl (StepContext name (type_name s) (ctx_project c') e) | Inr x \<Rightarrow> Inr (x :: step_result))"
    by (auto simp: run_step_def map_error_Some)
  then show ?thesis by (cases r0) auto
qed

lemma run_loop_resolves:
  assumes reads: "lint_reads pf d" and clean: "\<forall>m. (LintError, m) \<notin> set (fst (lint_check_dsl constants known pf))"
    and err: "\<forall>(_, s) \<in> set (dsl_steps d). error_next s = None \<or> error_next s = Some ''end'' \<or> the (error_next s) \<in> set (step_names d)"
  shows "run_loop E run d budget idx recs c w = Some (Inl e, c', w') \<Longrightarrow> e \<noteq> DslExecution name (InStep (UnknownNext name t))"
proof (induction budget arbitrary: idx recs c w)
  case (Suc budget)
  have dist: "distinct (step_names d)" using reads by (simp add: lint_reads_def)
  show ?case
  proof (cases "idx < length (dsl_steps d)")
    case True
    let ?s = "snd (dsl_steps d ! idx)"
    have idx: "\<not> length (step_names d) \<le> idx" using True by (simp add: step_names_def)
    note loop = Suc.prems[unfolded run_loop_step[OF step_at[OF dist True]] if_not_P[OF idx]]
    show ?thesis
    proof (cases "per_step_cap ?s (max_iterations E) \<le> opt_or (map_of recs (step_names d ! idx)) 0")
      case True
      from Suc.IH loop[unfolded if_P[OF True]] show ?thesis .
    next
      case cap: False
      from loop[unfolded if_not_P[OF cap] bindc_Some] consider "run_step E run (step_names d ! idx) ?s c w = Some (Inl e, c', w')"
        | r c1 w1 where "run_step E run (step_names d ! idx) ?s c w = Some (Inr r, c1, w1)"
          "loop_after E run d budget idx recs ?s r c1 w1 = Some (Inl e, c', w')" by auto
      then show ?thesis
      proof cases
        case 1
        then show ?thesis using run_step_error by blast
      next
        case 2
        have go: "\<not> should_return r" using 2(2) by (auto simp: loop_after_def)
        then obtain c2 w2 where k: "loop_next E run d budget idx (loop_counted d idx recs) r c2 w2 = Some (Inl e, c', w')"
          using 2(2) unfolding loop_after_def if_not_P[OF go] bindc_Some using reload_ok by blast
        show ?thesis
        proof (cases "next_step r")
          case None
          then show ?thesis using k Suc.IH by (simp add: loop_next_def)
        next
          case (Some nxt)
          then have "leads_to ?s r" using run_step_leads[OF 2(1) go] by auto
          then have "nxt = ''end'' \<or> nxt \<in> set (step_names d)"
            using leads_resolved[OF reads clean err True _ go Some] by blast
          then consider "nxt = ''end''" | i where "nxt \<noteq> ''end''" "position nxt (step_names d) = Some i" using position_names by blast
          then show ?thesis using k Some Suc.IH by cases (simp_all add: loop_next_def)
        qed
      qed
    qed
  next
    case False
    then have idx: "length (step_names d) \<le> idx" by (simp add: step_names_def)
    show ?thesis using Suc.prems[unfolded run_loop.simps if_P[OF idx]] by simp
  qed
qed (simp add: run_loop.simps)

section \<open>Dead steps\<close>

lemma fall_edge:
  assumes "lint_reads pf d" "Suc i < length (dsl_steps d)" "explicit_next (snd (dsl_steps d ! i)) = None" "\<not> is_return (snd (dsl_steps d ! i))"
  shows "(step_names d ! i, step_names d ! Suc i) \<in> lint_edges (pf_steps pf)"
proof -
  have "distinct (map lp_name (pf_steps pf))" unfolding reads_names[OF assms(1)] using assms(1) by (simp add: lint_reads_def)
  moreover have "lp_next (pf_steps pf ! i) = None" "lp_kind (pf_steps pf ! i) \<noteq> ''return''"
    using reads_at(1)[OF assms(1), of i] assms(2-4) by (auto simp: step_agrees_def split: prod.splits)
  ultimately have "lp_name (pf_steps pf ! Suc i) \<in> set (after_in_order (pf_steps pf) (lp_name (pf_steps pf ! i)))"
    using after_in_order_nth assms(2) reads_at(3)[OF assms(1), of i] by simp
  then show ?thesis using reads_at(2)[OF assms(1)] assms(2) by (simp add: lint_edges_def lint_succ_iff)
qed

lemma target_edge:
  assumes "lint_reads pf d" "i < length (dsl_steps d)" "t \<noteq> ''end''"
    "explicit_next (snd (dsl_steps d ! i)) = Some t \<or> t \<in> set (switch_nexts (snd (dsl_steps d ! i)))"
  shows "(step_names d ! i, t) \<in> lint_edges (pf_steps pf)"
proof -
  have "distinct (map lp_name (pf_steps pf))" unfolding reads_names[OF assms(1)] using assms(1) by (simp add: lint_reads_def)
  then have "find_step (pf_steps pf) (step_names d ! i) = Some (pf_steps pf ! i)"
    using find_step_nth[of "pf_steps pf" i] assms(2) reads_at(2,3)[OF assms(1,2)] by simp
  moreover have "t \<in> set (step_targets (pf_steps pf ! i))"
    using reads_at(1)[OF assms(1,2)] assms(3,4) by (auto simp: step_targets_iff step_agrees_def split: prod.splits)
  ultimately show ?thesis by (simp add: lint_edges_def lint_succ_iff)
qed

text \<open>A step that is not \<open>lint_blind\<close> only passes control along an edge the linter follows.\<close>

lemma blind_free_edge:
  assumes "lint_reads pf d" "i < length (dsl_steps d)" "\<not> lint_blind (snd (dsl_steps d ! i))"
    and "run_step E run name (snd (dsl_steps d ! i)) c w = Some (Inr r, c', w')" "\<not> should_return r"
  shows "next_step r = None \<Longrightarrow> Suc i < length (dsl_steps d) \<Longrightarrow> (step_names d ! i, step_names d ! Suc i) \<in> lint_edges (pf_steps pf)"
    and "next_step r = Some t \<Longrightarrow> t \<noteq> ''end'' \<Longrightarrow> (step_names d ! i, t) \<in> lint_edges (pf_steps pf)"
proof -
  let ?s = "snd (dsl_steps d ! i)"
  from run_step_leads[OF assms(4,5)] have leads: "(is_skipped ?s \<and> next_step r = None) \<or> (\<not> is_skipped ?s \<and> leads_to ?s r)" .
  { assume "next_step r = None" "Suc i < length (dsl_steps d)"
    moreover from this(1) leads have "explicit_next ?s = None \<and> \<not> is_return ?s"
      using assms(3,5) unfolding lint_blind_def leads_to_def by (metis option.distinct(1))
    ultimately show "(step_names d ! i, step_names d ! Suc i) \<in> lint_edges (pf_steps pf)" using fall_edge[OF assms(1)] by blast }
  { assume t: "next_step r = Some t" "t \<noteq> ''end''"
    then have "explicit_next ?s = Some t \<or> t \<in> set (switch_nexts ?s)"
      using leads assms(3,5) unfolding lint_blind_def leads_to_def by auto
    then show "(step_names d ! i, t) \<in> lint_edges (pf_steps pf)" by (rule target_edge[OF assms(1,2) t(2)]) }
qed

lemma blind_free_cap:
  assumes "\<not> lint_blind s" "per_step_cap s N \<le> k" "k < unat N"
  shows "explicit_next s = None" "\<not> is_return s"
  using assms by (auto simp: lint_blind_def per_step_cap_def split: option.splits)

lemma counted_bound:
  assumes "\<And>x. opt_or (map_of recs x) 0 + Suc budget \<le> N"
  shows "opt_or (map_of (loop_counted d idx recs) x) 0 + budget \<le> N"
  using assms[of x] assms[of "step_names d ! idx"] by (simp add: loop_counted_def update_conv')

text \<open>Two DSLs with the same step names whose loops agree on every index in \<open>ok\<close> agree after a step that leads there.\<close>

lemma loop_after_same:
  assumes names: "step_names d' = step_names d"
    and same: "\<And>i c w. i \<in> ok \<Longrightarrow> run_loop E run d' budget i (loop_counted d idx recs) c w = run_loop E run d budget i (loop_counted d idx recs) c w"
    and fall: "\<not> should_return r \<Longrightarrow> next_step r = None \<Longrightarrow> Suc idx \<in> ok"
    and jump: "\<And>t i. \<not> should_return r \<Longrightarrow> next_step r = Some t \<Longrightarrow> t \<noteq> ''end'' \<Longrightarrow> position t (step_names d) = Some i \<Longrightarrow> i \<in> ok"
  shows "loop_after E run d' budget idx recs s r c w = loop_after E run d budget idx recs s r c w"
proof (cases "should_return r")
  case False
  have counted: "loop_counted d' idx recs = loop_counted d idx recs" by (simp add: loop_counted_def names)
  have "loop_next E run d' budget idx (loop_counted d idx recs) r c w = loop_next E run d budget idx (loop_counted d idx recs) r c w" for c w
  proof (cases "next_step r")
    case None
    then show ?thesis using same fall[OF False] by (simp add: loop_next_def)
  next
    case (Some t)
    then show ?thesis using same jump[OF False Some] by (simp add: loop_next_def names split: option.splits)
  qed
  then show ?thesis unfolding loop_after_def if_not_P[OF False] counted by (intro bindc_cong)
qed (simp add: loop_after_def)

lemma dead_step_loop:
  assumes reads: "lint_reads pf d" and plain: "\<forall>(_, s) \<in> set (dsl_steps d). \<not> lint_blind s"
    and names: "step_names d' = step_names d" and same: "\<And>x. x \<noteq> n \<Longrightarrow> get_step d' x = get_step d x"
    and dead: "(entry, n) \<notin> (lint_edges (pf_steps pf))\<^sup>*"
  defines "ok \<equiv> {i. i < length (dsl_steps d) \<longrightarrow> (entry, step_names d ! i) \<in> (lint_edges (pf_steps pf))\<^sup>*}"
  shows "idx \<in> ok \<Longrightarrow> (\<And>x. opt_or (map_of recs x) 0 + budget \<le> unat (max_iterations E)) \<Longrightarrow>
    run_loop E run d' budget idx recs c w = run_loop E run d budget idx recs c w"
proof (induction budget arbitrary: idx recs c w)
  case (Suc budget)
  have dist: "distinct (step_names d)" using reads by (simp add: lint_reads_def)
  show ?case
  proof (cases "idx < length (dsl_steps d)")
    case idx: True
    let ?m = "step_names d ! idx" and ?s = "snd (dsl_steps d ! idx)"
    have here: "(entry, ?m) \<in> (lint_edges (pf_steps pf))\<^sup>*" using Suc.prems(1) idx by (simp add: ok_def)
    then have "get_step d' ?m = Some ?s" using same dead step_at[OF dist idx] by metis
    then have step: "get_step d' (step_names d' ! idx) = Some ?s" by (simp add: names)
    have nb: "\<not> lint_blind ?s" using bspec[OF plain nth_mem[OF idx]] by (simp add: case_prod_unfold)
    have lt: "\<not> length (step_names d) \<le> idx" using idx by (simp add: step_names_def)
    have reach: "(entry, t) \<in> (lint_edges (pf_steps pf))\<^sup>*" if "(?m, t) \<in> lint_edges (pf_steps pf)" for t
      using here that by (rule rtrancl_into_rtrancl)
    have cnt: "opt_or (map_of recs ?m) 0 < unat (max_iterations E)" using Suc.prems(2)[of ?m] by simp
    note unfold = run_loop_step[OF step] run_loop_step[OF step_at[OF dist idx]] names if_not_P[OF lt]
    show ?thesis
    proof (cases "per_step_cap ?s (max_iterations E) \<le> opt_or (map_of recs ?m) 0")
      case cap: True
      have "Suc idx \<in> ok" using reach fall_edge[OF reads _ blind_free_cap[OF nb cap cnt]] by (simp add: ok_def)
      then have "run_loop E run d' budget (Suc idx) recs c w = run_loop E run d budget (Suc idx) recs c w"
        by (rule Suc.IH) (use Suc.prems(2) in \<open>simp add: le_SucI Suc_leD\<close>)
      then show ?thesis unfolding unfold if_P[OF cap] .
    next
      case cap: False
      have "loop_after E run d' budget idx recs ?s r c1 w1 = loop_after E run d budget idx recs ?s r c1 w1"
        if r: "run_step E run ?m ?s c w = Some (Inr r, c1, w1)" for r c1 w1
      proof (rule loop_after_same[OF names, where ok = ok])
        show "run_loop E run d' budget i (loop_counted d idx recs) c w = run_loop E run d budget i (loop_counted d idx recs) c w"
          if "i \<in> ok" for i c w by (rule Suc.IH[OF that counted_bound[OF Suc.prems(2)]])
        show "Suc idx \<in> ok" if "\<not> should_return r" "next_step r = None"
          using reach blind_free_edge(1)[OF reads idx nb r that] by (simp add: ok_def)
        show "i \<in> ok" if "\<not> should_return r" "next_step r = Some t" "t \<noteq> ''end''" "position t (step_names d) = Some i" for t i
          using reach blind_free_edge(2)[OF reads idx nb r that(1-3)] position_Some[OF that(4)] by (simp add: ok_def)
      qed
      then show ?thesis unfolding unfold if_not_P[OF cap] by (rule bindc_cong)
    qed
  next
    case False
    then have "length (step_names d) \<le> idx" by (simp add: step_names_def)
    then show ?thesis by (simp add: run_loop.simps names)
  qed
qed (simp add: run_loop.simps)

section \<open>Properties\<close>

text \<open>
  C26. A DSL the linter has no error for never jumps into nothing: when the linter and the engine read the same
  steps and no \<open>error\<close> target is misspelt (which the linter does not check), no run of the DSL ends with the error
  that a step names a next step that does not exist.
\<close>

theorem lint_clean_targets_exist:
  assumes "lint_reads pf d" "\<forall>m. (LintError, m) \<notin> set (fst (lint_check_dsl constants known pf))"
    and "\<forall>(_, s) \<in> set (dsl_steps d). error_next s = None \<or> error_next s = Some ''end'' \<or> the (error_next s) \<in> set (step_names d)"
    and "engine_run k E d c w = Some (Inl e, c', w')"
  shows "e \<noteq> DslExecution name (InStep (UnknownNext name t))"
  using assms(4) run_loop_resolves[OF assms(1-3)] by (cases k) (auto simp: run_with_def)

definition http_to :: "string \<Rightarrow> string option \<Rightarrow> string option \<Rightarrow> dsl_step" where
  "http_to verb n err = HttpCall \<lparr>hs_call = verb, hs_args = \<lparr>ha_url = ''http://h/'', ha_body = None, ha_query = None,
       ha_headers = None, ha_content_type = None\<rparr>, hs_result = None, hs_next = n, hs_error = err, hs_timeout = None,
     hs_base = no_base\<rparr>"

definition parsed :: "string \<Rightarrow> string \<Rightarrow> string option \<Rightarrow> parsed_step" where
  "parsed name kind n = \<lparr>lp_name = name, lp_kind = kind, lp_next = n, lp_switch_targets = []\<rparr>"

definition file_of :: "parsed_step list \<Rightarrow> parsed_file" where
  "file_of ps = \<lparr>pf_entry = Some (lp_name (hd ps)), pf_steps = ps, pf_raw = [], pf_template_targets = [], pf_has_proxy = False\<rparr>"

definition failing_dsl :: dsl where
  "failing_dsl = dsl_new [(''a'', http_to ''nothing'' (Some ''b'') None), (''b'', return_of (JString ''ok'') 200)]"

definition failing_file :: parsed_file where
  "failing_file = file_of [parsed ''a'' ''call'' (Some ''b''), parsed ''b'' ''return'' None]"

lemma failing_facts:
  "lint_reads failing_file failing_dsl" "fst (lint_check_dsl [] [] failing_file) = []"
  by (simp add: lint_reads_def failing_file_def failing_dsl_def file_of_def parsed_def dsl_new_def step_agrees_def http_to_def
      return_of_def is_return_def step_names_def) code_simp

lemma failing_run:
  "\<exists>e c' w'. engine_run 1 sample_engine failing_dsl sample_ctx sample_world = Some (Inl e, c', w')"
  by (simp add: run_eval failing_dsl_def http_to_def exec_http_def parse_method_def invalid_step_def)

theorem lint_clean_targets_exist_witness:
  "\<exists>e c' w'. engine_run 1 sample_engine failing_dsl sample_ctx sample_world = Some (Inl e, c', w') \<and>
     e \<noteq> DslExecution ''a'' (InStep (UnknownNext ''a'' ''b''))"
proof -
  obtain e c' w' where run: "engine_run 1 sample_engine failing_dsl sample_ctx sample_world = Some (Inl e, c', w')"
    using failing_run by blast
  have "\<forall>(_, s) \<in> set (dsl_steps failing_dsl). error_next s = None \<or> error_next s = Some ''end'' \<or> the (error_next s) \<in> set (step_names failing_dsl)"
    by (simp add: failing_dsl_def dsl_new_def http_to_def return_of_def)
  from lint_clean_targets_exist[OF failing_facts(1) _ this run, of "[]" "[]"] run failing_facts(2) show ?thesis by simp
qed

text \<open>
  C25. What the linter calls unreachable is dead code: when the linter and the engine read the same steps, and no step
  has an \<open>error\<close> target or, where it does not fall through, \<open>skip\<close> or \<open>max_recursions\<close>, then putting any other step in
  the place of one that is reported as not reachable changes no run of the DSL.
\<close>

theorem lint_unreachable_is_dead:
  assumes "lint_reads pf d" "pf_entry pf = Some entry"
    and "(LintWarning, NotReachable n entry) \<in> set (fst (lint_check_dsl constants known pf))"
    and "\<forall>(_, s) \<in> set (dsl_steps d). \<not> lint_blind s"
  shows "engine_run k E (d\<lparr>dsl_steps := hm_insert n s' (dsl_steps d)\<rparr>) c w = engine_run k E d c w"
proof (cases k)
  case (Suc j)
  let ?d = "d\<lparr>dsl_steps := hm_insert n s' (dsl_steps d)\<rparr>"
  have "snd (lint_check_dsl constants known pf)" using assms(3) by (auto simp: lint_check_dsl_def split: if_splits)
  then obtain s where s: "s \<in> set (pf_steps pf)" "lp_name s = n" and dead: "(entry, n) \<notin> (lint_edges (pf_steps pf))\<^sup>*"
    using assms(3) not_reachable_reported[OF assms(2)] by blast
  have "n \<in> set (step_names d)" using s reads_names[OF assms(1)] by (metis imageI set_map)
  then have names: "step_names ?d = step_names d" by (simp add: step_names_def update_keys)
  have same: "get_step ?d x = get_step d x" if "x \<noteq> n" for x using that by (simp add: get_step_def update_conv')
  have "entry = step_names d ! 0" using assms(1,2) by (auto simp: lint_reads_def step_names_def hd_conv_nth)
  then have "run_loop E (engine_run j E) ?d (unat (max_iterations E)) 0 [] c w = run_loop E (engine_run j E) d (unat (max_iterations E)) 0 [] c w"
    by (intro dead_step_loop[OF assms(1,4) names same dead]) simp_all
  then show ?thesis by (simp add: Suc run_with_def)
qed simp

definition stray_dsl :: dsl where
  "stray_dsl = dsl_new [(''a'', return_of (JString ''ok'') 200), (''b'', http_to ''http.get'' None None)]"

lemma stray_facts:
  "lint_reads (file_of [parsed ''a'' ''return'' None, parsed ''b'' ''call'' None]) stray_dsl"
  "(LintWarning, NotReachable ''b'' ''a'') \<in> set (fst (lint_check_dsl [] [] (file_of [parsed ''a'' ''return'' None, parsed ''b'' ''call'' None])))"
  "\<forall>(_, s) \<in> set (dsl_steps stray_dsl). \<not> lint_blind s"
  by (simp add: lint_reads_def stray_dsl_def file_of_def parsed_def dsl_new_def step_agrees_def http_to_def return_of_def is_return_def step_names_def)
    (code_simp, simp add: stray_dsl_def dsl_new_def lint_blind_def http_to_def return_of_def is_return_def is_skipped_def no_base_def)

theorem lint_unreachable_is_dead_witness:
  "\<forall>k E c w. engine_run k E (stray_dsl\<lparr>dsl_steps := hm_insert ''b'' (return_of JNull 500) (dsl_steps stray_dsl)\<rparr>) c w =
     engine_run k E stray_dsl c w"
  using lint_unreachable_is_dead[OF stray_facts(1) _ stray_facts(2,3)] by (simp add: file_of_def parsed_def)

text \<open>
  Why the \<open>error\<close> target matters: the handler of a failed call is reported as not reachable, though the step
  passes control to it.
\<close>

lemma error_handler_called_unreachable:
  "(LintWarning, NotReachable ''b'' ''a'') \<in> set (fst (lint_check_dsl [] []
     (file_of [parsed ''a'' ''call'' (Some ''end''), parsed ''b'' ''return'' None])))"
  "hr_error r \<noteq> None \<Longrightarrow> hs_error s = Some ''b'' \<Longrightarrow> after_response E run s r = continue_with (Some ''b'')"
  by code_simp (simp add: after_response_def)

end
