(* ===== verification/Client_Setup.thy ===== *)
theory Client_Setup
  imports Boot
begin

text \<open>
  How an outbound client is put together (\<open>src/http_client/mod.rs\<close>): the bare client of tests, the builders, the handler of
  self-calls, the client that is pinned to checked addresses, the classes of transport errors and the two
  environment variables that change what a client does. The client builder of crate \<open>reqwest\<close> is a parameter.
\<close>

section \<open>Construction\<close>

definition client_with_timeout_ms :: "bool \<Rightarrow> http_client" where
  "client_with_timeout_ms off = \<lparr>response_size_limit = None, status_allow_list = [], outbound_disabled = False,
     allowed_url_prefixes = [], allowed_ip_hosts = [], block_private_networks = False, unix_socket_map = [], self_tcp = [],
     offline = off\<rparr>"

definition with_unix_socket_map :: "string hmap \<Rightarrow> http_client \<Rightarrow> http_client" where
  "with_unix_socket_map m C = C\<lparr>unix_socket_map := m\<rparr>"

definition with_response_size_limit :: "nat option \<Rightarrow> http_client \<Rightarrow> http_client" where
  "with_response_size_limit limit C = C\<lparr>response_size_limit := limit\<rparr>"

text \<open>A cell that is written once: the second handler is ignored.\<close>

definition set_self_call_handler :: "'h \<Rightarrow> 'h option \<Rightarrow> 'h option" where
  "set_self_call_handler h cell = (case cell of None \<Rightarrow> Some h | Some h0 \<Rightarrow> Some h0)"

section \<open>Pinning\<close>

text \<open>
  \<open>resolve\<close> is \<open>ClientBuilder::resolve\<close>, \<open>fresh\<close> a builder with the timeout of the request and no redirects, \<open>shared\<close> the pooled client.
\<close>

definition build_pinned_client ::
  "(string \<Rightarrow> ip_addr \<Rightarrow> 'b \<Rightarrow> 'b) \<Rightarrow> ('b \<Rightarrow> string + 'c) \<Rightarrow> 'b \<Rightarrow> 'c \<Rightarrow> ssrf_resolution \<Rightarrow> 'c result" where
  "build_pinned_client resolve build fresh shared r =
     (case r of
        NoPinning \<Rightarrow> Inr shared
      | Pinned host addrs \<Rightarrow>
          (case build (fold (resolve host) addrs fresh) of
             Inl e \<Rightarrow> Inl (HttpRequest (Text (''failed to build DNS-pinned client for '' @ host @ '': '' @ e)))
           | Inr c \<Rightarrow> Inr c))"

section \<open>Errors and environment\<close>

record transport_error =
  te_timeout :: bool
  te_connect :: bool
  te_request :: bool
  te_body :: bool
  te_decode :: bool

definition classify_transport_error :: "transport_error \<Rightarrow> string" where
  "classify_transport_error e =
     (if te_timeout e then ''timeout'' else if te_connect e then ''connect'' else if te_request e then ''request''
      else if te_body e then ''body'' else if te_decode e then ''decode'' else ''unknown'')"

definition ruuter_offline_env_active :: "string option \<Rightarrow> bool" where
  "ruuter_offline_env_active env =
     (case env of None \<Rightarrow> False | Some v \<Rightarrow> to_ascii_lowercase (trim v) \<in> {''true'', ''1'', ''yes'', ''on''})"

definition rewrite_env_is_active_in_release :: "bool \<Rightarrow> bool \<Rightarrow> string option \<Rightarrow> bool" where
  "rewrite_env_is_active_in_release debug_build dev_feature env =
     (dev_feature \<and> \<not> debug_build \<and> (case env of None \<Rightarrow> False | Some v \<Rightarrow> v \<noteq> []))"

section \<open>Lemmas\<close>

text \<open>The first handler stays, however often another one is offered.\<close>

lemma first_handler_stays: "fold set_self_call_handler (h # hs) None = Some h"
  by (induction hs) (simp_all add: set_self_call_handler_def)

text \<open>
  \<open>ClientBuilder::resolve\<close> overrides what an earlier call said about the same host, so of the checked addresses the pinned
  client has the last one only: still a checked one, but the others are no fallback.
\<close>

lemma pinned_to_last:
  assumes "\<And>h a b c. resolve h a (resolve h b c) = resolve h a c" "addrs \<noteq> []"
  shows "build_pinned_client resolve Inr fresh shared (Pinned host addrs) = Inr (resolve host (last addrs) fresh) \<and> last addrs \<in> set addrs"
proof -
  have "fold (resolve host) as c = resolve host (last as) c" if "as \<noteq> []" for as c
    using that
  proof (induction as arbitrary: c)
    case (Cons a as)
    then show ?case by (cases "as = []") (simp_all add: assms(1))
  qed simp
  then show ?thesis using assms(2) by (simp add: build_pinned_client_def)
qed

end
