(* ===== verification/Test_Matcher.thy ===== *)
theory Test_Matcher
  imports Boot
begin

text \<open>
  The JSON matchers of the DSL test runner (\<open>src/testkit/matcher.rs\<close>): exact equality, and the subset match with
  wildcards that \<open>body_matches\<close>, \<open>verify_state\<close>, \<open>verify_mocks\<close> and \<open>expect_frames\<close> use. The regular expressions (crate \<open>regex\<close>) are a
  parameter: \<open>None\<close> is a pattern that does not compile.

  Numbers are compared as doubles with a tolerance of \<open>1e-9\<close>; conversion and subtraction round to 53 bits, ties
  to even. The lemmas show that a value without wildcards matches itself and that a match survives
  more fields in the actual object.
\<close>

section \<open>Numbers\<close>

definition f64_round :: "int \<Rightarrow> int \<Rightarrow> int \<times> int" where
  "f64_round m e =
     (let a = nat \<bar>m\<bar>; k = bits a - 53 in
      if k = 0 then (m, e) else (sgn m * int (round_half_even a (2 ^ k)), e + int k))"

fun as_f64 :: "number \<Rightarrow> int \<times> int" where
  "as_f64 (PosInt w) = f64_round (uint w) 0"
| "as_f64 (NegInt i) = f64_round i 0"
| "as_f64 (Float m e) = (m, e)"

definition f64_sub :: "int \<times> int \<Rightarrow> int \<times> int \<Rightarrow> int \<times> int" where
  "f64_sub x y =
     (case (x, y) of ((m1, e1), (m2, e2)) \<Rightarrow>
        (let e = min e1 e2 in f64_round (m1 * 2 ^ nat (e1 - e) - m2 * 2 ^ nat (e2 - e)) e))"

text \<open>\<open>x.abs() < 1e-9\<close>; the double \<open>1e-9\<close> is \<open>4835703278458517 * 2^-82\<close>.\<close>

definition below_tolerance :: "int \<times> int \<Rightarrow> bool" where
  "below_tolerance x =
     (case x of (m, e) \<Rightarrow> (let d = min e (-82) in \<bar>m\<bar> * 2 ^ nat (e - d) < 4835703278458517 * 2 ^ nat (-82 - d)))"

section \<open>Matching\<close>

definition deep_equal :: "json \<Rightarrow> json \<Rightarrow> bool" where
  "deep_equal a b \<longleftrightarrow> a = b"

definition type_matches :: "string \<Rightarrow> json \<Rightarrow> bool" where
  "type_matches t v =
     (if t = ''string'' then (case v of JString _ \<Rightarrow> True | _ \<Rightarrow> False)
      else if t = ''number'' then (case v of JNumber _ \<Rightarrow> True | _ \<Rightarrow> False)
      else if t = ''bool'' \<or> t = ''boolean'' then (case v of JBool _ \<Rightarrow> True | _ \<Rightarrow> False)
      else if t = ''object'' then (case v of JObject _ \<Rightarrow> True | _ \<Rightarrow> False)
      else if t = ''array'' then (case v of JArray _ \<Rightarrow> True | _ \<Rightarrow> False)
      else if t = ''null'' then v = JNull
      else t = ''any'')"

text \<open>The wildcards of an expected string: what they say of the actual value, \<open>None\<close> when there is none.\<close>

definition wildcard :: "(string \<Rightarrow> string \<Rightarrow> bool option) \<Rightarrow> string \<Rightarrow> json \<Rightarrow> bool option" where
  "wildcard rx s v =
     (if s = ''***'' then Some True
      else case strip_prefix ''$type:'' s of
          Some t \<Rightarrow> Some (type_matches t v)
        | None \<Rightarrow>
            (case strip_prefix ''$regex:'' s of
               Some pat \<Rightarrow> Some (case v of JString t \<Rightarrow> opt_or (rx pat t) False | _ \<Rightarrow> False)
             | None \<Rightarrow> None))"

fun subset_matches :: "(string \<Rightarrow> string \<Rightarrow> bool option) \<Rightarrow> json \<Rightarrow> json \<Rightarrow> bool" where
  "subset_matches rx (JString s) v = (case wildcard rx s v of Some b \<Rightarrow> b | None \<Rightarrow> JString s = v)"
| "subset_matches rx (JObject e) (JObject a) =
     list_all (\<lambda>(k, ev). case map_of a k of Some av \<Rightarrow> subset_matches rx ev av | None \<Rightarrow> False) e"
| "subset_matches rx (JArray e) (JArray a) = list_all2 (subset_matches rx) e a"
| "subset_matches rx (JNumber e) (JNumber a) = below_tolerance (f64_sub (as_f64 e) (as_f64 a))"
| "subset_matches rx e a \<longleftrightarrow> e = a"

section \<open>Lemmas\<close>

lemma tolerance_zero: "below_tolerance (f64_sub x x)"
proof -
  obtain m e where "x = (m, e)" by (cases x)
  moreover have "bits 0 = 0" by (simp add: bits.simps)
  ultimately show ?thesis by (simp add: f64_sub_def f64_round_def below_tolerance_def Let_def)
qed

text \<open>A value that uses no wildcard anywhere, and whose objects have each key once.\<close>

fun plain :: "json \<Rightarrow> bool" where
  "plain (JString s) \<longleftrightarrow> s \<noteq> ''***'' \<and> strip_prefix ''$type:'' s = None \<and> strip_prefix ''$regex:'' s = None"
| "plain (JObject m) \<longleftrightarrow> distinct (map fst m) \<and> list_all (\<lambda>(_, v). plain v) m"
| "plain (JArray a) \<longleftrightarrow> list_all plain a"
| "plain _ \<longleftrightarrow> True"

lemma plain_matches_itself: "plain v \<Longrightarrow> subset_matches rx v v"
proof (induction v)
  case (JArray a)
  then show ?case by (auto simp: list_all_iff list_all2_same)
next
  case (JObject m)
  have "case map_of m k of Some av \<Rightarrow> subset_matches rx v av | None \<Rightarrow> False" if kv: "(k, v) \<in> set m" for k v
  proof -
    have "map_of m k = Some v" using JObject.prems kv by simp
    moreover have "plain v" using JObject.prems kv by (auto simp: list_all_iff)
    ultimately show ?thesis using JObject.IH[of "(k, v)" v] kv by simp
  qed
  then show ?case by (auto simp: list_all_iff)
qed (auto simp: wildcard_def tolerance_zero)

lemma match_more_fields:
  assumes "subset_matches rx (JObject e) (JObject a)" "\<And>k v. map_of a k = Some v \<Longrightarrow> map_of a' k = Some v"
  shows "subset_matches rx (JObject e) (JObject a')"
proof -
  have "case map_of a' k of Some av \<Rightarrow> subset_matches rx ev av | None \<Rightarrow> False" if "(k, ev) \<in> set e" for k ev
  proof -
    have "case map_of a k of Some av \<Rightarrow> subset_matches rx ev av | None \<Rightarrow> False"
      using assms(1) that by (auto simp: list_all_iff)
    then obtain av where "map_of a k = Some av" "subset_matches rx ev av" by (cases "map_of a k") simp_all
    then show ?thesis using assms(2) by simp
  qed
  then show ?thesis by (auto simp: list_all_iff)
qed

lemma bits_le: "n < 2 ^ k \<Longrightarrow> bits n \<le> k"
proof (induction k arbitrary: n)
  case (Suc k)
  have "bits (n div 2) \<le> k" using Suc.prems by (intro Suc.IH) simp
  then show ?case by (subst bits.simps) simp
qed (simp add: bits.simps)

lemma f64_round_small: "\<bar>m\<bar> < 2 ^ 53 \<Longrightarrow> f64_round m e = (m, e)"
  using bits_le[of "nat \<bar>m\<bar>" 53] by (simp add: f64_round_def nat_less_iff)

lemma f64_round_tie:
  "f64_round 9007199254740992 0 = (4503599627370496, 1)" "f64_round 9007199254740993 0 = (4503599627370496, 1)"
  unfolding f64_round_def Let_def by (simp_all add: bits.simps round_half_even_def)

text \<open>
  Integers and floats of the same value match, and so do different integers that are the same double: the
  comparison is not the deep equality of scalars.
\<close>

lemma number_variants_match:
  "subset_matches rx (JNumber (PosInt 400)) (JNumber (Float 400 0))"
  "\<not> subset_matches rx (JNumber (PosInt 400)) (JNumber (PosInt 401))"
  "subset_matches rx (JNumber (PosInt 9007199254740992)) (JNumber (PosInt 9007199254740993))"
  by (simp_all add: f64_sub_def f64_round_small f64_round_tie below_tolerance_def)

end
