(* ===== verification/App_Layers.thy ===== *)
theory App_Layers
  imports Boot
begin

text \<open>
  The app around the handler (\<open>build_axum_router_from_arc\<close> and \<open>build_cors_layer\<close> of \<open>src/router/mod.rs\<close>): the public routes, the CORS
  layer and the deadline of a request. What the layers do with a request is the library's (crate \<open>tower_http\<close>); which layers
  there are, and with which settings, is decided here. \<open>valid\<close> says which texts are header values (crate \<open>http\<close>).
\<close>

record cors_layer =
  cl_origins :: "string list"
  cl_methods :: "string list"
  cl_headers :: "string list"
  cl_credentials :: bool

definition build_cors_layer :: "(string \<Rightarrow> bool) \<Rightarrow> cors_config \<Rightarrow> cors_layer option" where
  "build_cors_layer valid cfg =
     (let origins = filter valid (cors_allowed_origins cfg) in
      if cors_allowed_origins cfg = [] \<or> origins = [] then None
      else Some \<lparr>cl_origins = origins, cl_methods = [''GET'', ''POST'', ''PUT'', ''PATCH'', ''DELETE'', ''OPTIONS''],
        cl_headers = [''content-type'', ''authorization'', ''if-match'', ''traceparent''],
        cl_credentials = cors_allow_credentials cfg\<rparr>)"

datatype app_layer = Cors cors_layer | Deadline u64

text \<open>The layers from the inside to the outside.\<close>

definition app_layers :: "(string \<Rightarrow> bool) \<Rightarrow> app_config \<Rightarrow> app_layer list" where
  "app_layers valid c =
     (case build_cors_layer valid (cfg_cors c) of Some l \<Rightarrow> [Cors l] | None \<Rightarrow> []) @
     (case ir_request_timeout_ms (cfg_incoming_requests c) of Some ms \<Rightarrow> [Deadline ms] | None \<Rightarrow> [])"

text \<open>The public routes: the health check, with the handler of DSL routes behind everything else.\<close>

definition app_request ::
  "router \<Rightarrow> runner \<Rightarrow> request \<Rightarrow> world \<Rightarrow> semaphores \<Rightarrow> (handled \<times> world \<times> semaphores) option" where
  "app_request R run rq w sems =
     (if in_path rq = ''/health'' then
        Some (Answered (if in_method rq \<in> {''GET'', ''HEAD''} then json_reply 200 health_check
          else \<lparr>rp_status = 405, rp_headers = [(''allow'', ''GET,HEAD'')], rp_body = ReplyText []\<rparr>) None, w, sems)
      else handle_request R run rq w sems)"

text \<open>
  Cross-origin calls are never opened by accident: a layer names only configured origins, never a wildcard that
  was not configured, allows credentials only where configured, and without configuration there is none.
\<close>

lemma cors_only_as_configured:
  "build_cors_layer valid cfg = Some l \<Longrightarrow> cl_origins l \<noteq> [] \<and> set (cl_origins l) \<subseteq> set (cors_allowed_origins cfg) \<and>
     list_all valid (cl_origins l) \<and> cl_credentials l = cors_allow_credentials cfg"
  "app_layers valid app_config_default = [Deadline 30000]"
  by (auto simp: build_cors_layer_def Let_def list_all_iff app_layers_def app_config_default_def cors_default_def
      incoming_requests_default_def split: if_splits)

end
