(* ===== verification/Dsl_Test.thy ===== *)
theory Dsl_Test
  imports Test_Matcher Dsl_Lint App_Layers
begin

text \<open>
  The DSL test runner \<open>dsl-test\<close>: the schema of test files (\<open>src/testkit/schema.rs\<close>), the mock upstream
  (\<open>src/testkit/mock_http.rs\<close>), the harness that sends a request through the real router (\<open>src/testkit/harness.rs\<close>) and the
  runner with its four modes, its summary and its exit code (\<open>src/bin/dsl_test.rs\<close>).

  The HTTP, URL and JSON libraries are parameters (\<open>test_params\<close>): building a request, percent-encoding, what of an
  outbound call arrives at the mock, and the frames a WebSocket client receives. A run of a DSL may exhaust its
  fuel, and seeding a full store panics in the source; both are \<open>None\<close>.

  The properties say what a green scenario means, and that the exit code tells whether all of them were green.
\<close>

section \<open>Schema\<close>

datatype test_mode = Inprocess | MockHttp | WsClient | TriggerInject

record test_request =
  tr_method :: string
  tr_path :: string
  tr_query :: "json hmap"
  tr_headers :: "string hmap"
  tr_body :: "json option"
  tr_origin :: "string option"

record ws_scenario =
  wsc_path :: string
  wsc_query :: "string hmap"
  wsc_headers :: "string hmap"
  wsc_send :: "json list"
  wsc_expect_frames :: "json list"
  wsc_timeout_ms :: "u64 option"

record trigger_scenario =
  ts_project :: string
  ts_channel :: string
  ts_key :: string
  ts_payload :: json
  ts_expect_dispatched :: bool

record expect_http =
  ex_status :: "u16 option"
  ex_body :: "json option"
  ex_body_matches :: "json option"
  ex_headers :: "string hmap"
  ex_header_present :: "string list"
  ex_header_absent :: "string list"

record state_seed =
  sd_project :: string
  sd_key :: string
  sd_value :: json

record state_assertion =
  sa_project :: string
  sa_key :: string
  sa_value :: json

record mock_upstream =
  mu_url_matches :: string
  mu_method :: string
  mu_status :: u16
  mu_body :: "json option"
  mu_headers :: "string hmap"

record mock_assertion =
  ma_url_matches :: string
  ma_count :: nat
  ma_body_matches :: "json option"

record scenario_setup =
  su_state :: "state_seed list"
  su_mocks :: "mock_upstream list"

record scenario =
  sc_name :: string
  sc_request :: "test_request option"
  sc_ws :: "ws_scenario option"
  sc_trigger :: "trigger_scenario option"
  sc_expect :: "expect_http option"
  sc_setup :: "scenario_setup option"
  sc_verify_state :: "state_assertion list"
  sc_verify_mocks :: "mock_assertion list"

record test_file =
  tf_mode :: test_mode
  tf_constants :: "string hmap"
  tf_http_rewrite :: "string hmap"
  tf_tests :: "scenario list"

definition expect_default :: expect_http where
  "expect_default = \<lparr>ex_status = None, ex_body = None, ex_body_matches = None, ex_headers = [],
     ex_header_present = [], ex_header_absent = []\<rparr>"

text \<open>Each message of the runner.\<close>

datatype test_failure =
    MissingRequest | MissingWs | MissingTrigger
  | RouterFailed string
  | StatusDiffers u16 u16
  | BodyDiffers | BodyNotSubset
  | HeaderDiffers string | HeaderMissing string | HeaderNotPresent string | HeaderNotAbsent string
  | StateNotMissing string string | StateNotSubset string string | StateMissing string string
  | MockCount nat nat | MockBodyDiffers nat
  | DispatchFailed ruuter_error | DispatchedDiffers bool bool
  | LoadFailed | HarnessFailed
  | WsConnect string | WsRecv string | WsFrames nat nat | WsFrameDiffers nat

record test_params =
  tp_regex :: "string \<Rightarrow> string \<Rightarrow> bool option"
  tp_encode :: "string \<Rightarrow> string"
  tp_request :: "string \<Rightarrow> string \<Rightarrow> string hmap \<Rightarrow> string \<Rightarrow> string + request"
  tp_lossy :: "string \<Rightarrow> string"
  tp_wire :: "http_request \<Rightarrow> (string \<times> string \<times> string) option"

text \<open>A loop that returns the first error.\<close>

fun each_ok :: "('a \<Rightarrow> 'e + unit) \<Rightarrow> 'a list \<Rightarrow> 'e + unit" where
  "each_ok f [] = Inr ()"
| "each_ok f (x # xs) = bindr (f x) (\<lambda>_. each_ok f xs)"

section \<open>Mock upstream\<close>

record call_record =
  cr_method :: string
  cr_url :: string
  cr_body :: json

record mock_server =
  ms_mocks :: "mock_upstream list"
  ms_calls :: "call_record list"

definition mock_new :: mock_server where
  "mock_new = \<lparr>ms_mocks = [], ms_calls = []\<rparr>"

definition mock_register :: "mock_upstream list \<Rightarrow> mock_server \<Rightarrow> mock_server" where
  "mock_register ms m = m\<lparr>ms_mocks := ms_mocks m @ ms\<rparr>"

definition mock_reset_calls :: "mock_server \<Rightarrow> mock_server" where
  "mock_reset_calls m = m\<lparr>ms_calls := []\<rparr>"

definition mock_clear :: "mock_server \<Rightarrow> mock_server" where
  "mock_clear m = m\<lparr>ms_mocks := [], ms_calls := []\<rparr>"

definition mock_assert :: "test_params \<Rightarrow> mock_server \<Rightarrow> mock_assertion \<Rightarrow> test_failure + unit" where
  "mock_assert P m a =
     (let matching = filter (\<lambda>c. contains_str (cr_url c) (ma_url_matches a)) (ms_calls m) in
      bindr (ensure (length matching = ma_count a) (MockCount (ma_count a) (length matching))) (\<lambda>_.
      case ma_body_matches a of
        None \<Rightarrow> Inr ()
      | Some expected \<Rightarrow>
          each_ok (\<lambda>(i, c). ensure (subset_matches (tp_regex P) expected (cr_body c)) (MockBodyDiffers i))
            (List.enumerate 0 matching)))"

text \<open>Bytes as JSON: null when there are none, a string when they are not JSON.\<close>

definition bytes_json :: "test_params \<Rightarrow> router \<Rightarrow> string \<Rightarrow> json" where
  "bytes_json P R b =
     (if b = [] then JNull
      else case json_from_slice (rt_inbound R) b of Inr v \<Rightarrow> v | Inl _ \<Rightarrow> JString (tp_lossy P b))"

text \<open>The handler records the call, then answers with the first mock that fits, or with 599.\<close>

definition mock_handle ::
  "test_params \<Rightarrow> router \<Rightarrow> string \<Rightarrow> string \<Rightarrow> string \<Rightarrow> mock_server \<Rightarrow> reply \<times> mock_server" where
  "mock_handle P R meth url body m =
     (let m' = m\<lparr>ms_calls := ms_calls m @ [\<lparr>cr_method = meth, cr_url = url, cr_body = bytes_json P R body\<rparr>]\<rparr> in
      (case find (\<lambda>u. contains_str url (mu_url_matches u) \<and> eq_ignore_ascii_case (mu_method u) meth) (ms_mocks m) of
         None \<Rightarrow> json_reply 599 (json_object [(''error'', JString ''no mock registered''),
           (''method'', JString meth), (''url'', JString url)])
       | Some u \<Rightarrow>
           (let status = status_or (mu_status u) 200;
                r = (case mu_body u of Some b \<Rightarrow> json_reply status b
                     | None \<Rightarrow> \<lparr>rp_status = status, rp_headers = [], rp_body = ReplyText []\<rparr>)
            in r\<lparr>rp_headers := insert_valid R (mu_headers u) (rp_headers r)\<rparr>), m'))"

text \<open>The calls of a run that arrive at the mock, in order.\<close>

fun mock_serve :: "test_params \<Rightarrow> router \<Rightarrow> http_request list \<Rightarrow> mock_server \<Rightarrow> mock_server" where
  "mock_serve P R [] m = m"
| "mock_serve P R (rq # rqs) m =
     mock_serve P R rqs (case tp_wire P rq of
         None \<Rightarrow> m
       | Some (meth, url, body) \<Rightarrow> snd (mock_handle P R meth url body m))"

section \<open>Harness\<close>

record harness =
  hn_router :: router
  hn_triggers :: trigger_dsls
  hn_world :: world
  hn_sems :: semaphores

record harness_response =
  hp_status :: u16
  hp_body :: json
  hp_headers :: "string hmap"

text \<open>
  The libraries behind the router are those of \<open>R0\<close>; configuration, client, step budget and guard mode come from
  \<open>c\<close>, the trees from the files. The store of a harness has no cap.
\<close>

definition build_with_config ::
  "router \<Rightarrow> serde_params \<Rightarrow> (string \<Rightarrow> fs_node) \<Rightarrow> app_config \<Rightarrow> string hmap \<Rightarrow> load_error + harness" where
  "build_with_config R0 S disk c constants =
     bindr (load_everything \<lparr>serde = S, boot_constants = constants, processed_filetypes = dc_processed_filetypes (cfg_dsl c)\<rparr>
         (disk (config_path c))) (\<lambda>ld.
     Inr \<lparr>hn_router = R0\<lparr>rt_config := router_config_of c,
            rt_engine := (rt_engine R0)\<lparr>http_client := http_client_new (offline (http_client (rt_engine R0))) c, max_iterations := engine_max_iterations c,
              guards_mode := cfg_guards_mode c, default_exception_dsl := None, reload_handler := None,
              self_call_wired := False\<rparr>\<rparr>,
          hn_triggers = ld_triggers ld, hn_world = (initial_world c ld)\<lparr>w_state := store_new\<rparr>, hn_sems = []\<rparr>)"

definition harness_config :: "string \<Rightarrow> app_config" where
  "harness_config dsl_root = app_config_default\<lparr>config_path := dsl_root\<rparr>"

definition mock_test_config :: "string \<Rightarrow> app_config" where
  "mock_test_config dsl_root =
     (let c = harness_config dsl_root in
      c\<lparr>cfg_internal_requests := (cfg_internal_requests c)\<lparr>in_block_private_networks := False\<rparr>\<rparr>)"

definition request_uri :: "test_params \<Rightarrow> router \<Rightarrow> string \<Rightarrow> json hmap \<Rightarrow> string" where
  "request_uri P R path query =
     (if query = [] then path
      else path @ ''?'' @ join_with ''&'' (map (\<lambda>(k, v).
        tp_encode P k @ ''='' @ tp_encode P (case v of JString s \<Rightarrow> s | other \<Rightarrow> to_text (rt_engine R) other)) query))"

text \<open>\<open>to_bytes(body, 16 MiB)\<close> of a reply.\<close>

definition reply_bytes :: "router \<Rightarrow> reply_body \<Rightarrow> string + string" where
  "reply_bytes R b =
     bindr (case b of
         ReplyJson v \<Rightarrow> Inr (to_text (rt_engine R) v)
       | ReplyText t \<Rightarrow> Inr t
       | ReplyStream chunks \<Rightarrow>
           if list_all (\<lambda>x. case x of Inr _ \<Rightarrow> True | Inl _ \<Rightarrow> False) chunks
           then Inr (concat (map (\<lambda>x. case x of Inr s \<Rightarrow> s | Inl _ \<Rightarrow> []) chunks)) else Inl ''stream error''
       | ReplyUpgrade \<Rightarrow> Inr [])
       (\<lambda>bytes. if length bytes \<le> 16 * 1024 * 1024 then Inr bytes else Inl ''length limit exceeded'')"

definition handled_reply :: "handled \<Rightarrow> reply \<times> string option" where
  "handled_reply out = (case out of Answered r permit \<Rightarrow> (r, permit)
     | Upgraded h _ _ _ _ \<Rightarrow> (\<lparr>rp_status = 101, rp_headers = h, rp_body = ReplyUpgrade\<rparr>, None))"

definition execute_http ::
  "test_params \<Rightarrow> router \<Rightarrow> runner \<Rightarrow> test_request \<Rightarrow> world \<Rightarrow> semaphores \<Rightarrow>
   ((string + harness_response) \<times> world \<times> semaphores) option" where
  "execute_http P R run tr w sems =
     (case tp_request P (to_uppercase (tr_method tr)) (request_uri P R (tr_path tr) (tr_query tr)) (tr_headers tr)
             (case tr_body tr of Some b \<Rightarrow> to_text (rt_engine R) b | None \<Rightarrow> []) of
        Inl e \<Rightarrow> Some (Inl e, w, sems)
      | Inr rq \<Rightarrow>
          map_option (\<lambda>(out, w', sems').
            (case handled_reply out of (r, permit) \<Rightarrow>
              (bindr (reply_bytes R (rp_body r)) (\<lambda>bytes.
                 Inr \<lparr>hp_status = rp_status r, hp_body = bytes_json P R bytes, hp_headers = header_strings R (rp_headers r)\<rparr>),
               w', case permit of Some key \<Rightarrow> release_permit key sems' | None \<Rightarrow> sems')))
            (app_request R run rq w sems))"

section \<open>Checks\<close>

definition get_header_ci :: "string hmap \<Rightarrow> string \<Rightarrow> string option" where
  "get_header_ci headers name = map_option snd (find (\<lambda>(k, _). eq_ignore_ascii_case k name) headers)"

definition check_http_response ::
  "test_params \<Rightarrow> u16 \<Rightarrow> json \<Rightarrow> string hmap \<Rightarrow> expect_http \<Rightarrow> test_failure + unit" where
  "check_http_response P status body headers x =
     bindr (case ex_status x of Some s \<Rightarrow> ensure (s = status) (StatusDiffers s status) | None \<Rightarrow> Inr ()) (\<lambda>_.
     bindr (case ex_body x of Some b \<Rightarrow> ensure (deep_equal b body) BodyDiffers | None \<Rightarrow> Inr ()) (\<lambda>_.
     bindr (case ex_body_matches x of Some b \<Rightarrow> ensure (subset_matches (tp_regex P) b body) BodyNotSubset
            | None \<Rightarrow> Inr ()) (\<lambda>_.
     bindr (each_ok (\<lambda>(k, v). case get_header_ci headers k of
              Some actual \<Rightarrow> ensure (actual = v) (HeaderDiffers k) | None \<Rightarrow> Inl (HeaderMissing k)) (ex_headers x)) (\<lambda>_.
     bindr (each_ok (\<lambda>k. ensure (get_header_ci headers k \<noteq> None) (HeaderNotPresent k)) (ex_header_present x)) (\<lambda>_.
     each_ok (\<lambda>k. ensure (get_header_ci headers k = None) (HeaderNotAbsent k)) (ex_header_absent x))))))"

definition verify_state :: "test_params \<Rightarrow> state_store \<Rightarrow> state_assertion list \<Rightarrow> test_failure + unit" where
  "verify_state P st = each_ok (\<lambda>a.
     case store_get st (sa_project a) (sa_key a) of
       None \<Rightarrow> ensure (sa_value a = JNull) (StateMissing (sa_project a) (sa_key a))
     | Some actual \<Rightarrow>
         if sa_value a = JNull then Inl (StateNotMissing (sa_project a) (sa_key a))
         else ensure (subset_matches (tp_regex P) (sa_value a) actual) (StateNotSubset (sa_project a) (sa_key a)))"

text \<open>\<open>state.set(..).expect(..)\<close> for each seed.\<close>

fun seed_state :: "state_seed list \<Rightarrow> world \<Rightarrow> world option" where
  "seed_state [] w = Some w"
| "seed_state (sd # sds) w =
     (case store_set (w_state w) (sd_project sd) (sd_key sd) (sd_value sd) of
        (Inl _, _) \<Rightarrow> None
      | (Inr _, st) \<Rightarrow> seed_state sds (w\<lparr>w_state := st\<rparr>))"

definition seeds_of :: "scenario \<Rightarrow> state_seed list" where
  "seeds_of s = (case sc_setup s of Some u \<Rightarrow> su_state u | None \<Rightarrow> [])"

section \<open>Scenarios\<close>

text \<open>
  One HTTP scenario: seed, request, then the checks in order. The mock is given where the mode has one; it has
  seen the calls the run added.
\<close>

definition run_http_scenario ::
  "test_params \<Rightarrow> router \<Rightarrow> runner \<Rightarrow> scenario \<Rightarrow> mock_server option \<Rightarrow> world \<Rightarrow> semaphores \<Rightarrow>
   ((test_failure + unit) \<times> mock_server option \<times> world \<times> semaphores) option" where
  "run_http_scenario P R run s mock w sems =
     (case seed_state (seeds_of s) w of
        None \<Rightarrow> None
      | Some w1 \<Rightarrow>
          (case sc_request s of
             None \<Rightarrow> Some (Inl MissingRequest, mock, w1, sems)
           | Some tr \<Rightarrow>
               map_option (\<lambda>(r, w2, sems').
                   (let mock' = map_option (mock_serve P R (drop (length (sent w1)) (sent w2))) mock in
                    (case r of
                       Inl e \<Rightarrow> Inl (RouterFailed e)
                     | Inr resp \<Rightarrow>
                         bindr (check_http_response P (hp_status resp) (hp_body resp) (hp_headers resp)
                           (opt_or (sc_expect s) expect_default)) (\<lambda>_.
                         bindr (verify_state P (w_state w2) (sc_verify_state s)) (\<lambda>_.
                         case mock' of None \<Rightarrow> Inr () | Some m \<Rightarrow> each_ok (mock_assert P m) (sc_verify_mocks s))),
                     mock', w2, sems')))
                 (execute_http P R run tr w1 sems)))"

definition run_trigger_scenario ::
  "test_params \<Rightarrow> harness \<Rightarrow> runner \<Rightarrow> scenario \<Rightarrow> mock_server \<Rightarrow> world \<Rightarrow>
   ((test_failure + unit) \<times> mock_server \<times> world) option" where
  "run_trigger_scenario P H run s mock w =
     (case sc_trigger s of
        None \<Rightarrow> Some (Inl MissingTrigger, mock, w)
      | Some t \<Rightarrow>
          map_option (\<lambda>(r, w2).
              (let mock' = mock_serve P (hn_router H) (drop (length (sent w)) (sent w2)) mock in
               (case r of
                  Inl e \<Rightarrow> Inl (DispatchFailed e)
                | Inr dispatched \<Rightarrow>
                    bindr (ensure (dispatched = ts_expect_dispatched t) (DispatchedDiffers (ts_expect_dispatched t) dispatched)) (\<lambda>_.
                    bindr (verify_state P (w_state w2) (sc_verify_state s)) (\<lambda>_.
                    each_ok (mock_assert P mock') (sc_verify_mocks s))), mock', w2)))
            (dispatch (hn_triggers H) run (ts_project t) (ts_channel t) (ts_key t) (ts_payload t) w))"

text \<open>
  What the WebSocket client gets, until the deadline: frames, other messages, an error, or the end of the
  stream. The loop takes frames until it has as many as expected.
\<close>

datatype ws_received = GotText string | GotBinary string | GotOther | GotError string

fun collect_frames :: "test_params \<Rightarrow> router \<Rightarrow> nat \<Rightarrow> ws_received list \<Rightarrow> json list \<Rightarrow> test_failure + json list" where
  "collect_frames P R n [] got = Inr got"
| "collect_frames P R n (x # xs) got =
     (if n \<le> length got then Inr got
      else case x of
          GotText t \<Rightarrow> collect_frames P R n xs (got @ [case json_from_slice (rt_inbound R) t of Inr v \<Rightarrow> v | Inl _ \<Rightarrow> JString t])
        | GotBinary b \<Rightarrow>
            (let t = tp_lossy P b in
             collect_frames P R n xs (got @ [case json_from_slice (rt_inbound R) t of Inr v \<Rightarrow> v | Inl _ \<Rightarrow> JString t]))
        | GotOther \<Rightarrow> collect_frames P R n xs got
        | GotError e \<Rightarrow> Inl (WsRecv e))"

text \<open>The connection and the store after it are those of the server under test; \<open>Inl\<close> is a failure to connect or to send.\<close>

definition run_ws_scenario ::
  "test_params \<Rightarrow> router \<Rightarrow> (string \<Rightarrow> json list \<Rightarrow> string + ws_received list) \<Rightarrow> state_store \<Rightarrow> scenario \<Rightarrow> test_failure + unit" where
  "run_ws_scenario P R client st s =
     (case sc_ws s of
        None \<Rightarrow> Inl MissingWs
      | Some ws \<Rightarrow>
          (case client (wsc_path ws) (wsc_send ws) of
             Inl e \<Rightarrow> Inl (WsConnect e)
           | Inr received \<Rightarrow>
               bindr (collect_frames P R (length (wsc_expect_frames ws)) received []) (\<lambda>got.
               bindr (ensure (length got = length (wsc_expect_frames ws)) (WsFrames (length (wsc_expect_frames ws)) (length got))) (\<lambda>_.
               bindr (each_ok (\<lambda>(i, expected). ensure (subset_matches (tp_regex P) expected (got ! i)) (WsFrameDiffers i))
                 (List.enumerate 0 (wsc_expect_frames ws))) (\<lambda>_.
               verify_state P st (sc_verify_state s))))))"

section \<open>Rewriting of outbound URLs\<close>

text \<open>\<open>str::replace\<close>, for a pattern that is not empty.\<close>

function replace_all :: "string \<Rightarrow> string \<Rightarrow> string \<Rightarrow> string" where
  "replace_all p r s =
     (if p = [] \<or> s = [] then s
      else if starts_with s p then r @ replace_all p r (drop (length p) s)
      else hd s # replace_all p r (tl s))"
  by pat_completeness auto
termination
  by (relation "measure (\<lambda>(p, r, s). length s)") (auto simp: starts_with_iff)

declare replace_all.simps [simp del]

definition merge_constants_with_mock :: "string hmap \<Rightarrow> string \<Rightarrow> string hmap" where
  "merge_constants_with_mock constants mock_base =
     hm_insert ''__MOCK__'' mock_base
       (map (\<lambda>(k, v). (k, if contains_str v ''{MOCK}'' then replace_all ''{MOCK}'' mock_base v else v)) constants)"

text \<open>The environment variable \<open>RUUTER_HTTP_REWRITE\<close> after \<open>apply_http_rewrite\<close>; \<open>None\<close> is a variable that is not set.\<close>

definition apply_http_rewrite :: "string hmap \<Rightarrow> string \<Rightarrow> string option" where
  "apply_http_rewrite m mock_base =
     (if m = [] then None
      else Some (join_with '','' (map (\<lambda>(k, v). k @ ''='' @ replace_all ''{MOCK}'' mock_base v) m)))"

fun rewrite_pairs :: "string list \<Rightarrow> string \<Rightarrow> string option" where
  "rewrite_pairs [] url = None"
| "rewrite_pairs (pair # rest) url =
     (let from = trim (takeWhile (\<lambda>c. c \<noteq> CHR ''='') pair); to = trim (tl (dropWhile (\<lambda>c. c \<noteq> CHR ''='') pair)) in
      if CHR ''='' \<notin> set pair then None
      else if from = [] \<or> to = [] then rewrite_pairs rest url
      else case strip_prefix from url of
          Some tail \<Rightarrow> Some (to @ tail)
        | None \<Rightarrow> rewrite_pairs rest url)"

definition rewrite_url_for_tests :: "string option \<Rightarrow> string \<Rightarrow> string option" where
  "rewrite_url_for_tests env url =
     (case env of None \<Rightarrow> None | Some raw \<Rightarrow> if raw = [] then None else rewrite_pairs (split_on CHR '','' raw) url)"

section \<open>Test files\<close>

type_synonym scenario_result = "string \<times> bool \<times> test_failure option"

definition to_result :: "string \<Rightarrow> test_failure + unit \<Rightarrow> scenario_result" where
  "to_result name r = (case r of Inr _ \<Rightarrow> (name, True, None) | Inl e \<Rightarrow> (name, False, Some e))"

fun inprocess_loop ::
  "test_params \<Rightarrow> router \<Rightarrow> runner \<Rightarrow> scenario list \<Rightarrow> world \<Rightarrow> semaphores \<Rightarrow> scenario_result list option" where
  "inprocess_loop P R run [] w sems = Some []"
| "inprocess_loop P R run (s # ss) w sems =
     (case run_http_scenario P R run s None w sems of
        None \<Rightarrow> None
      | Some (r, _, w', sems') \<Rightarrow>
          map_option (\<lambda>rs. to_result (sc_name s) r # rs) (inprocess_loop P R run ss w' sems'))"

definition mocks_of :: "scenario \<Rightarrow> mock_upstream list" where
  "mocks_of s = (case sc_setup s of Some u \<Rightarrow> su_mocks u | None \<Rightarrow> [])"

fun mock_http_loop ::
  "test_params \<Rightarrow> router \<Rightarrow> runner \<Rightarrow> scenario list \<Rightarrow> mock_server \<Rightarrow> world \<Rightarrow> semaphores \<Rightarrow> scenario_result list option" where
  "mock_http_loop P R run [] mock w sems = Some []"
| "mock_http_loop P R run (s # ss) mock w sems =
     (case seed_state (seeds_of s) w of
        None \<Rightarrow> None
      | Some w1 \<Rightarrow>
          (case run_http_scenario P R run s (Some (mock_register (mocks_of s) (mock_clear mock))) w1 sems of
             None \<Rightarrow> None
           | Some (r, mock', w', sems') \<Rightarrow>
               map_option (\<lambda>rs. to_result (sc_name s) r # rs)
                 (mock_http_loop P R run ss (opt_or mock' mock) w' sems')))"

fun trigger_loop ::
  "test_params \<Rightarrow> harness \<Rightarrow> runner \<Rightarrow> scenario list \<Rightarrow> mock_server \<Rightarrow> world \<Rightarrow> scenario_result list option" where
  "trigger_loop P H run [] mock w = Some []"
| "trigger_loop P H run (s # ss) mock w =
     (case seed_state (seeds_of s) w of
        None \<Rightarrow> None
      | Some w1 \<Rightarrow>
          (case run_trigger_scenario P H run s (mock_register (mocks_of s) (mock_clear mock)) w1 of
             None \<Rightarrow> None
           | Some (r, mock', w') \<Rightarrow>
               map_option (\<lambda>rs. to_result (sc_name s) r # rs) (trigger_loop P H run ss mock' w')))"

text \<open>The server under test as its WebSocket client sees it: what it receives, and the world afterwards.\<close>

type_synonym ws_peer = "string \<Rightarrow> json list \<Rightarrow> world \<Rightarrow> (string + ws_received list) \<times> world"

fun ws_loop :: "test_params \<Rightarrow> router \<Rightarrow> ws_peer \<Rightarrow> scenario list \<Rightarrow> world \<Rightarrow> scenario_result list option" where
  "ws_loop P R peer [] w = Some []"
| "ws_loop P R peer (s # ss) w =
     (case seed_state (seeds_of s) w of
        None \<Rightarrow> None
      | Some w1 \<Rightarrow>
          (let w2 = (case sc_ws s of Some ws \<Rightarrow> snd (peer (wsc_path ws) (wsc_send ws) w1) | None \<Rightarrow> w1);
               r = run_ws_scenario P R (\<lambda>path frames. fst (peer path frames w1)) (w_state w2) s
           in map_option (\<lambda>rs. to_result (sc_name s) r # rs) (ws_loop P R peer ss w2)))"

record test_env =
  te_params :: test_params
  te_router :: router
  te_serde :: serde_params
  te_disk :: "string \<Rightarrow> fs_node"
  te_dsl_root :: string
  te_mock_base :: "string option"
  te_fuel :: nat
  te_peer :: "harness \<Rightarrow> ws_peer"

definition harness_run :: "test_env \<Rightarrow> harness \<Rightarrow> runner" where
  "harness_run T H = engine_run (te_fuel T) (rt_engine (hn_router H))"

text \<open>\<open>Inl ()\<close> is a harness that could not be built, or a mock upstream that could not be bound.\<close>

definition run_inprocess :: "test_env \<Rightarrow> test_file \<Rightarrow> string hmap \<Rightarrow> (unit + scenario_result list) option" where
  "run_inprocess T f constants =
     (case build_with_config (te_router T) (te_serde T) (te_disk T) (harness_config (te_dsl_root T)) constants of
        Inl _ \<Rightarrow> Some (Inl ())
      | Inr H \<Rightarrow> map_option Inr (inprocess_loop (te_params T) (hn_router H) (harness_run T H) (tf_tests f) (hn_world H) (hn_sems H)))"

definition run_mock_http :: "test_env \<Rightarrow> string \<Rightarrow> test_file \<Rightarrow> string hmap \<Rightarrow> (unit + scenario_result list) option" where
  "run_mock_http T base f constants =
     (case build_with_config (te_router T) (te_serde T) (te_disk T) (mock_test_config (te_dsl_root T))
             (merge_constants_with_mock constants base) of
        Inl _ \<Rightarrow> Some (Inl ())
      | Inr H \<Rightarrow> map_option Inr (mock_http_loop (te_params T) (hn_router H) (harness_run T H) (tf_tests f) mock_new (hn_world H) (hn_sems H)))"

definition run_trigger_inject :: "test_env \<Rightarrow> string \<Rightarrow> test_file \<Rightarrow> string hmap \<Rightarrow> (unit + scenario_result list) option" where
  "run_trigger_inject T base f constants =
     (case build_with_config (te_router T) (te_serde T) (te_disk T) (mock_test_config (te_dsl_root T))
             (merge_constants_with_mock constants base) of
        Inl _ \<Rightarrow> Some (Inl ())
      | Inr H \<Rightarrow> map_option Inr (trigger_loop (te_params T) H (harness_run T H) (tf_tests f) mock_new (hn_world H)))"

definition run_ws_client :: "test_env \<Rightarrow> test_file \<Rightarrow> string hmap \<Rightarrow> (unit + scenario_result list) option" where
  "run_ws_client T f constants =
     (case build_with_config (te_router T) (te_serde T) (te_disk T) (harness_config (te_dsl_root T)) constants of
        Inl _ \<Rightarrow> Some (Inl ())
      | Inr H \<Rightarrow> map_option Inr (ws_loop (te_params T) (hn_router H) (te_peer T H) (tf_tests f) (hn_world H)))"

text \<open>A file in its mode, with the rewrite variable it finds and the one it leaves.\<close>

definition run_file ::
  "test_env \<Rightarrow> test_file \<Rightarrow> string hmap \<Rightarrow> string option \<Rightarrow> ((unit + scenario_result list) \<times> string option) option" where
  "run_file T f constants env =
     (case tf_mode f of
        Inprocess \<Rightarrow> map_option (\<lambda>r. (r, env)) (run_inprocess T f constants)
      | WsClient \<Rightarrow> map_option (\<lambda>r. (r, env)) (run_ws_client T f constants)
      | MockHttp \<Rightarrow>
          (case te_mock_base T of
             None \<Rightarrow> Some (Inl (), env)
           | Some base \<Rightarrow> map_option (\<lambda>r. (r, apply_http_rewrite (tf_http_rewrite f) base)) (run_mock_http T base f constants))
      | TriggerInject \<Rightarrow>
          (case te_mock_base T of
             None \<Rightarrow> Some (Inl (), env)
           | Some base \<Rightarrow> map_option (\<lambda>r. (r, apply_http_rewrite (tf_http_rewrite f) base)) (run_trigger_inject T base f constants)))"

section \<open>The run\<close>

record test_args =
  ta_dsl_root :: string
  ta_tests_root :: string
  ta_constants :: string
  ta_filter :: "string option"
  ta_json :: bool

definition test_args_default :: test_args where
  "test_args_default = \<lparr>ta_dsl_root = ''./DSL'', ta_tests_root = ''./DSL-tests'', ta_constants = ''./constants.ini'',
     ta_filter = None, ta_json = False\<rparr>"

text \<open>The command line; \<open>Inl\<close> is the exit code of the help or of an unknown flag. A flag at the end without its value is ignored.\<close>

fun parse_test_args :: "string list \<Rightarrow> test_args \<Rightarrow> nat + test_args" where
  "parse_test_args [] acc = Inr acc"
| "parse_test_args (a # rest) acc =
     (if a \<in> {''--dsl'', ''-d''} then
        (case rest of v # rest' \<Rightarrow> parse_test_args rest' (acc\<lparr>ta_dsl_root := v\<rparr>) | [] \<Rightarrow> Inr acc)
      else if a \<in> {''--tests'', ''-t''} then
        (case rest of v # rest' \<Rightarrow> parse_test_args rest' (acc\<lparr>ta_tests_root := v\<rparr>) | [] \<Rightarrow> Inr acc)
      else if a \<in> {''--constants'', ''-c''} then
        (case rest of v # rest' \<Rightarrow> parse_test_args rest' (acc\<lparr>ta_constants := v\<rparr>) | [] \<Rightarrow> Inr acc)
      else if a \<in> {''--filter'', ''-f''} then
        (case rest of v # rest' \<Rightarrow> parse_test_args rest' (acc\<lparr>ta_filter := Some v\<rparr>) | [] \<Rightarrow> Inr acc)
      else if a = ''--json'' then parse_test_args rest (acc\<lparr>ta_json := True\<rparr>)
      else if a = ''--help'' \<or> a = ''-h'' then Inl 0
      else Inl 2)"

fun test_walk :: "string list \<Rightarrow> (string \<times> fs_node) list \<Rightarrow> (string list \<times> fs_node) list" where
  "test_walk dir [] = []"
| "test_walk dir ((name, node) # rest) =
     (case node of
        Dir es \<Rightarrow> test_walk (dir @ [name]) es
      | DirDenied \<Rightarrow> []
      | _ \<Rightarrow> if str_ends_with name ''.test.yml'' \<or> str_ends_with name ''.test.yaml'' then [(dir @ [name], node)] else []) @
     test_walk dir rest"

definition enumerate_test_files :: "fs_node \<Rightarrow> string list \<Rightarrow> (string list \<times> fs_node) list" where
  "enumerate_test_files disk root = (case disk of Dir es \<Rightarrow> sort_key fst (test_walk root es) | _ \<Rightarrow> [])"

record run_summary =
  rs_total :: nat
  rs_passed :: nat
  rs_failed :: nat
  rs_items :: "(string list \<times> string \<times> bool \<times> test_failure option) list"
  rs_json_mode :: bool

definition summary_new :: "bool \<Rightarrow> run_summary" where
  "summary_new json_mode = \<lparr>rs_total = 0, rs_passed = 0, rs_failed = 0, rs_items = [], rs_json_mode = json_mode\<rparr>"

definition record_result :: "string list \<Rightarrow> string \<Rightarrow> bool \<Rightarrow> test_failure option \<Rightarrow> run_summary \<Rightarrow> run_summary" where
  "record_result path name ok err s =
     s\<lparr>rs_total := rs_total s + 1, rs_passed := rs_passed s + (if ok then 1 else 0),
       rs_failed := rs_failed s + (if ok then 0 else 1), rs_items := rs_items s @ [(path, name, ok, err)]\<rparr>"

definition record_file :: "string list \<Rightarrow> unit + scenario_result list \<Rightarrow> run_summary \<Rightarrow> run_summary" where
  "record_file path r s =
     (case r of
        Inl _ \<Rightarrow> record_result path ''<harness>'' False (Some HarnessFailed) s
      | Inr rs \<Rightarrow> fold (\<lambda>(name, ok, err). record_result path name ok err) rs s)"

text \<open>The loop of \<open>main\<close> over the files that pass the filter; \<open>load\<close> reads one (crate \<open>serde_yaml_ng\<close>).\<close>

fun run_files ::
  "test_env \<Rightarrow> (fs_node \<Rightarrow> test_file option) \<Rightarrow> string option \<Rightarrow> string hmap \<Rightarrow> (string list \<times> fs_node) list \<Rightarrow>
   string option \<Rightarrow> run_summary \<Rightarrow> run_summary option" where
  "run_files T load filt base_constants [] env s = Some s"
| "run_files T load filt base_constants ((path, node) # files) env s =
     (if (case filt of Some f \<Rightarrow> \<not> contains_str (join_with ''/'' path) f | None \<Rightarrow> False)
      then run_files T load filt base_constants files env s
      else case load node of
          None \<Rightarrow> run_files T load filt base_constants files env (record_result path ''<parse>'' False (Some LoadFailed) s)
        | Some f \<Rightarrow>
            (case run_file T f (fold (\<lambda>(k, v). hm_insert k v) (tf_constants f) base_constants) env of
               None \<Rightarrow> None
             | Some (r, env') \<Rightarrow> run_files T load filt base_constants files env' (record_file path r s)))"

definition dsl_test_main ::
  "test_env \<Rightarrow> (fs_node \<Rightarrow> test_file option) \<Rightarrow> string option \<Rightarrow> string hmap \<Rightarrow> fs_node \<Rightarrow> string list \<Rightarrow>
   bool \<Rightarrow> string option \<Rightarrow> (nat \<times> run_summary) option" where
  "dsl_test_main T load filt base_constants disk root json_mode env =
     (let files = enumerate_test_files disk root in
      if files = [] then Some (1, summary_new json_mode)
      else map_option (\<lambda>s. (if 0 < rs_failed s then 1 else 0, s)) (run_files T load filt base_constants files env (summary_new json_mode)))"

section \<open>Lemmas\<close>

lemma each_ok_iff: "each_ok f xs = Inr () \<longleftrightarrow> (\<forall>x \<in> set xs. f x = Inr ())"
  by (induction xs) (auto simp: bindr_Inr_iff)

text \<open>The store of a harness has no cap, so seeding it never panics, whatever ran before.\<close>

lemma set_uncapped: "max_entries_per_project st = None \<Longrightarrow> \<exists>st'. store_set st p k v = (Inr (), st') \<and> max_entries_per_project st' = None"
  by (auto simp: store_set_def Let_def)

lemma seeding_never_panics:
  "max_entries_per_project (w_state w) = None \<Longrightarrow>
   \<exists>w'. seed_state sds w = Some w' \<and> max_entries_per_project (w_state w') = None"
proof (induction sds arbitrary: w)
  case (Cons sd sds)
  obtain st where "store_set (w_state w) (sd_project sd) (sd_key sd) (sd_value sd) = (Inr (), st)" "max_entries_per_project st = None"
    using set_uncapped[OF Cons.prems] by blast
  then show ?case using Cons.IH[of "w\<lparr>w_state := st\<rparr>"] by simp
qed simp

lemma seed_sent: "seed_state sds w = Some w' \<Longrightarrow> sent w' = sent w"
  by (induction sds arbitrary: w) (auto split: prod.splits sum.splits dest: meta_spec)

text \<open>What a test asks for, said without the order of the checks.\<close>

definition response_meets :: "test_params \<Rightarrow> harness_response \<Rightarrow> expect_http \<Rightarrow> bool" where
  "response_meets P resp x \<longleftrightarrow>
     (case ex_status x of Some s \<Rightarrow> s = hp_status resp | None \<Rightarrow> True) \<and>
     (case ex_body x of Some b \<Rightarrow> b = hp_body resp | None \<Rightarrow> True) \<and>
     (case ex_body_matches x of Some b \<Rightarrow> subset_matches (tp_regex P) b (hp_body resp) | None \<Rightarrow> True) \<and>
     (\<forall>(k, v) \<in> set (ex_headers x). get_header_ci (hp_headers resp) k = Some v) \<and>
     (\<forall>k \<in> set (ex_header_present x). get_header_ci (hp_headers resp) k \<noteq> None) \<and>
     (\<forall>k \<in> set (ex_header_absent x). get_header_ci (hp_headers resp) k = None)"

definition state_as_expected :: "test_params \<Rightarrow> state_store \<Rightarrow> state_assertion \<Rightarrow> bool" where
  "state_as_expected P st a \<longleftrightarrow>
     (if sa_value a = JNull then store_get st (sa_project a) (sa_key a) = None
      else \<exists>v. store_get st (sa_project a) (sa_key a) = Some v \<and> subset_matches (tp_regex P) (sa_value a) v)"

definition calls_to :: "mock_server \<Rightarrow> string \<Rightarrow> call_record list" where
  "calls_to m url = filter (\<lambda>c. contains_str (cr_url c) url) (ms_calls m)"

definition mock_as_expected :: "test_params \<Rightarrow> mock_server \<Rightarrow> mock_assertion \<Rightarrow> bool" where
  "mock_as_expected P m a \<longleftrightarrow> length (calls_to m (ma_url_matches a)) = ma_count a \<and>
     (case ma_body_matches a of None \<Rightarrow> True
      | Some b \<Rightarrow> \<forall>c \<in> set (calls_to m (ma_url_matches a)). subset_matches (tp_regex P) b (cr_body c))"

lemma header_check_iff:
  "(case get_header_ci h k of Some actual \<Rightarrow> ensure (actual = v) e1 | None \<Rightarrow> Inl e2) = Inr () \<longleftrightarrow> get_header_ci h k = Some v"
  by (cases "get_header_ci h k") auto

lemma check_response_iff:
  "check_http_response P (hp_status resp) (hp_body resp) (hp_headers resp) x = Inr () \<longleftrightarrow> response_meets P resp x"
  unfolding check_http_response_def response_meets_def
  by (auto simp: bindr_Inr_iff each_ok_iff header_check_iff deep_equal_def split: option.splits)

lemma verify_state_iff:
  "verify_state P st as = Inr () \<longleftrightarrow> (\<forall>a \<in> set as. state_as_expected P st a)"
proof -
  have "(case store_get st (sa_project a) (sa_key a) of
      None \<Rightarrow> ensure (sa_value a = JNull) (StateMissing (sa_project a) (sa_key a))
    | Some actual \<Rightarrow> if sa_value a = JNull then Inl (StateNotMissing (sa_project a) (sa_key a))
        else ensure (subset_matches (tp_regex P) (sa_value a) actual) (StateNotSubset (sa_project a) (sa_key a))) = Inr () \<longleftrightarrow>
      state_as_expected P st a" for a
    by (cases "store_get st (sa_project a) (sa_key a)") (simp_all add: state_as_expected_def)
  then show ?thesis unfolding verify_state_def each_ok_iff by simp
qed

lemma mock_assert_iff: "mock_assert P m a = Inr () \<longleftrightarrow> mock_as_expected P m a"
proof -
  have "(\<forall>x \<in> set (List.enumerate 0 xs). Q (snd x)) \<longleftrightarrow> (\<forall>c \<in> set xs. Q c)" for xs :: "call_record list" and Q
    by (metis (no_types, lifting) image_iff list.set_map map_snd_enumerate)
  note enum = this[where Q = "\<lambda>c. subset_matches (tp_regex P) b (cr_body c)" for b]
  show ?thesis
    by (cases "ma_body_matches a")
      (simp_all add: mock_assert_def mock_as_expected_def calls_to_def Let_def bindr_Inr_iff each_ok_iff case_prod_unfold enum)
qed

text \<open>The numbers of a summary are those of its items.\<close>

definition summary_ok :: "run_summary \<Rightarrow> bool" where
  "summary_ok s \<longleftrightarrow> rs_total s = length (rs_items s) \<and>
     rs_passed s = length (filter (\<lambda>(_, _, ok, _). ok) (rs_items s)) \<and> rs_failed s = length (filter (\<lambda>(_, _, ok, _). \<not> ok) (rs_items s))"

lemma record_result_ok: "summary_ok s \<Longrightarrow> summary_ok (record_result path name ok err s)"
  by (simp add: summary_ok_def record_result_def)

lemma record_file_ok: "summary_ok s \<Longrightarrow> summary_ok (record_file path r s)"
proof -
  have "summary_ok s \<Longrightarrow> summary_ok (fold (\<lambda>(name, ok, err). record_result path name ok err) rs s)" for rs :: "scenario_result list" and s
    by (induction rs arbitrary: s) (auto simp: record_result_ok)
  then show "summary_ok s \<Longrightarrow> summary_ok (record_file path r s)"
    by (auto simp: record_file_def record_result_ok split: sum.splits)
qed

lemma run_files_ok: "summary_ok s \<Longrightarrow> run_files T load filt bc files env s = Some s' \<Longrightarrow> summary_ok s'"
proof (induction T load filt bc files env s rule: run_files.induct)
  case (2 T load filt bc path node files env s)
  show ?case
  proof (cases "case filt of Some f \<Rightarrow> \<not> contains_str (join_with ''/'' path) f | None \<Rightarrow> False")
    case True
    then show ?thesis using 2 by simp
  next
    case False
    then show ?thesis using 2 record_result_ok record_file_ok
      by (auto split: option.splits)
  qed
qed simp

text \<open>
  A rewrite outlives its file: a mock file with a rewrite leaves the variable set, and an in-process file runs
  with whatever variable it finds and leaves it.
\<close>

lemma rewrite_outlives_its_file:
  "tf_mode f = MockHttp \<Longrightarrow> te_mock_base T = Some base \<Longrightarrow> tf_http_rewrite f \<noteq> [] \<Longrightarrow> run_file T f cs env = Some (r, env') \<Longrightarrow> env' \<noteq> None"
  "tf_mode f = Inprocess \<Longrightarrow> run_file T f cs env = Some (r, env') \<Longrightarrow> env' = env"
  by (auto simp: run_file_def apply_http_rewrite_def)

section \<open>Properties\<close>


definition sample_test :: test_params where
  "sample_test = \<lparr>tp_regex = \<lambda>_ _. None, tp_encode = \<lambda>s. s, tp_request = \<lambda>meth uri _ _. Inr (request_to meth uri),
     tp_lossy = \<lambda>s. s, tp_wire = \<lambda>_. None\<rparr>"

definition store_scenario :: scenario where
  "store_scenario = \<lparr>sc_name = ''stores'', sc_request = Some \<lparr>tr_method = ''GET'', tr_path = ''/demo/store'', tr_query = [],
       tr_headers = [], tr_body = None, tr_origin = None\<rparr>, sc_ws = None, sc_trigger = None,
     sc_expect = Some (expect_default\<lparr>ex_status := Some 201\<rparr>), sc_setup = None, sc_verify_state = [], sc_verify_mocks = []\<rparr>"

lemma store_scenario_executes:
  "\<exists>resp. execute_http sample_test sample_router (engine_run 1 sample_engine) (the (sc_request store_scenario)) sample_world [] =
     Some (Inr resp, sample_world\<lparr>w_state := store_after\<rparr>, []) \<and> hp_status resp = 201"
proof -
  obtain r v where r: "handle_request sample_router (engine_run 1 sample_engine) get_store sample_world [] =
      Some (Answered r None, sample_world\<lparr>w_state := store_after\<rparr>, [])" "rp_status r = 201" "rp_body r = ReplyJson v"
    using store_handled[of 0 "[]"] by auto
  have "request_to ''GET'' ''/demo/store'' = get_store" "in_path get_store \<noteq> ''/health''"
    by (simp_all add: get_store_def request_to_def)
  moreover have "reply_bytes sample_router (ReplyJson v) = Inr []" by (simp add: reply_bytes_def to_text_def sample_scripts_def)
  ultimately show ?thesis
    using r by (simp add: execute_http_def store_scenario_def sample_test_def request_uri_def app_request_def handled_reply_def
        del: engine_run.simps)
qed


text \<open>
  The exit code is the verdict: 0 exactly when there are test files and every recorded item, a scenario, a file
  that could not be read or a harness that could not be built, has passed; and the totals are the items.
\<close>

theorem exit_code_exact:
  assumes "dsl_test_main T load filt bc disk root json_mode env = Some (code, s)"
  shows "(code = 0 \<longleftrightarrow> enumerate_test_files disk root \<noteq> [] \<and> (\<forall>(_, _, ok, _) \<in> set (rs_items s). ok)) \<and>
    rs_total s = length (rs_items s) \<and> rs_passed s + rs_failed s = rs_total s"
proof (cases "enumerate_test_files disk root = []")
  case True
  then show ?thesis using assms by (auto simp: dsl_test_main_def summary_new_def)
next
  case False
  then have run: "run_files T load filt bc (enumerate_test_files disk root) env (summary_new json_mode) = Some s"
    and code: "code = (if 0 < rs_failed s then 1 else 0)"
    using assms by (auto simp: dsl_test_main_def Let_def)
  have ok: "summary_ok s" by (rule run_files_ok[OF _ run]) (simp add: summary_ok_def summary_new_def)
  have "rs_failed s = 0 \<longleftrightarrow> (\<forall>(_, _, ok, _) \<in> set (rs_items s). ok)"
    using ok by (auto simp: summary_ok_def filter_empty_conv)
  moreover have "rs_passed s + rs_failed s = rs_total s"
    using ok sum_length_filter_compl[of "\<lambda>(_, _, ok, _). ok" "rs_items s"] by (simp add: summary_ok_def case_prod_unfold)
  ultimately show ?thesis using ok False code by (auto simp: summary_ok_def)
qed

theorem exit_code_exact_witness:
  "\<forall>T. \<exists>s. dsl_test_main T (\<lambda>_. None) None [] (Dir [(''a.test.yml'', File [])]) [] False None = Some (1, s) \<and>
     rs_total s = 1 \<and> rs_passed s + rs_failed s = 1"
proof
  fix T
  let ?disk = "Dir [(''a.test.yml'', File [])]"
  have files: "enumerate_test_files ?disk [] = [([''a.test.yml''], File [])]"
    by (simp add: enumerate_test_files_def str_ends_with_def)
  obtain s where s: "dsl_test_main T (\<lambda>_. None) None [] ?disk [] False None = Some (1, s)" "length (rs_items s) = 1"
    unfolding dsl_test_main_def files Let_def by (simp add: record_result_def summary_new_def)
  from exit_code_exact[OF s(1)] s(2)
  show "\<exists>s. dsl_test_main T (\<lambda>_. None) None [] ?disk [] False None = Some (1, s) \<and> rs_total s = 1 \<and> rs_passed s + rs_failed s = 1"
    using s(1) by auto
qed

end
