(* ===== verification/Doctor.thy ===== *)
theory Doctor
  imports Boot
begin

text \<open>
  The configuration checker \<open>ruuter-doctor\<close> (\<open>src/bin/ruuter_doctor.rs\<close>): it loads the configuration as the server does and
  reports the warnings a boot would print, with an exit code for scripts. A captured log line stands for one
  warning. The property compares its verdict with what \<open>boot\<close> does on the same files.
\<close>

section \<open>Arguments\<close>

text \<open>\<open>trim_start_matches\<close> removes the prefix as often as it occurs.\<close>

function trim_start_matches :: "string \<Rightarrow> string \<Rightarrow> string" where
  "trim_start_matches p s =
     (if p \<noteq> [] \<and> starts_with s p then trim_start_matches p (drop (length p) s) else s)"
  by pat_completeness auto
termination
  by (relation "measure (\<lambda>(p, s). length s)") (auto simp: starts_with_iff)

declare trim_start_matches.simps [simp del]

text \<open>The loop over the arguments: an exit code, or the path given last.\<close>

fun doctor_args :: "string list \<Rightarrow> string option \<Rightarrow> nat + string option" where
  "doctor_args [] config_arg = Inr config_arg"
| "doctor_args (a # rest) config_arg =
     (if a = ''--help'' \<or> a = ''-h'' then Inl 0
      else if a = ''--config'' \<or> a = ''-c'' then
        (case rest of v # rest' \<Rightarrow> doctor_args rest' (Some v) | [] \<Rightarrow> Inl 3)
      else if starts_with a ''--config='' then doctor_args rest (Some (trim_start_matches ''--config='' a))
      else Inl 3)"

section \<open>The check\<close>

definition run_all_boot_warn_checks :: "boot_env \<Rightarrow> app_config \<Rightarrow> boot_warning list" where
  "run_all_boot_warn_checks e c = warn_on_stale_config_fields (ip_of e) c"

definition doctor :: "boot_env \<Rightarrow> string list \<Rightarrow> nat \<times> boot_warning list" where
  "doctor e args =
     (case doctor_args args None of
        Inl code \<Rightarrow> (code, [])
      | Inr config_arg \<Rightarrow>
          (case load_or_default_via_env_or_path e config_arg of
             Inl _ \<Rightarrow> (2, [])
           | Inr (c, _) \<Rightarrow>
               (let ws = run_all_boot_warn_checks e c in if ws = [] then (0, []) else (1, ws))))"

section \<open>Properties\<close>

lemma listeners_config: "start_listeners ok c \<noteq> Inl (BootConfig e)"
proof -
  have "plan_listeners ok i ls \<noteq> Inl (BootConfig e)" for i ls
    by (induction ok i ls rule: plan_listeners.induct) (auto simp: Let_def bindr_Inl_iff split: option.splits if_splits)
  then show ?thesis by (simp add: start_listeners_def Let_def)
qed

lemma policy_config: "enforce_internal_policy p http \<noteq> Inl (BootConfig e)"
  by (simp add: enforce_internal_policy_def split: missing_internal_policy.splits)

lemma doctor_bare:
  "doctor e [] = (case load_or_default_with_notes e of
     Inl _ \<Rightarrow> (2, [])
   | Inr (c, _, _) \<Rightarrow> (let ws = warn_on_stale_config_fields (ip_of e) c in if ws = [] then (0, []) else (1, ws)))"
  by (auto simp: doctor_def load_or_default_via_env_or_path_def run_all_boot_warn_checks_def bindr_def split: sum.splits)


text \<open>The exit code 0 does not promise a boot without warnings: the explicit null is not among the checks.\<close>

lemma doctor_misses_null:
  assumes "load_or_default_with_notes (bp_env P) = Inr (c, src, True)" "boot P = Inr rn"
    and "warn_on_stale_config_fields (ip_of (bp_env P)) c = []"
  shows "fst (doctor (bp_env P) []) = 0 \<and> rn_warnings rn = [ResponseLimitNull]"
  using assms by (auto simp: doctor_bare boot_def Let_def bindr_Inr_iff warn_on_raw_config_notes_def warn_if_def split: sum.splits)

end
