(* ===== verification/Expr_Registry.thy ===== *)
theory Expr_Registry
  imports Boot
begin

text \<open>
  The registry of expressions (\<open>src/scripting/registry.rs\<close>): at boot every string of every DSL is scanned for scripts, and
  each distinct script gets a number, under which the QuickJS backend compiles it once per session.

  The rendering of a DSL as JSON (crate \<open>serde_json\<close>) is a parameter. The registry is shown to be exact: the numbers
  are \<open>0, 1, \<dots>\<close>, the two views of it agree, and it holds the scripts of the tree and nothing else.
\<close>

section \<open>The builder\<close>

record expr_builder =
  eb_sources :: "string list"
  eb_seen :: "nat hmap"

record expr_registry =
  er_by_source :: "nat hmap"
  er_ordered :: "(nat \<times> string) list"

definition builder_new :: expr_builder where
  "builder_new = \<lparr>eb_sources = [], eb_seen = []\<rparr>"

definition register_expr :: "string \<Rightarrow> expr_builder \<Rightarrow> expr_builder" where
  "register_expr e b =
     (if hm_contains (eb_seen b) e then b
      else \<lparr>eb_sources = eb_sources b @ [e], eb_seen = hm_insert e (length (eb_sources b)) (eb_seen b)\<rparr>)"

definition scan_string :: "string \<Rightarrow> expr_builder \<Rightarrow> expr_builder" where
  "scan_string s b =
     (let b1 = fold (\<lambda>(_, _, script). register_expr script) (find_script_segments s) b in
      if starts_with s ''$='' then (case line_expression s of Some e \<Rightarrow> register_expr e b1 | None \<Rightarrow> b1) else b1)"

fun walk_json :: "json \<Rightarrow> expr_builder \<Rightarrow> expr_builder" where
  "walk_json (JString s) b = scan_string s b"
| "walk_json (JObject m) b = fold (\<lambda>(_, v). walk_json v) m b"
| "walk_json (JArray a) b = fold walk_json a b"
| "walk_json _ b = b"

definition add_dsl :: "(dsl \<Rightarrow> json option) \<Rightarrow> dsl \<Rightarrow> expr_builder \<Rightarrow> expr_builder" where
  "add_dsl to_value d b = (case to_value d of Some v \<Rightarrow> walk_json v b | None \<Rightarrow> b)"

definition add_http :: "(dsl \<Rightarrow> json option) \<Rightarrow> http_dsls \<Rightarrow> expr_builder \<Rightarrow> expr_builder" where
  "add_http to_value http =
     fold (\<lambda>(_, methods). fold (\<lambda>(_, paths). fold (\<lambda>(_, d). add_dsl to_value d) paths) methods) http"

definition add_guards :: "(dsl \<Rightarrow> json option) \<Rightarrow> guard_dsls \<Rightarrow> expr_builder \<Rightarrow> expr_builder" where
  "add_guards to_value gs = fold (\<lambda>(_, by_key). fold (\<lambda>(_, d). add_dsl to_value d) by_key) gs"

definition add_trigger_dsls :: "(dsl \<Rightarrow> json option) \<Rightarrow> trigger_dsls \<Rightarrow> expr_builder \<Rightarrow> expr_builder" where
  "add_trigger_dsls to_value trigs = fold (\<lambda>(_, channels). fold (\<lambda>(_, d). add_dsl to_value d) channels) trigs"

definition freeze :: "expr_builder \<Rightarrow> expr_registry" where
  "freeze b =
     (let ordered = List.enumerate 0 (eb_sources b) in
      \<lparr>er_by_source = fold (\<lambda>(i, s). hm_insert s i) ordered [], er_ordered = ordered\<rparr>)"

definition registry_default :: expr_registry where
  "registry_default = \<lparr>er_by_source = [], er_ordered = []\<rparr>"

definition registry_len :: "expr_registry \<Rightarrow> nat" where
  "registry_len R = length (er_ordered R)"

definition id_for :: "expr_registry \<Rightarrow> string \<Rightarrow> nat option" where
  "id_for R e = map_of (er_by_source R) e"

definition registry_build_from :: "(dsl \<Rightarrow> json option) \<Rightarrow> http_dsls \<Rightarrow> guard_dsls \<Rightarrow> expr_registry" where
  "registry_build_from to_value http gs = freeze (add_guards to_value gs (add_http to_value http builder_new))"

text \<open>What \<open>main\<close> builds: routes, guards and triggers.\<close>

definition boot_registry :: "(dsl \<Rightarrow> json option) \<Rightarrow> http_dsls \<Rightarrow> guard_dsls \<Rightarrow> trigger_dsls \<Rightarrow> expr_registry" where
  "boot_registry to_value http gs trigs =
     freeze (add_trigger_dsls to_value trigs (add_guards to_value gs (add_http to_value http builder_new)))"

section \<open>What is to be registered\<close>

text \<open>The scripts of a string, of a JSON value and of the DSLs of a tree, in the order of the walk.\<close>

definition string_scripts :: "string \<Rightarrow> string list" where
  "string_scripts s =
     map (\<lambda>(_, _, script). script) (find_script_segments s) @ (case line_expression s of Some e \<Rightarrow> [e] | None \<Rightarrow> [])"

fun json_scripts :: "json \<Rightarrow> string list" where
  "json_scripts (JString s) = string_scripts s"
| "json_scripts (JObject m) = concat (map (\<lambda>(_, v). json_scripts v) m)"
| "json_scripts (JArray a) = concat (map json_scripts a)"
| "json_scripts _ = []"

definition dsl_scripts :: "(dsl \<Rightarrow> json option) \<Rightarrow> dsl \<Rightarrow> string list" where
  "dsl_scripts to_value d = (case to_value d of Some v \<Rightarrow> json_scripts v | None \<Rightarrow> [])"

definition tree_dsls :: "http_dsls \<Rightarrow> guard_dsls \<Rightarrow> trigger_dsls \<Rightarrow> dsl list" where
  "tree_dsls http gs trigs =
     concat (map (\<lambda>(_, methods). concat (map (\<lambda>(_, paths). map snd paths) methods)) http) @
     concat (map (\<lambda>(_, by_key). map snd by_key) gs) @ concat (map (\<lambda>(_, channels). map snd channels) trigs)"

section \<open>Lemmas\<close>

lemma fold_concat_map: "fold (\<lambda>x. fold g (f x)) xs b = fold g (concat (map f xs)) b"
  by (induction xs arbitrary: b) auto

lemma scan_string_fold: "scan_string s b = fold register_expr (string_scripts s) b"
proof -
  have "line_expression s \<noteq> None \<Longrightarrow> starts_with s ''$=''" by (auto simp: line_expression_def Let_def split: if_splits)
  then show ?thesis
    by (auto simp: scan_string_def string_scripts_def Let_def fold_map comp_def case_prod_unfold split: option.splits)
qed

lemma walk_json_fold: "walk_json v b = fold register_expr (json_scripts v) b"
proof (induction v arbitrary: b)
  case (JArray a)
  then have "fold walk_json a b = fold (\<lambda>v. fold register_expr (json_scripts v)) a b" by (intro fold_cong) auto
  then show ?case by (simp add: fold_concat_map)
next
  case (JObject m)
  have "fold (\<lambda>(_, v). walk_json v) m b = fold (\<lambda>x. fold register_expr (case x of (_, v) \<Rightarrow> json_scripts v)) m b"
    using JObject by (intro fold_cong) (auto simp: fun_eq_iff)
  then show ?case by (simp add: fold_concat_map)
qed (simp_all add: scan_string_fold)

lemma add_dsl_fold: "add_dsl to_value d b = fold register_expr (dsl_scripts to_value d) b"
  by (simp add: add_dsl_def dsl_scripts_def walk_json_fold split: option.splits)

lemma fold_fields: "fold (\<lambda>(_, d). add_dsl to_value d) m b = fold (add_dsl to_value) (map snd m) b"
  by (induction m arbitrary: b) auto

lemma boot_registry_fold:
  "boot_registry to_value http gs trigs =
     freeze (fold register_expr (concat (map (dsl_scripts to_value) (tree_dsls http gs trigs))) builder_new)"
proof -
  have layer: "fold (\<lambda>(_, m). fold (\<lambda>(_, d). add_dsl to_value d) m) ms b =
      fold (add_dsl to_value) (concat (map (\<lambda>(_, m). map snd m) ms)) b" for ms :: "('k \<times> dsl hmap) list" and b
    by (induction ms arbitrary: b) (auto simp: fold_fields)
  have http: "add_http to_value http b =
      fold (add_dsl to_value) (concat (map (\<lambda>(_, methods). concat (map (\<lambda>(_, paths). map snd paths) methods)) http)) b" for b
    unfolding add_http_def by (induction http arbitrary: b) (auto simp: layer)
  have "fold (add_dsl to_value) ds b = fold register_expr (concat (map (dsl_scripts to_value) ds)) b" for ds b
    by (induction ds arbitrary: b) (auto simp: add_dsl_fold)
  then show ?thesis
    unfolding boot_registry_def tree_dsls_def add_guards_def add_trigger_dsls_def layer http fold_append comp_def by simp
qed

text \<open>The builder keeps its two fields in step.\<close>

definition builder_ok :: "expr_builder \<Rightarrow> bool" where
  "builder_ok b \<longleftrightarrow> distinct (eb_sources b) \<and> fst ` set (eb_seen b) = set (eb_sources b)"

lemma register_ok:
  "builder_ok b \<Longrightarrow> builder_ok (register_expr e b) \<and> set (eb_sources (register_expr e b)) = insert e (set (eb_sources b))"
  by (auto simp: builder_ok_def register_expr_def hm_contains_iff update_new)

lemma register_all_ok:
  "builder_ok b \<Longrightarrow> builder_ok (fold register_expr es b) \<and>
     set (eb_sources (fold register_expr es b)) = set es \<union> set (eb_sources b)"
proof (induction es arbitrary: b)
  case (Cons e es)
  then show ?case using register_ok[of b e] Cons.IH[of "register_expr e b"] by auto
qed simp

lemma by_source_eq:
  "distinct (map snd xs) \<Longrightarrow> set (map snd xs) \<inter> fst ` set m = {} \<Longrightarrow>
   fold (\<lambda>(i, s). hm_insert s i) xs m = m @ map (\<lambda>(i, s). (s, i)) xs"
proof (induction xs arbitrary: m)
  case (Cons x xs)
  obtain i s where x: "x = (i, s)" by (cases x)
  have "fold (\<lambda>(i, s). hm_insert s i) xs (m @ [(s, i)]) = (m @ [(s, i)]) @ map (\<lambda>(i, s). (s, i)) xs"
    using Cons.prems x by (intro Cons.IH) auto
  then show ?case using Cons.prems x by (auto simp: update_new)
qed simp

lemma id_for_freeze:
  assumes "distinct (eb_sources b)"
  shows "id_for (freeze b) e = Some i \<longleftrightarrow> i < length (eb_sources b) \<and> eb_sources b ! i = e"
proof -
  let ?o = "List.enumerate 0 (eb_sources b)"
  have snds: "map snd ?o = eb_sources b" by (simp add: map_snd_enumerate)
  have eq: "er_by_source (freeze b) = map (\<lambda>(i, s). (s, i)) ?o"
    using by_source_eq[of ?o "[]"] assms snds by (simp add: freeze_def Let_def)
  have "map fst (map (\<lambda>(i, s). (s, i)) ?o) = map snd ?o" by (simp add: comp_def case_prod_unfold)
  then have "distinct (map fst (map (\<lambda>(i, s). (s, i)) ?o))" using snds assms by simp
  then show ?thesis
    unfolding id_for_def eq by (subst map_of_eq_Some_iff) (force simp: set_conv_nth nth_enumerate_eq image_iff)+
qed

text \<open>The builder that \<open>main\<close> freezes: well-formed, with the scripts of the tree.\<close>

lemma boot_builder:
  obtains b where "boot_registry to_value http gs trigs = freeze b" "distinct (eb_sources b)"
    "set (eb_sources b) = \<Union> (set ` dsl_scripts to_value ` set (tree_dsls http gs trigs))"
proof -
  have "builder_ok builder_new" "eb_sources builder_new = []" by (simp_all add: builder_new_def builder_ok_def)
  from register_all_ok[OF this(1)] this(2) show thesis
    by (intro that[OF boot_registry_fold]) (auto simp: builder_ok_def)
qed

lemma freeze_registered: "distinct (eb_sources b) \<Longrightarrow> id_for (freeze b) e \<noteq> None \<longleftrightarrow> e \<in> set (eb_sources b)"
  using id_for_freeze by (auto simp: in_set_conv_nth)

lemma registered_scripts:
  "d \<in> set (tree_dsls http gs trigs) \<Longrightarrow> e \<in> set (dsl_scripts to_value d) \<Longrightarrow> id_for (boot_registry to_value http gs trigs) e \<noteq> None"
  using freeze_registered by (metis boot_builder UN_I image_eqI)

section \<open>Properties\<close>

text \<open>
  The registry that \<open>main\<close> builds is exact: a script has a number if and only if it occurs in some string of some
  route, guard or trigger DSL; the ordered list carries the numbers \<open>0, 1, \<dots>\<close> without a gap and no script twice;
  and looking a script up gives its place in that list.
\<close>

theorem boot_registry_exact:
  "(\<forall>e. id_for (boot_registry to_value http gs trigs) e \<noteq> None \<longleftrightarrow>
      e \<in> \<Union> (set ` dsl_scripts to_value ` set (tree_dsls http gs trigs))) \<and>
   map fst (er_ordered (boot_registry to_value http gs trigs)) = [0..<registry_len (boot_registry to_value http gs trigs)] \<and>
   distinct (map snd (er_ordered (boot_registry to_value http gs trigs))) \<and>
   (\<forall>e i. id_for (boot_registry to_value http gs trigs) e = Some i \<longleftrightarrow>
      (i, e) \<in> set (er_ordered (boot_registry to_value http gs trigs)))"
proof -
  obtain b where R: "boot_registry to_value http gs trigs = freeze b" and d: "distinct (eb_sources b)"
    and b: "set (eb_sources b) = \<Union> (set ` dsl_scripts to_value ` set (tree_dsls http gs trigs))"
    by (rule boot_builder)
  have "id_for (freeze b) e = Some i \<longleftrightarrow> (i, e) \<in> set (er_ordered (freeze b))" for e i
    using id_for_freeze[OF d] by (auto simp: freeze_def Let_def in_set_enumerate_eq)
  then show ?thesis
    using d b freeze_registered[OF d]
    by (simp add: R registry_len_def map_fst_enumerate map_snd_enumerate freeze_def Let_def)
qed

end
