(* ===== verification/Quickjs.thy ===== *)
theory Quickjs
  imports Expr_Registry
begin

text \<open>
  The QuickJS backend (\<open>src/scripting/quickjs.rs\<close>). A request has one session: a JavaScript context, which is what it has
  evaluated so far, and a flag per registered script that says whether its function has been compiled. The
  engine (crate \<open>rquickjs\<close>) and JSON texts (crate \<open>serde_json\<close>) are parameters.

  Each source the backend evaluates has one of five forms, \<open>js_source\<close>; \<open>source_text\<close> is its text. The walk over values
  is the one of \<open>Scripting\<close>, with \<open>qjs_execute\<close> as the way to run a script. The locale \<open>script_runner\<close> states what a walk
  keeps when every script run keeps it; it is interpreted for both backends.
\<close>

section \<open>Sources\<close>

datatype js_source =
    BindIncoming string
  | BindVariable string string
  | DefineFn nat string
  | InvokeFn nat
  | InvokeInline string
  | DeclareUndefined string

text \<open>The call in the try block of a script that is run by its number, or of one that is not registered.\<close>

definition call_fn :: "nat \<Rightarrow> string" where
  "call_fn i = ''__fn_'' @ show_nat i @ ''.call(globalThis)''"

definition try_wrapper :: "string \<Rightarrow> string" where
  "try_wrapper call =
     ''(function(){ try { return {__ok: true, v: ('' @ call @
     '') }; } catch(e) { return {__ok: false, name: (e && e.name) || '' @ [CHR 0x27, CHR 0x27] @
     '', message: (e && e.message) || String(e) }; } }).call(globalThis)''"

fun source_text :: "js_source \<Rightarrow> string" where
  "source_text (BindIncoming j) = ''globalThis.incoming = JSON.parse('' @ js_string_literal j @ '');''"
| "source_text (BindVariable k j) =
     ''globalThis['' @ js_string_literal k @ ''] = JSON.parse('' @ js_string_literal j @ '');''"
| "source_text (DefineFn i script) = ''globalThis.__fn_'' @ show_nat i @ '' = function(){ return ('' @ script @ ''); };''"
| "source_text (InvokeFn i) = try_wrapper (call_fn i)"
| "source_text (InvokeInline script) = try_wrapper (wrap_script script)"
| "source_text (DeclareUndefined x) = declare_undefined x"

section \<open>Sessions\<close>

text \<open>
  What a source evaluates to, as far as the backend looks: the wrapper's object, with the value (reading it may
  fail) or with the name and the message of what was thrown, or something that is no object.
\<close>

datatype wrapped = Returned "string + js_value" | Threw string string | NoObject

record qjs_params =
  qjs_eval :: "string list \<Rightarrow> string \<Rightarrow> string + wrapped"
  qjs_text :: "json \<Rightarrow> string"
  qjs_read :: "string \<Rightarrow> string + json"

record qjs_session =
  qs_history :: "js_source list"
  qs_compiled :: "bool list"

definition session_new :: "expr_registry \<Rightarrow> qjs_session" where
  "session_new R = \<lparr>qs_history = [], qs_compiled = replicate (registry_len R) False\<rparr>"

definition session_eval :: "qjs_params \<Rightarrow> js_source \<Rightarrow> qjs_session \<Rightarrow> (string + wrapped) \<times> qjs_session" where
  "session_eval P src s =
     (qjs_eval P (map source_text (qs_history s)) (source_text src), s\<lparr>qs_history := qs_history s @ [src]\<rparr>)"

text \<open>Compile a registered script on its first use in the session.\<close>

definition ensure_compiled ::
  "qjs_params \<Rightarrow> expr_registry \<Rightarrow> string \<Rightarrow> qjs_session \<Rightarrow> unit result \<times> qjs_session" where
  "ensure_compiled P R script s =
     (case id_for R script of
        None \<Rightarrow> (Inr (), s)
      | Some i \<Rightarrow>
          if i < length (qs_compiled s) \<and> qs_compiled s ! i then (Inr (), s)
          else case session_eval P (DefineFn i script) s of
              (Inl e, s1) \<Rightarrow> (script_failed e, s1)
            | (Inr _, s1) \<Rightarrow> (Inr (), s1\<lparr>qs_compiled := (qs_compiled s1)[i := True]\<rparr>))"

definition invoke_source :: "expr_registry \<Rightarrow> string \<Rightarrow> js_source" where
  "invoke_source R script = (case id_for R script of Some i \<Rightarrow> InvokeFn i | None \<Rightarrow> InvokeInline script)"

text \<open>The bounded retry loop: \<open>n\<close> attempts are left.\<close>

fun qjs_attempts ::
  "qjs_params \<Rightarrow> string \<Rightarrow> js_source \<Rightarrow> nat \<Rightarrow> qjs_session \<Rightarrow> json result \<times> qjs_session" where
  "qjs_attempts P script src 0 s = (Inl (ScriptEvaluation (RetryCapExceeded script)), s)"
| "qjs_attempts P script src (Suc n) s =
     (case session_eval P src s of
        (Inl e, s1) \<Rightarrow> (script_failed e, s1)
      | (Inr NoObject, s1) \<Rightarrow> (Inl (ScriptEvaluation (Text ''wrapper did not return an object'')), s1)
      | (Inr (Returned (Inl e)), s1) \<Rightarrow> (script_failed e, s1)
      | (Inr (Returned (Inr v)), s1) \<Rightarrow> (qjs_value_to_json (qjs_read P) v, s1)
      | (Inr (Threw name msg), s1) \<Rightarrow>
          (let full = name @ '': '' @ msg in
           case (if name = ''ReferenceError'' then extract_undeclared_identifier full else None) of
             None \<Rightarrow> (script_failed full, s1)
           | Some ident \<Rightarrow>
               (case session_eval P (DeclareUndefined ident) s1 of
                  (Inl e, s2) \<Rightarrow> (script_failed e, s2)
                | (Inr _, s2) \<Rightarrow> qjs_attempts P script src n s2)))"

definition qjs_execute :: "qjs_params \<Rightarrow> expr_registry \<Rightarrow> string \<Rightarrow> qjs_session \<Rightarrow> json result \<times> qjs_session" where
  "qjs_execute P R script s =
     (case ensure_compiled P R script s of
        (Inl e, s1) \<Rightarrow> (Inl e, s1)
      | (Inr _, s1) \<Rightarrow> qjs_attempts P script (invoke_source R script) (Suc MAX_UNDECLARED_RETRIES) s1)"

definition qjs_evaluate_with :: "qjs_params \<Rightarrow> expr_registry \<Rightarrow> json \<Rightarrow> qjs_session \<Rightarrow> json result \<times> qjs_session" where
  "qjs_evaluate_with P R = evaluate_with (qjs_text P) (qjs_execute P R)"

definition qjs_bindings :: "qjs_params \<Rightarrow> execution_context \<Rightarrow> js_source list" where
  "qjs_bindings P c =
     BindIncoming (qjs_text P (incoming_json c)) # map (\<lambda>(k, v). BindVariable k (qjs_text P v)) (variables c)"

fun qjs_setup_bindings :: "qjs_params \<Rightarrow> js_source list \<Rightarrow> qjs_session \<Rightarrow> unit result \<times> qjs_session" where
  "qjs_setup_bindings P [] s = (Inr (), s)"
| "qjs_setup_bindings P (src # rest) s =
     (case session_eval P src s of
        (Inl e, s1) \<Rightarrow> (script_failed e, s1)
      | (Inr _, s1) \<Rightarrow> qjs_setup_bindings P rest s1)"

text \<open>The session of the request is made by the first evaluation that needs one and kept for the others.\<close>

definition qjs_evaluate_tracked ::
  "qjs_params \<Rightarrow> expr_registry \<Rightarrow> json \<Rightarrow> execution_context \<Rightarrow> qjs_session option \<Rightarrow>
   (json \<times> bool) result \<times> qjs_session option" where
  "qjs_evaluate_tracked P R input c slot =
     (if \<not> has_expressions input then (Inr (input, False), slot)
      else case qjs_setup_bindings P (qjs_bindings P c) (opt_or slot (session_new R)) of
          (Inl e, s1) \<Rightarrow> (Inl e, Some s1)
        | (Inr _, s1) \<Rightarrow>
            (case qjs_evaluate_with P R input s1 of
               (Inl e, s2) \<Rightarrow> (Inl e, Some s2)
             | (Inr v, s2) \<Rightarrow> (Inr (v, True), Some s2)))"

section \<open>What a walk keeps\<close>

locale script_runner =
  fixes run :: "string \<Rightarrow> 'h \<Rightarrow> json result \<times> 'h"
    and keeps_rel :: "'h \<Rightarrow> 'h \<Rightarrow> bool"
    and scripts :: "string set"
  assumes keeps_refl: "keeps_rel h h"
    and keeps_trans: "keeps_rel h h1 \<Longrightarrow> keeps_rel h1 h2 \<Longrightarrow> keeps_rel h h2"
    and run_keeps: "e \<in> scripts \<Longrightarrow> keeps_rel h (snd (run e h))"
begin

lemma segments_keep:
  "(\<And>a b e. (a, b, e) \<in> set segs \<Longrightarrow> e \<in> scripts) \<Longrightarrow>
   keeps_rel h (snd (interpolate_segments render run s segs cursor out err h))"
proof (induction segs arbitrary: cursor out err h)
  case (Cons seg segs)
  obtain a b e where seg: "seg = (a, b, e)" by (cases seg)
  obtain r h1 where run: "run e h = (r, h1)" by (cases "run e h")
  have "keeps_rel h h1" using run_keeps[of e h] Cons.prems seg run by auto
  moreover have "keeps_rel h1 (snd (interpolate_segments render run s segs cursor' out' err' h1))" for cursor' out' err'
    using Cons.prems by (intro Cons.IH) auto
  ultimately show ?case by (auto simp: seg run Let_def intro: keeps_trans split: sum.splits)
qed (simp add: keeps_refl split: option.splits)

lemma string_keeps:
  assumes "set (string_scripts s) \<subseteq> scripts"
  shows "keeps_rel h (snd (evaluate_string render run s h))"
proof (cases "whole_script s")
  case None
  have "keeps_rel h (snd (interpolate_segments render run s (find_script_segments s) 0 [] None h))"
    using assms by (intro segments_keep) (force simp: string_scripts_def)
  then show ?thesis using None by (simp add: evaluate_string_def)
next
  case (Some e)
  then have "e \<in> set (string_scripts s)"
    by (auto simp: whole_script_def string_scripts_def split: option.splits list.splits if_splits)
  then have "keeps_rel h (snd (run e h))" using assms run_keeps by blast
  then show ?thesis using Some by (auto simp: evaluate_string_def split: prod.splits sum.splits)
qed

lemma value_keeps:
  "set (json_scripts v) \<subseteq> scripts \<Longrightarrow> keeps_rel h (snd (evaluate_with render run v h))"
proof (induction v arbitrary: h)
  case (JArray a)
  then have "keeps_rel h (snd (evaluate_items render run a h))"
  proof (induction a arbitrary: h)
    case (Cons v a)
    obtain r h1 where v: "evaluate_with render run v h = (r, h1)" by fastforce
    have "keeps_rel h h1" using Cons.prems v by (metis UnCI list.set_intros(1) snd_conv subset_iff concat.simps(2) json_scripts.simps(3) list.simps(9) set_append)
    moreover have "keeps_rel h1 (snd (evaluate_items render run a h1))" using Cons by simp
    ultimately show ?case using v by (auto intro: keeps_trans split: prod.splits sum.splits)
  qed (simp add: keeps_refl)
  then show ?case by (auto split: prod.splits sum.splits)
next
  case (JObject m)
  then have "keeps_rel h (snd (evaluate_entries render run m h))"
  proof (induction m arbitrary: h)
    case (Cons kv m)
    obtain k v where kv: "kv = (k, v)" by (cases kv)
    obtain r h1 where v: "evaluate_with render run v h = (r, h1)" by fastforce
    have "keeps_rel h (snd (evaluate_with render run v h))" using Cons.prems kv by (intro Cons.prems(1)[of kv v]) auto
    moreover have "keeps_rel h1 (snd (evaluate_entries render run m h1))" using Cons.prems by (intro Cons.IH) auto
    ultimately show ?case using kv v by (auto intro: keeps_trans split: prod.splits sum.splits)
  qed (simp add: keeps_refl)
  then show ?case by (auto split: prod.splits sum.splits)
qed (simp_all add: keeps_refl string_keeps)

end

section \<open>Boa\<close>

text \<open>A Boa context only ever has more sources evaluated in it, whatever it evaluates.\<close>

definition extends :: "string list \<Rightarrow> string list \<Rightarrow> bool" where
  "extends h h' \<longleftrightarrow> (\<exists>t. h' = h @ t)"

lemma extends_trans: "extends h h1 \<Longrightarrow> extends h1 h2 \<Longrightarrow> extends h h2"
  by (auto simp: extends_def)

lemma execute_js_extends: "extends h (snd (execute_js P n script h))"
proof (induction P n script h rule: execute_js.induct)
  case (2 P n script h)
  let ?h2 = "\<lambda>x. (h @ [wrap_script script]) @ [declare_undefined x]"
  have "extends h (?h2 x)" for x by (simp add: extends_def)
  then have "extends h (snd (execute_js P n script (?h2 x)))"
    if "js_eval P h (wrap_script script) = Inl m" "extract_undeclared_identifier m = Some x"
      "js_eval P (h @ [wrap_script script]) (declare_undefined x) = Inr v" for m x v
    using 2 that extends_trans by blast
  then show ?case by (auto simp: Let_def extends_def split: sum.splits option.splits)
qed (simp add: extends_def)

interpretation boa: script_runner "run_script P" extends UNIV for P
  by unfold_locales (auto simp: extends_def[of h h for h] run_script_def execute_js_extends intro: extends_trans
      simp del: execute_js.simps)

section \<open>QuickJS\<close>

text \<open>
  The invariant of a session: a flag that is set stands for a definition that has been evaluated, a function is
  invoked only after the definition of the script that has its number, and then its flag is set.
\<close>

definition defined_in :: "expr_registry \<Rightarrow> nat \<Rightarrow> js_source list \<Rightarrow> bool" where
  "defined_in R i h \<longleftrightarrow> (\<exists>e. id_for R e = Some i \<and> DefineFn i e \<in> set h)"

fun invoked_after :: "expr_registry \<Rightarrow> js_source list \<Rightarrow> js_source list \<Rightarrow> bool" where
  "invoked_after R before [] \<longleftrightarrow> True"
| "invoked_after R before (x # h) \<longleftrightarrow>
     (\<forall>i. x = InvokeFn i \<longrightarrow> defined_in R i before) \<and> invoked_after R (before @ [x]) h"

definition session_ok :: "expr_registry \<Rightarrow> qjs_session \<Rightarrow> bool" where
  "session_ok R s \<longleftrightarrow> length (qs_compiled s) = registry_len R \<and> invoked_after R [] (qs_history s) \<and>
     (\<forall>i < length (qs_compiled s). qs_compiled s ! i \<longrightarrow> defined_in R i (qs_history s)) \<and>
     (\<forall>i < registry_len R. InvokeFn i \<in> set (qs_history s) \<longrightarrow> qs_compiled s ! i)"

text \<open>A function that may be invoked: defined, and flagged if it has a flag.\<close>

definition ready :: "expr_registry \<Rightarrow> nat \<Rightarrow> qjs_session \<Rightarrow> bool" where
  "ready R i s \<longleftrightarrow> defined_in R i (qs_history s) \<and> (i < registry_len R \<longrightarrow> qs_compiled s ! i)"

text \<open>
  What one script, one value or one evaluation does to a session: it stays right, evaluates no script inline and
  compiles nothing again.
\<close>

definition session_step :: "expr_registry \<Rightarrow> qjs_session \<Rightarrow> qjs_session \<Rightarrow> bool" where
  "session_step R s s' \<longleftrightarrow> (session_ok R s \<longrightarrow> session_ok R s' \<and>
     (\<exists>new. qs_history s' = qs_history s @ new \<and> (\<forall>e. InvokeInline e \<notin> set new) \<and>
        (\<forall>i < registry_len R. qs_compiled s ! i \<longrightarrow> qs_compiled s' ! i \<and> (\<forall>e. DefineFn i e \<notin> set new))))"

lemma invoked_after_snoc:
  "invoked_after R before (h @ [x]) \<longleftrightarrow>
     invoked_after R before h \<and> (\<forall>i. x = InvokeFn i \<longrightarrow> defined_in R i (before @ h))"
  by (induction h arbitrary: before) (simp_all add: conj_assoc)

lemma defined_in_append: "defined_in R i h \<Longrightarrow> defined_in R i (h @ t)"
  by (auto simp: defined_in_def)

lemma session_step_refl: "session_step R s s"
  by (auto simp: session_step_def)

lemma session_step_trans:
  assumes "session_step R s s1" "session_step R s1 s2"
  shows "session_step R s s2"
  unfolding session_step_def
proof
  assume ok: "session_ok R s"
  then obtain a where a: "session_ok R s1" "qs_history s1 = qs_history s @ a" "\<forall>e. InvokeInline e \<notin> set a"
    "\<forall>i < registry_len R. qs_compiled s ! i \<longrightarrow> qs_compiled s1 ! i \<and> (\<forall>e. DefineFn i e \<notin> set a)"
    using assms(1) unfolding session_step_def by blast
  then obtain b where b: "session_ok R s2" "qs_history s2 = qs_history s1 @ b" "\<forall>e. InvokeInline e \<notin> set b"
    "\<forall>i < registry_len R. qs_compiled s1 ! i \<longrightarrow> qs_compiled s2 ! i \<and> (\<forall>e. DefineFn i e \<notin> set b)"
    using assms(2) unfolding session_step_def by blast
  show "session_ok R s2 \<and> (\<exists>new. qs_history s2 = qs_history s @ new \<and> (\<forall>e. InvokeInline e \<notin> set new) \<and>
      (\<forall>i < registry_len R. qs_compiled s ! i \<longrightarrow> qs_compiled s2 ! i \<and> (\<forall>e. DefineFn i e \<notin> set new)))"
    using a(2-4) b by (intro conjI exI[of _ "a @ b"]) auto
qed

lemma session_new_ok: "session_ok R (session_new R)"
  by (simp add: session_ok_def session_new_def)

lemma eval_step:
  assumes "session_eval P src s = (r, s1)" "\<And>e. src \<noteq> InvokeInline e" "\<And>i e. src \<noteq> DefineFn i e"
    and "\<And>i. src = InvokeFn i \<Longrightarrow> ready R i s"
  shows "session_step R s s1"
proof -
  have s1: "qs_history s1 = qs_history s @ [src]" "qs_compiled s1 = qs_compiled s"
    using assms(1) by (auto simp: session_eval_def)
  show ?thesis
    unfolding session_step_def
  proof (intro impI conjI)
    assume "session_ok R s"
    then show "session_ok R s1"
      using assms(4) by (cases src) (auto simp: session_ok_def s1 invoked_after_snoc defined_in_append ready_def)
    show "\<exists>new. qs_history s1 = qs_history s @ new \<and> (\<forall>e. InvokeInline e \<notin> set new) \<and>
        (\<forall>j < registry_len R. qs_compiled s ! j \<longrightarrow> qs_compiled s1 ! j \<and> (\<forall>e. DefineFn j e \<notin> set new))"
      using assms(2,3) s1 by (intro exI[of _ "[src]"]) (auto dest: sym)
  qed
qed

lemma compile_step:
  assumes "ensure_compiled P R script s = (r, s1)"
  shows "session_step R s s1"
    and "session_ok R s \<Longrightarrow> r = Inr u \<Longrightarrow> id_for R script = Some i \<Longrightarrow> ready R i s1"
proof -
  have fresh: "s1 = s \<or> (\<exists>i. id_for R script = Some i \<and> \<not> (i < length (qs_compiled s) \<and> qs_compiled s ! i) \<and>
      qs_history s1 = qs_history s @ [DefineFn i script] \<and>
      (qs_compiled s1 = qs_compiled s \<or> qs_compiled s1 = (qs_compiled s)[i := True]))"
    using assms by (auto simp: ensure_compiled_def session_eval_def split: option.splits if_splits sum.splits)
  then show "session_step R s s1"
  proof
    assume "\<exists>i. id_for R script = Some i \<and> \<not> (i < length (qs_compiled s) \<and> qs_compiled s ! i) \<and>
      qs_history s1 = qs_history s @ [DefineFn i script] \<and>
      (qs_compiled s1 = qs_compiled s \<or> qs_compiled s1 = (qs_compiled s)[i := True])"
    then obtain i where i: "id_for R script = Some i" "\<not> (i < length (qs_compiled s) \<and> qs_compiled s ! i)"
      "qs_history s1 = qs_history s @ [DefineFn i script]"
      "qs_compiled s1 = qs_compiled s \<or> qs_compiled s1 = (qs_compiled s)[i := True]" by blast
    show ?thesis
      unfolding session_step_def
    proof (intro impI conjI)
      assume ok: "session_ok R s"
      have set_flag: "(qs_compiled s)[i := True] ! j" if "j < length (qs_compiled s)" "qs_compiled s ! j" for j
        using that by (cases "j = i") auto
      have "defined_in R i (qs_history s1)" using i by (auto simp: defined_in_def)
      then have "defined_in R j (qs_history s1)" if "j < length (qs_compiled s1)" "qs_compiled s1 ! j" for j
        using ok i(3,4) that by (cases "j = i") (auto simp: session_ok_def defined_in_append)
      then show "session_ok R s1" using ok i(3,4) set_flag by (auto simp: session_ok_def invoked_after_snoc)
      show "\<exists>new. qs_history s1 = qs_history s @ new \<and> (\<forall>e. InvokeInline e \<notin> set new) \<and>
        (\<forall>j < registry_len R. qs_compiled s ! j \<longrightarrow> qs_compiled s1 ! j \<and> (\<forall>e. DefineFn j e \<notin> set new))"
        using ok i(2-4) set_flag by (intro exI[of _ "[DefineFn i script]"]) (auto simp: session_ok_def)
    qed
  qed (simp add: session_step_refl)
  show "ready R i s1" if "session_ok R s" "r = Inr u" "id_for R script = Some i"
    using assms that
    by (auto simp: ensure_compiled_def session_eval_def script_failed_def session_ok_def defined_in_def ready_def
        split: option.splits if_splits sum.splits)
qed

lemma ready_step: "session_step R s s1 \<Longrightarrow> session_ok R s \<Longrightarrow> ready R i s \<Longrightarrow> ready R i s1"
  by (auto simp: session_step_def ready_def defined_in_append)

lemma attempts_step:
  assumes "session_ok R s" "ready R i s"
  shows "session_step R s (snd (qjs_attempts P script (InvokeFn i) n s))"
  using assms
proof (induction n arbitrary: s)
  case (Suc n)
  obtain r s1 where ev: "session_eval P (InvokeFn i) s = (r, s1)" by fastforce
  have s1: "session_step R s s1" using Suc.prems by (intro eval_step[OF ev]) auto
  have "session_step R s s2 \<and> session_step R s (snd (qjs_attempts P script (InvokeFn i) n s2))"
    if "session_eval P (DeclareUndefined x) s1 = (r2, s2)" for x r2 s2
  proof -
    have s2: "session_step R s s2" using s1 eval_step[OF that, of R] session_step_trans by blast
    then have "session_ok R s2" "ready R i s2"
      using Suc.prems ready_step[OF s2 Suc.prems] by (simp_all add: session_step_def)
    then show ?thesis using Suc.IH s2 session_step_trans by blast
  qed
  then show ?case using s1 by (auto simp: ev Let_def split: sum.splits wrapped.splits option.splits prod.splits)
qed (simp add: session_step_refl)

lemma execute_step:
  assumes "id_for R script \<noteq> None"
  shows "session_step R s (snd (qjs_execute P R script s))"
proof (cases "session_ok R s")
  case True
  obtain i where i: "id_for R script = Some i" using assms by blast
  obtain r s1 where c: "ensure_compiled P R script s = (r, s1)" by fastforce
  note step = compile_step(1)[OF c]
  show ?thesis
  proof (cases r)
    case (Inr u)
    have "session_ok R s1" using step True by (simp add: session_step_def)
    then have "session_step R s1 (snd (qjs_attempts P script (InvokeFn i) n s1))" for n
      using compile_step(2)[OF c True Inr i] attempts_step by blast
    then show ?thesis using session_step_trans[OF step] c i Inr
      by (simp add: qjs_execute_def invoke_source_def del: qjs_attempts.simps)
  qed (use c step in \<open>simp add: qjs_execute_def\<close>)
qed (simp add: session_step_def)

interpretation qjs: script_runner "qjs_execute P R" "session_step R" "{e. id_for R e \<noteq> None}" for P R
  by unfold_locales (auto simp: session_step_refl execute_step intro: session_step_trans)

lemma bindings_step:
  assumes "\<And>x. \<exists>k j. f x = BindVariable k j"
  shows "session_step R s (snd (qjs_setup_bindings P (map f xs) s))"
proof (induction xs arbitrary: s)
  case (Cons x xs)
  obtain r s1 where ev: "session_eval P (f x) s = (r, s1)" by fastforce
  obtain k j where "f x = BindVariable k j" using assms by blast
  then have one: "session_step R s s1" by (intro eval_step[OF ev]) simp_all
  show ?case using one session_step_trans[OF one Cons.IH[of s1]] ev by (cases r) simp_all
qed (simp add: session_step_refl)

lemma setup_step: "session_step R s (snd (qjs_setup_bindings P (qjs_bindings P c) s))"
proof -
  obtain r s1 where ev: "session_eval P (BindIncoming (qjs_text P (incoming_json c))) s = (r, s1)" by fastforce
  have one: "session_step R s s1" by (rule eval_step[OF ev]) simp_all
  have rest: "session_step R s1 (snd (qjs_setup_bindings P (map (\<lambda>(k, v). BindVariable k (qjs_text P v)) (variables c)) s1))"
    by (intro bindings_step) auto
  show ?thesis using one session_step_trans[OF one rest] ev by (cases r) (simp_all add: qjs_bindings_def)
qed

lemma tracked_step:
  assumes "set (json_scripts v) \<subseteq> {e. id_for R e \<noteq> None}" "has_expressions v"
  shows "\<exists>s'. snd (qjs_evaluate_tracked P R v c slot) = Some s' \<and> session_step R (opt_or slot (session_new R)) s'"
proof -
  obtain r s1 where b: "qjs_setup_bindings P (qjs_bindings P c) (opt_or slot (session_new R)) = (r, s1)" by fastforce
  have s1: "session_step R (opt_or slot (session_new R)) s1" using setup_step[of R "opt_or slot (session_new R)" P c] b by simp
  obtain r2 s2 where e: "qjs_evaluate_with P R v s1 = (r2, s2)" by fastforce
  have "session_step R s1 s2" using qjs.value_keeps[OF assms(1), of s1 "qjs_text P" P] e by (simp add: qjs_evaluate_with_def)
  from s1 session_step_trans[OF s1 this] show ?thesis
    using b e assms(2) by (cases r; cases r2) (simp_all add: qjs_evaluate_tracked_def)
qed

text \<open>The values inside a value.\<close>

fun json_parts :: "json \<Rightarrow> json list" where
  "json_parts (JObject m) = JObject m # concat (map (\<lambda>(_, v). json_parts v) m)"
| "json_parts (JArray a) = JArray a # concat (map json_parts a)"
| "json_parts v = [v]"

lemma parts_scripts: "v \<in> set (json_parts j) \<Longrightarrow> set (json_scripts v) \<subseteq> set (json_scripts j)"
  by (induction j) fastforce+

section \<open>Properties\<close>

text \<open>
  C38. What the registry is for: with the registry of the loaded tree, evaluating any value of any DSL of that tree never
  hands the text of a script to the engine except to compile it, never compiles again a script whose flag is
  set, sets the flag of every function it invokes, and never invokes a function whose definition has not been
  evaluated in the same session. The session that is left has all this again, so it holds for every evaluation
  of a request.
\<close>

theorem qjs_compiles_on_first_use:
  assumes "d \<in> set (tree_dsls http gs trigs)" "to_value d = Some j" "v \<in> set (json_parts j)" "has_expressions v"
    and "R = boot_registry to_value http gs trigs" "s = opt_or slot (session_new R)" "slot \<noteq> None \<longrightarrow> session_ok R s"
  shows "\<exists>s' new. snd (qjs_evaluate_tracked P R v c slot) = Some s' \<and> session_ok R s' \<and> qs_history s' = qs_history s @ new \<and>
     (\<forall>e. InvokeInline e \<notin> set new) \<and>
     (\<forall>i < registry_len R. (qs_compiled s ! i \<longrightarrow> qs_compiled s' ! i \<and> (\<forall>e. DefineFn i e \<notin> set new)) \<and>
        (InvokeFn i \<in> set new \<longrightarrow> qs_compiled s' ! i))"
proof -
  have "set (json_scripts v) \<subseteq> set (dsl_scripts to_value d)" using parts_scripts[OF assms(3)] assms(2) by (simp add: dsl_scripts_def)
  then have "set (json_scripts v) \<subseteq> {e. id_for R e \<noteq> None}" using registered_scripts assms(1,5) by fastforce
  from tracked_step[OF this assms(4), of P c slot] obtain s' where s':
    "snd (qjs_evaluate_tracked P R v c slot) = Some s'" "session_step R s s'" using assms(6) by auto
  have "session_ok R s" using assms(6,7) session_new_ok by (cases slot) auto
  then obtain new where new: "session_ok R s'" "qs_history s' = qs_history s @ new" "\<forall>e. InvokeInline e \<notin> set new"
      "\<forall>i < registry_len R. qs_compiled s ! i \<longrightarrow> qs_compiled s' ! i \<and> (\<forall>e. DefineFn i e \<notin> set new)"
    using s'(2) unfolding session_step_def by blast
  have "qs_compiled s' ! i" if "i < registry_len R" "InvokeFn i \<in> set new" for i
    using new(1,2) that by (auto simp: session_ok_def)
  then show ?thesis using s'(1) new by (intro exI[of _ s'] exI[of _ new]) blast
qed

theorem qjs_compiles_on_first_use_witness:
  "(let d = dsl_new [(''a'', return_of JNull 200)]; http = [(''p'', [(''GET'', [(''x'', d)])])];
        j = JObject [(''return'', JString ''${body.n}'')]; to_value = (\<lambda>_. Some j);
        R = boot_registry to_value http [] []; P = \<lparr>qjs_eval = \<lambda>_ _. Inr (Returned (Inr JsNull)), qjs_text = \<lambda>_. ''{}'', qjs_read = \<lambda>_. Inr JNull\<rparr> in
    \<exists>s'. snd (qjs_evaluate_tracked P R j (ctx_with_state [] [] [] [] []) None) = Some s' \<and> session_ok R s' \<and>
      (\<forall>e. InvokeInline e \<notin> set (qs_history s')))"
proof -
  let ?d = "dsl_new [(''a'', return_of JNull 200)]"
  let ?http = "[(''p'', [(''GET'', [(''x'', ?d)])])] :: http_dsls"
  let ?j = "JObject [(''return'', JString ''${body.n}'')]"
  let ?R = "boot_registry (\<lambda>_. Some ?j) ?http [] []"
  let ?P = "\<lparr>qjs_eval = \<lambda>_ _. Inr (Returned (Inr JsNull)), qjs_text = \<lambda>_. ''{}'', qjs_read = \<lambda>_. Inr JNull\<rparr>"
  have "has_expressions ?j" by code_simp
  then obtain s' new where "snd (qjs_evaluate_tracked ?P ?R ?j (ctx_with_state [] [] [] [] []) None) = Some s'" "session_ok ?R s'"
    "qs_history s' = qs_history (session_new ?R) @ new" "\<forall>e. InvokeInline e \<notin> set new"
    using qjs_compiles_on_first_use[of ?d ?http "[]" "[]" "\<lambda>_. Some ?j" ?j ?j ?R "session_new ?R" None ?P "ctx_with_state [] [] [] [] []"]
    by (auto simp: tree_dsls_def)
  then show ?thesis unfolding Let_def by (auto simp: session_new_def)
qed

end
