(* ===== verification/Termination.thy ===== *)
theory Termination
  imports Engine_Laws Engine_Frames
begin

text \<open>
  When a run ends. The loop of one run is bounded by \<open>max_iterations\<close>; runs nest without a bound of
  the engine's own. Here \<open>callees\<close> collects the DSLs a step may start (the target of a template step
  and its guards); when no self-call and no default exception DSL is configured and the callee relation
  of the loaded DSLs is well-founded, every run ends, and the rank of the DSL bounds the fuel it needs.
  A DSL that templates into itself is the other side: no fuel is enough.
\<close>

section \<open>Computations that end\<close>

text \<open>
  Under a project and a fixed DSL tree, the computation gives an outcome and leaves the frame of the
  context and the tree as they are.
\<close>

definition ends :: "string \<Rightarrow> http_dsls option \<Rightarrow> guard_dsls \<Rightarrow> 'a comp \<Rightarrow> bool" where
  "ends p D G m \<longleftrightarrow> (\<forall>c w. ctx_project c = p \<longrightarrow> dsls w = D \<longrightarrow> guards w = G \<longrightarrow>
     (\<exists>r c' w'. m c w = Some (r, c', w') \<and> ctx_project c' = p \<and> dsls w' = D \<and> guards w' = G))"

lemma endsI:
  "(\<And>c w. ctx_project c = p \<Longrightarrow> dsls w = D \<Longrightarrow> guards w = G \<Longrightarrow>
     \<exists>r c' w'. m c w = Some (r, c', w') \<and> ctx_project c' = p \<and> dsls w' = D \<and> guards w' = G) \<Longrightarrow>
   ends p D G m"
  unfolding ends_def by blast

lemma endsE:
  assumes "ends p D G m" "ctx_project c = p" "dsls w = D" "guards w = G"
  obtains r c' w' where "m c w = Some (r, c', w')" "ctx_project c' = p" "dsls w' = D" "guards w' = G"
  using assms unfolding ends_def by blast

lemma ends_bind:
  assumes "ends p D G m" "\<And>x. ends p D G (f x)"
  shows "ends p D G (bindc m f)"
proof (rule endsI)
  fix c :: execution_context and w :: world
  assume "ctx_project c = p" "dsls w = D" "guards w = G"
  then obtain r c1 w1 where m: "m c w = Some (r, c1, w1)" "ctx_project c1 = p" "dsls w1 = D" "guards w1 = G"
    by (rule endsE[OF assms(1)])
  show "\<exists>r c' w'. bindc m f c w = Some (r, c', w') \<and> ctx_project c' = p \<and> dsls w' = D \<and> guards w' = G"
  proof (cases r)
    case (Inl e)
    then show ?thesis using m by (simp add: bindc_def)
  next
    case (Inr x)
    then show ?thesis using m endsE[OF assms(2)[of x] m(2-4)] by (fastforce simp: bindc_def)
  qed
qed

lemma ends_bind_world:
  assumes "\<And>w. dsls w = D \<Longrightarrow> guards w = G \<Longrightarrow> ends p D G (f (g w))"
  shows "ends p D G (bindc (get_world g) f)"
  using assms unfolding ends_def bindc_def by fastforce

lemma ends_bind_asks:
  assumes "\<And>x c. ctx_project c = p \<Longrightarrow> g c = Inr x \<Longrightarrow> ends p D G (f x)"
  shows "ends p D G (bindc (asks g) f)"
proof (rule endsI)
  fix c :: execution_context and w :: world
  assume hyps: "ctx_project c = p" "dsls w = D" "guards w = G"
  show "\<exists>r c' w'. bindc (asks g) f c w = Some (r, c', w') \<and> ctx_project c' = p \<and> dsls w' = D \<and> guards w' = G"
  proof (cases "g c")
    case (Inr x)
    then show ?thesis using endsE[OF assms[OF hyps(1) Inr] hyps] by (fastforce simp: bindc_def)
  qed (simp add: bindc_def hyps)
qed

lemma ends_pure:
  "ends p D G (ret x)" "ends p D G (raise e)" "ends p D G (asks f)" "ends p D G (get_world g)"
  "ends p D G (set_var k v)" "ends p D G (continue_with nx)" "ends p D G (invalid_step why)"
  "ends p D G (ws_error wy)" "ends p D G (eval_expr E j)" "ends p D G (\<lambda>c w. Some (s, c, w))"
  by (auto simp: ends_def continue_with_def invalid_step_def ws_error_def eval_expr_def)

lemma ends_set_var_opt: "ends p D G (set_var_opt n v)"
  unfolding set_var_opt_def by (cases n) (simp_all add: ends_pure)

lemma ends_if: "(b \<Longrightarrow> ends p D G m) \<Longrightarrow> (\<not> b \<Longrightarrow> ends p D G n) \<Longrightarrow> ends p D G (if b then m else n)"
  by simp

lemma ends_option:
  "(x = None \<Longrightarrow> ends p D G m) \<Longrightarrow> (\<And>y. x = Some y \<Longrightarrow> ends p D G (f y)) \<Longrightarrow>
   ends p D G (case x of None \<Rightarrow> m | Some y \<Rightarrow> f y)"
  by (cases x) simp_all

lemma ends_sum:
  "(\<And>a. x = Inl a \<Longrightarrow> ends p D G (f a)) \<Longrightarrow> (\<And>b. x = Inr b \<Longrightarrow> ends p D G (g b)) \<Longrightarrow>
   ends p D G (case x of Inl a \<Rightarrow> f a | Inr b \<Rightarrow> g b)"
  by (cases x) simp_all

lemma ends_prod: "(\<And>a b. ends p D G (f a b)) \<Longrightarrow> ends p D G (case x of (a, b) \<Rightarrow> f a b)"
  by (cases x) simp

lemma ends_json:
  "ends p D G f \<Longrightarrow> (\<And>b. ends p D G (g b)) \<Longrightarrow> (\<And>n. ends p D G (h n)) \<Longrightarrow> (\<And>s. ends p D G (i s)) \<Longrightarrow>
   (\<And>l. ends p D G (j l)) \<Longrightarrow> (\<And>m. ends p D G (k m)) \<Longrightarrow>
   ends p D G (case x of JNull \<Rightarrow> f | JBool b \<Rightarrow> g b | JNumber n \<Rightarrow> h n | JString s \<Rightarrow> i s |
     JArray l \<Rightarrow> j l | JObject m \<Rightarrow> k m)"
  by (cases x) simp_all

lemma ends_attempt: "ends p D G m \<Longrightarrow> ends p D G (attempt m)"
  unfolding ends_def attempt_def by fastforce

lemma ends_map_error: "ends p D G m \<Longrightarrow> ends p D G (map_error g m)"
  unfolding ends_def map_error_def by (fastforce split: sum.splits)

lemma ends_on_world:
  "(\<And>c w. dsls (snd (f c w)) = dsls w \<and> guards (snd (f c w)) = guards w) \<Longrightarrow> ends p D G (on_world f)"
  unfolding ends_def on_world_def by (auto simp: case_prod_beta)

lemma ends_in_child:
  assumes "ends p D G m" "ctx_project child = p"
  shows "ends p D G (in_child child m)"
proof (rule endsI)
  fix c :: execution_context and w :: world
  assume hyps: "ctx_project c = p" "dsls w = D" "guards w = G"
  have "ctx_project (with_guard_stack_from child c) = p" using assms(2) by (simp add: with_guard_stack_from_def)
  then show "\<exists>r c' w'. in_child child m c w = Some (r, c', w') \<and> ctx_project c' = p \<and> dsls w' = D \<and> guards w' = G"
    by (rule endsE[OF assms(1) _ hyps(2,3)]) (simp add: in_child_def hyps)
qed

lemma ends_guarded:
  assumes "ends p D G m"
  shows "ends p D G (guarded k m)"
proof (rule endsI)
  fix c :: execution_context and w :: world
  assume hyps: "ctx_project c = p" "dsls w = D" "guards w = G"
  show "\<exists>r c' w'. guarded k m c w = Some (r, c', w') \<and> ctx_project c' = p \<and> dsls w' = D \<and> guards w' = G"
  proof (cases "push_guard k c")
    case (Inr c1)
    then have "ctx_project c1 = p" using hyps by (auto simp: push_guard_ok_iff)
    then show ?thesis
      by (rule endsE[OF assms _ hyps(2,3)]) (simp add: guarded_def Inr pop_guard_def)
  qed (simp add: guarded_def hyps)
qed

lemmas ends_control = ends_bind ends_if ends_option ends_sum ends_prod ends_json ends_pure
  ends_set_var_opt ends_attempt ends_map_error ends_guarded

section \<open>Steps\<close>

text \<open>The DSLs a step may start, under a project and a DSL tree.\<close>

definition template_key :: "template_step \<Rightarrow> string \<times> string" where
  "template_key s =
     (let meth = to_uppercase (opt_or (tp_request_type s) ''GET'')
      in (meth, meth @ ''/'' @ trim_char CHR ''/'' (tp_template s)))"

fun callees :: "engine \<Rightarrow> http_dsls option \<Rightarrow> guard_dsls \<Rightarrow> string \<Rightarrow> dsl_step \<Rightarrow> dsl list" where
  "callees E D G p (Template s) =
     (case template_key s of (meth, key) \<Rightarrow>
        (case Option.bind (Option.bind (Option.bind D (\<lambda>t. map_of t p)) (\<lambda>ms. map_of ms meth))
                (\<lambda>ks. map_of ks key) of
           None \<Rightarrow> []
         | Some target \<Rightarrow> target # map snd (applicable_guards is_override_guard p key G (guards_mode E))))"
| "callees E D G p (Iterate _ _ body _ _ _ _ _) = concat (map (callees E D G p) body)"
| "callees E D G p (SingleFlight _ _ body _ _ _) = concat (map (callees E D G p) body)"
| "callees E D G p _ = []"

lemma ends_eval_pairs: "ends p D G (eval_pairs E kvs out)"
  by (induction E kvs out rule: eval_pairs.induct) (auto intro!: ends_control)

lemma ends_map_arg: "ends p D G (evaluate_map_arg E arg sn an)"
  unfolding evaluate_map_arg_def by (intro ends_control ends_eval_pairs)

lemma ends_eval_opt: "ends p D G (eval_opt E v)"
  unfolding eval_opt_def by (intro ends_control)

lemma ends_string_arg: "ends p D G (evaluate_string_arg E s)"
  unfolding evaluate_string_arg_def by (intro ends_control)

lemma ends_loops:
  "ends p D G (assign_loop E kvs)" "ends p D G (switch_loop E cs nx)" "ends p D G (render_headers E kvs out)"
  "ends p D G (eval_tags E kvs)"
proof -
  show "ends p D G (assign_loop E kvs)"
    by (induction E kvs rule: assign_loop.induct) (auto intro!: ends_control)
  show "ends p D G (switch_loop E cs nx)"
    by (induction E cs nx rule: switch_loop.induct) (auto intro!: ends_control)
  show "ends p D G (render_headers E kvs out)"
    by (induction E kvs out rule: render_headers.induct) (auto intro!: ends_control)
  show "ends p D G (eval_tags E kvs)"
    by (induction E kvs rule: eval_tags.induct) (auto intro!: ends_control)
qed

lemma ends_world_ops:
  "ends p D G (state_set k v)" "ends p D G (state_delete k)" "ends p D G (state_get k)"
  "ends p D G (registry_broadcast au v)" "ends p D G (registry_send cid v)"
  "ends p D G (registry_set_tags cid es)" "ends p D G (claim_flight k)" "ends p D G (remove_flight k)"
  "ends p D G (publish_outcome k x)" "ends p D G (await_outcome E k)"
  unfolding state_set_def state_delete_def state_get_def registry_broadcast_def registry_send_def
    registry_set_tags_def claim_flight_def remove_flight_def publish_outcome_def await_outcome_def
  by (auto intro!: ends_on_world simp: case_prod_beta)

lemma ends_leaf_steps:
  "ends p D G (exec_assign E s1)" "ends p D G (exec_return E s2)" "ends p D G (exec_http_mock E s3)"
  "ends p D G (exec_switch E s4)" "ends p D G (exec_log E s5)" "ends p D G (exec_ws_tag E s6)"
  unfolding exec_assign_def exec_return_def return_status_of_def return_header_source_def
    exec_http_mock_def exec_switch_def exec_log_def exec_ws_tag_def Let_def
  by (intro ends_control ends_loops ends_eval_opt ends_world_ops)+

lemma ends_state: "ends p D G (exec_state E s)"
  unfolding exec_state_def
  by (cases "ss_state s") (auto intro!: ends_control ends_world_ops ends_string_arg)

lemma ends_ws_send: "ends p D G (exec_ws_send E s)"
proof -
  have "ends p D G (send_each E ids v)" for ids v
    by (induction E ids v rule: send_each.induct) (auto intro!: ends_control ends_world_ops)
  moreover have "ends p D G (resolve_broadcast_where E bw)" for bw
    unfolding resolve_broadcast_where_def where_operand_def Let_def by (intro ends_control)
  ultimately show ?thesis
    unfolding exec_ws_send_def Let_def by (intro ends_control ends_world_ops)
qed

lemma ends_detach: "ends p D G (exec_detach steps t nx)"
  unfolding exec_detach_def
  by (auto intro!: ends_control ends_on_world split: option.splits prod.splits sum.splits)

lemma ends_iterate: "ends p D G b \<Longrightarrow> ends p D G (exec_iterate E ov v b col into mx nx)"
proof -
  assume b: "ends p D G b"
  have "ends p D G (iterate_loop E v b col elems acc)" for elems acc
    by (induction elems arbitrary: acc) (auto intro!: ends_control ends_eval_opt b)
  then show ?thesis
    unfolding exec_iterate_def Let_def by (intro ends_control)
qed

lemma ends_recv:
  "(\<And>x. ends p D G (f x)) \<Longrightarrow> ends p D G g \<Longrightarrow> ends p D G h \<Longrightarrow>
   ends p D G (case r of Received x \<Rightarrow> f x | ChannelClosed \<Rightarrow> g | RecvTimeout \<Rightarrow> h)"
  by (cases r) simp_all

lemma ends_single_flight: "ends p D G b \<Longrightarrow> ends p D G (exec_single_flight E k t b res nx)"
  unfolding exec_single_flight_def run_as_leader_def run_as_follower_def
  by (intro ends_control ends_string_arg ends_world_ops ends_recv)

lemma ends_http_call: "\<not> self_call_wired E \<Longrightarrow> ends p D G (http_call E run rq)"
  unfolding ends_def http_call_def
  by (auto simp: request_with_ct_def Let_def split: option.splits if_splits)

lemma ends_http: "\<not> crosses_projects E \<Longrightarrow> ends p D G (exec_http E run s)"
  unfolding exec_http_def after_response_def Let_def crosses_projects_def
  by (auto intro!: ends_control ends_eval_opt ends_map_arg ends_http_call)

lemma ends_parallel:
  assumes "\<not> crosses_projects E"
  shows "ends p D G (exec_parallel_http E run s)"
proof -
  have "ends p D G (resolve_peers E a ps)" for a ps
    by (induction ps) (auto intro!: ends_control ends_eval_opt ends_map_arg)
  moreover have "ends p D G (peer_calls E run meth t ct ps order)" for meth t ct ps order
    using assms unfolding crosses_projects_def
    by (induction order) (auto simp: Let_def intro!: ends_control ends_http_call)
  moreover have "ends p D G (predicate_matches E pr resp)" for pr resp
    unfolding predicate_matches_def Let_def by (intro ends_control)
  then have "ends p D G (collect_first_n E n pr outs acc)" for n pr outs acc
  proof (induction outs arbitrary: acc)
    case (Cons out outs)
    then show ?case by (cases out) (auto intro!: ends_bind ends_if ends_sum ends_pure)
  qed (simp add: ends_pure)
  ultimately show ?thesis
    unfolding exec_parallel_http_def Let_def
    by (cases "ph_aggregate (ph_body s)") (auto intro!: ends_control)
qed

lemma ends_template_guards:
  "\<forall>g \<in> set (map snd gs). ends p D G (run g) \<Longrightarrow> ends p D G (template_guards run gs)"
proof (induction gs)
  case (Cons g gs)
  then show ?case by (cases g) (auto intro!: ends_bind ends_if ends_pure ends_guarded)
qed (simp add: ends_pure)

lemma ends_template:
  assumes "\<forall>d \<in> set (callees E D G p (Template s)). ends p D G (run d)"
  shows "ends p D G (exec_template E run s)"
  unfolding exec_template_def template_call_def Let_def
proof (intro ends_bind_asks ends_bind_world ends_bind ends_option ends_pure ends_map_arg ends_set_var_opt
      ends_in_child ends_template_guards, goal_cases)
  case (1 w t p' c target body query headers child ca w')
  then show ?case
    using assms
    by (auto simp: template_key_def Let_def applicable_guards_for_def dest!: sym[of "Some t"])
      (metis image_eqI snd_conv)
next
  case (2 w t p' c target body query headers child ca w')
  then show ?case
    using assms by (auto simp: template_key_def Let_def dest!: sym[of "Some t"])
next
  case (3 w t p' c target body query headers child ca)
  then show ?case
    by (auto simp: template_child_def Let_def ctx_with_state_def with_traceparent_def split: option.splits)
qed

lemma ends_step:
  "\<not> crosses_projects E \<Longrightarrow> \<forall>d \<in> set (callees E D G p s). ends p D G (run d) \<Longrightarrow> ends p D G (exec_step E run s)"
  "\<not> crosses_projects E \<Longrightarrow> \<forall>s \<in> set ss. \<forall>d \<in> set (callees E D G p s). ends p D G (run d) \<Longrightarrow>
     ends p D G (exec_body E run ss)"
proof (induction E run s and E run ss rule: exec_step_exec_body.induct)
qed (auto intro!: ends_leaf_steps ends_http ends_template ends_state ends_iterate ends_parallel ends_detach
    ends_ws_send ends_single_flight ends_bind ends_if ends_pure simp del: callees.simps(1))

section \<open>Runs\<close>

definition dsl_callees :: "engine \<Rightarrow> http_dsls option \<Rightarrow> guard_dsls \<Rightarrow> string \<Rightarrow> dsl \<Rightarrow> dsl set" where
  "dsl_callees E D G p d = (\<Union>s \<in> snd ` set (dsl_steps d). set (callees E D G p s))"

lemma ends_trigger_reload: "reload_handler E = None \<Longrightarrow> ends p D G (trigger_reload E)"
  unfolding trigger_reload_def by (intro ends_on_world) simp

lemma get_step_callees:
  "get_step d n = Some s \<Longrightarrow> x \<in> set (callees E D G p s) \<Longrightarrow> x \<in> dsl_callees E D G p d"
  by (force simp: get_step_def dsl_callees_def dest!: map_of_SomeD)

lemma ends_run_loop:
  assumes "\<not> crosses_projects E" "reload_handler E = None"
    and "\<forall>x \<in> dsl_callees E D G p d. ends p D G (run x)"
  shows "ends p D G (run_loop E run d budget i rec)"
proof (induction budget arbitrary: i rec)
  case 0
  then show ?case by (simp add: run_loop.simps ends_pure)
next
  case (Suc budget)
  have step: "ends p D G (run_step E run n s)" if "get_step d n = Some s" for n s
    unfolding run_step_def using assms(1,3) get_step_callees[OF that]
    by (intro ends_map_error ends_if ends_pure ends_step(1)) auto
  show ?case
    by (auto simp: run_loop.simps Let_def
        intro!: ends_pure ends_bind ends_if ends_option step Suc.IH ends_trigger_reload assms(2))
qed

lemma ends_engine_run:
  assumes "\<not> crosses_projects E" "reload_handler E = None"
    and closed: "\<And>d x. d \<in> S \<Longrightarrow> x \<in> dsl_callees E D G p d \<Longrightarrow> x \<in> S \<and> rank x < (rank d :: nat)"
  shows "d \<in> S \<Longrightarrow> rank d < n \<Longrightarrow> ends p D G (engine_run n E d)"
proof (induction n arbitrary: d)
  case (Suc n)
  have "\<forall>x \<in> dsl_callees E D G p d. ends p D G (engine_run n E x)"
    using Suc.IH closed Suc.prems by fastforce
  then show ?case
    by (simp add: run_with_def ends_run_loop[OF assms(1,2)])
qed simp

section \<open>Properties\<close>



text \<open>
  A DSL that templates into itself never ends: no bound on the nesting is enough, and the engine
  has none of its own. Here the DSL is one template step whose target, in the loaded tree and without
  guards, is the DSL itself.
\<close>

theorem self_template_never_ends:
  assumes "get_step d n = Some (Template s)" "step_names d = [n]" "\<not> is_skipped (Template s)"
    and "0 < per_step_cap (Template s) (max_iterations E)"
    and "Option.bind (Option.bind (map_of t p) (\<lambda>ms. map_of ms (fst (template_key s))))
           (\<lambda>ks. map_of ks (snd (template_key s))) = Some d"
    and "applicable_guards is_override_guard p (snd (template_key s)) G (guards_mode E) = []"
    and "tp_body s = None" "tp_query s = None" "tp_headers s = None"
    and "ctx_project c = p" "dsls w = Some t" "guards w = G"
  shows "engine_run fuel E d c w = None"
  using assms(10)
proof (induction fuel arbitrary: c)
  case (Suc fuel)
  have none: "engine_run fuel E d (with_guard_stack_from ch c0) w = None"
    if "ctx_project ch = p" for ch c0
    using Suc.IH that by (simp add: with_guard_stack_from_def)
  have "exec_template E (engine_run fuel E) s c w = None"
    using assms(5-9,11,12) Suc.prems none
    by (cases "traceparent c")
      (simp_all add: exec_template_def template_call_def template_child_def bindc_def template_key_def Let_def evaluate_map_arg_def in_child_def
        applicable_guards_for_def ctx_with_state_def with_traceparent_def)
  then have "run_step E (engine_run fuel E) n (Template s) c w = None"
    using assms(3) by (simp add: run_step_def map_error_def)
  moreover have "unat (max_iterations E) \<noteq> 0"
    using assms(4) by (auto simp: per_step_cap_def split: option.splits)
  ultimately show ?case
    using assms(1,2,4)
    by (cases "unat (max_iterations E)") (simp_all add: run_with_def run_loop.simps Let_def bindc_def)
qed simp

lemma loop_resolves:
  "template_to ''loop'' = Template s \<Longrightarrow> Option.bind (Option.bind (map_of loop_dsls ''demo'')
     (\<lambda>ms. map_of ms (fst (template_key s)))) (\<lambda>ks. map_of ks (snd (template_key s))) = Some loop_dsl"
  "template_to ''loop'' = Template s \<Longrightarrow> tp_body s = None \<and> tp_query s = None \<and> tp_headers s = None"
  "applicable_guards is_override_guard ''demo'' k [] m = []"
  by (auto simp: template_to_def template_key_def loop_dsls_def applicable_guards_def to_uppercase_def
      trim_char_def ascii_upper_char_def)

theorem self_template_never_ends_witness:
  "engine_run 7 sample_engine loop_dsl sample_ctx (sample_world\<lparr>dsls := Some loop_dsls, guards := []\<rparr>) = None"
proof -
  have "get_step loop_dsl ''again'' = Some (template_to ''loop'')" "step_names loop_dsl = [''again'']"
    by (simp_all add: loop_dsl_def dsl_new_def get_step_def step_names_def)
  then show ?thesis
    using self_template_never_ends[of loop_dsl "''again''" _ sample_engine loop_dsls "''demo''" "[]" sample_ctx
        "sample_world\<lparr>dsls := Some loop_dsls, guards := []\<rparr>" 7] loop_resolves
    by (simp add: template_to_def is_skipped_def per_step_cap_def no_base_def del: engine_run.simps)
qed

end
