(* ===== verification/Flight_Laws.thy ===== *)
theory Flight_Laws
  imports Sample_System
begin

text \<open>
  The contract of the \<open>single_flight\<close> step on top of its registry: a leader publishes its outcome and
  frees its key on every way out of the body, and a follower takes over the published outcome without
  running the body.
\<close>

lemma leader_steps:
  assumes "run_as_leader E key body result nx c w = Some (r, c', w')"
  obtains outcome w1 where "body c w = Some (outcome, c', w1)"
    and "w' = w1\<lparr>published := published w1 @ [(key, case outcome of Inl e \<Rightarrow> Inl (error_text E e)
        | Inr _ \<Rightarrow> Inr (map_option (\<lambda>name. opt_or (get_variable c' name) JNull) result))],
      single_flight := sf_remove key (single_flight w1)\<rparr>"
    and "r = (case outcome of Inl e \<Rightarrow> Inl e | Inr (Some early) \<Rightarrow> Inr early | Inr None \<Rightarrow> Inr (step_result_next nx))"
proof -
  obtain outcome c1 w1 where b: "body c w = Some (outcome, c1, w1)"
    using assms by (cases "body c w") (auto simp: run_as_leader_def bindc_def attempt_def)
  then show thesis
    using assms that[of outcome w1]
    by (cases outcome) (auto simp: run_as_leader_def bindc_def attempt_def publish_outcome_def remove_flight_def
        on_world_def continue_with_def split: option.splits)
qed

lemma sf_remove_absent: "\<not> hm_contains (sf_inner (sf_remove key r)) key"
  by (simp add: sf_remove_def hm_contains_def delete_conv')

lemma exec_single_flight_claim:
  assumes "evaluate_string_arg E kx c w = Some (Inr key, c, w)" "sf_claim key (single_flight w) = ((win, leader), reg)"
  shows "exec_single_flight E kx ttl body result nx c w =
    (if leader then run_as_leader E key body result nx else run_as_follower E key ttl result nx)
      c (w\<lparr>single_flight := reg\<rparr>)"
  using assms by (simp add: exec_single_flight_def bindc_def claim_flight_def on_world_def)

section \<open>Properties\<close>



text \<open>
  A single-flight follower does no work of its own: when the key is taken, the body of the step is
  irrelevant to the outcome, the only change to the world is that it has waited (and, on a time-out,
  that the key is gone), and a received value is bound to the result variable.
\<close>

theorem follower_does_not_run_body:
  assumes "evaluate_string_arg E kx c w = Some (Inr key, c, w)"
    and "sf_claim key (single_flight w) = ((win, False), reg)"
  shows "exec_single_flight E kx ttl body result nx c w =
    (let w1 = w\<lparr>single_flight := reg, waits := Suc (waits w)\<rparr> in
     case recv_outcome E (waits w) key of
       Received (Inr v) \<Rightarrow> Some (Inr (step_result_next nx),
         (case (result, v) of (Some name, Some x) \<Rightarrow> set_variable name x c | _ \<Rightarrow> c), w1)
     | Received (Inl msg) \<Rightarrow> Some (Inl (DslExecution ''single_flight'' (InStep (LeaderFailed msg))), c, w1)
     | ChannelClosed \<Rightarrow> Some (Inl (DslExecution ''single_flight'' (InStep (LeaderDropped key))), c, w1)
     | RecvTimeout \<Rightarrow> Some (Inl (Timeout (InStep (FollowerTimedOut ttl key))), c,
         w1\<lparr>single_flight := sf_remove key reg\<rparr>))"
  unfolding exec_single_flight_claim[OF assms]
  by (auto simp: run_as_follower_def bindc_def await_outcome_def remove_flight_def on_world_def continue_with_def
      Let_def split: sf_recv.splits sum.splits option.splits)

theorem follower_does_not_run_body_witness:
  "(let w = sample_world\<lparr>single_flight := snd (sf_claim ''job'' (single_flight sample_world))\<rparr> in
    exec_single_flight sample_engine ''job'' 1000 (raise (InvalidStep (InStep NoDslTree))) None None sample_ctx w =
    exec_single_flight sample_engine ''job'' 1000 (ret None) None None sample_ctx w)"
proof -
  define w where "w = sample_world\<lparr>single_flight := snd (sf_claim ''job'' (single_flight sample_world))\<rparr>"
  have eval: "evaluate_string_arg sample_engine ''job'' sample_ctx w = Some (Inr ''job'', sample_ctx, w)"
    by (simp add: evaluate_string_arg_def bindc_def eval_expr_def text_of_def string_has_expressions_def starts_with_def)
  obtain win reg where claim: "sf_claim ''job'' (single_flight w) = ((win, False), reg)"
    by (simp add: w_def sf_claim_absent sf_with_capacity_def sf_evict_def sf_claim_present hm_contains_def)
  show ?thesis
    unfolding w_def[symmetric] Let_def follower_does_not_run_body[OF eval claim] ..
qed

end
