(* ===== verification/Log_Redaction.thy ===== *)
theory Log_Redaction
  imports Ruuter_Prelude
begin

text \<open>
  What reaches a log line (\<open>src/logging/redact.rs\<close>, \<open>src/logging/mod.rs\<close>): redaction of fields and
  headers, removal of line breaks, and the length cap, which cuts at a character boundary. Strings are
  UTF-8 bytes; the JSON printer is a parameter.

  The lemmas show that no value under a redacted name survives at any depth, that redaction is
  idempotent and leaves everything else as it is, and that a log value is one line of bounded length.
\<close>

definition REDACTED_SENTINEL :: string where
  "REDACTED_SENTINEL = ''[REDACTED]''"

definition field_matches :: "string \<Rightarrow> string list \<Rightarrow> bool" where
  "field_matches name names \<longleftrightarrow> list_ex (\<lambda>n. eq_ignore_ascii_case n name) names"

fun redact_json :: "json \<Rightarrow> string list \<Rightarrow> json"
and redact_fields :: "(string \<times> json) list \<Rightarrow> string list \<Rightarrow> (string \<times> json) list"
and redact_items :: "json list \<Rightarrow> string list \<Rightarrow> json list" where
  "redact_json (JObject m) names = JObject (redact_fields m names)"
| "redact_json (JArray xs) names = JArray (redact_items xs names)"
| "redact_json JNull names = JNull"
| "redact_json (JBool b) names = JBool b"
| "redact_json (JNumber n) names = JNumber n"
| "redact_json (JString s) names = JString s"
| "redact_fields [] names = []"
| "redact_fields ((k, v) # m) names =
     (k, if field_matches k names then JString REDACTED_SENTINEL else redact_json v names) # redact_fields m names"
| "redact_items [] names = []"
| "redact_items (x # xs) names = redact_json x names # redact_items xs names"

definition redact_headers :: "string hmap \<Rightarrow> string list \<Rightarrow> string hmap" where
  "redact_headers headers names =
     map (\<lambda>(k, v). (k, if field_matches k names then REDACTED_SENTINEL else v)) headers"

definition is_line_break :: "char \<Rightarrow> bool" where
  "is_line_break c \<longleftrightarrow> c = CHR 0x0A \<or> c = CHR 0x0D"

definition sanitize_log_value :: "string \<Rightarrow> string" where
  "sanitize_log_value s = map (\<lambda>c. if is_line_break c then CHR '' '' else c) s"

text \<open>A byte index is a boundary unless the byte there continues a character.\<close>

definition is_char_boundary :: "string \<Rightarrow> nat \<Rightarrow> bool" where
  "is_char_boundary s i \<longleftrightarrow> i = 0 \<or> i = length s \<or>
     i < length s \<and> \<not> (128 \<le> (of_char (s ! i) :: nat) \<and> (of_char (s ! i) :: nat) < 192)"

fun boundary_below :: "string \<Rightarrow> nat \<Rightarrow> nat" where
  "boundary_below s 0 = 0"
| "boundary_below s (Suc n) = (if is_char_boundary s (Suc n) then Suc n else boundary_below s n)"

definition ELLIPSIS :: string where
  "ELLIPSIS = [CHR 0xE2, CHR 0x80, CHR 0xA6]"

definition cap_and_sanitize :: "string \<Rightarrow> nat \<Rightarrow> string" where
  "cap_and_sanitize s max_bytes =
     (let sanitized = sanitize_log_value s in
      if length sanitized \<le> max_bytes then sanitized
      else take (boundary_below sanitized max_bytes) sanitized @ ELLIPSIS)"

definition STEP_PREVIEW_MAX_BYTES :: nat where
  "STEP_PREVIEW_MAX_BYTES = 80"

definition preview_body_for_log :: "(json \<Rightarrow> string) \<Rightarrow> json option \<Rightarrow> string list \<Rightarrow> string option" where
  "preview_body_for_log to_string value redact_body_fields =
     (case value of
        None \<Rightarrow> None
      | Some v \<Rightarrow>
          if v = JNull then None
          else Some (cap_and_sanitize (to_string (redact_json v redact_body_fields)) STEP_PREVIEW_MAX_BYTES))"

definition render_body_for_log :: "(json \<Rightarrow> string) \<Rightarrow> json option \<Rightarrow> string list \<Rightarrow> nat \<Rightarrow> string" where
  "render_body_for_log to_string value redact_body_fields max_bytes =
     (case value of
        Some v \<Rightarrow> cap_and_sanitize (to_string (redact_json v redact_body_fields)) max_bytes
      | None \<Rightarrow> ''-'')"

text \<open>The \<open>source()\<close> chain of an error, as the list of its messages; at most five are rendered.\<close>

fun chain_links :: "nat \<Rightarrow> string list \<Rightarrow> string" where
  "chain_links hops [] = []"
| "chain_links hops (m # ms) =
     (if 5 \<le> hops then '' -> caused by: ...''
      else '' -> caused by: '' @ sanitize_log_value m @ chain_links (Suc hops) ms)"

definition error_chain :: "string list \<Rightarrow> string" where
  "error_chain sources = chain_links 0 sources"

section \<open>Lemmas\<close>

text \<open>Every field of a value, at any depth.\<close>

fun all_fields :: "json \<Rightarrow> (string \<times> json) list"
and fields_of_pairs :: "(string \<times> json) list \<Rightarrow> (string \<times> json) list"
and fields_of_items :: "json list \<Rightarrow> (string \<times> json) list" where
  "all_fields (JObject m) = fields_of_pairs m"
| "all_fields (JArray xs) = fields_of_items xs"
| "all_fields _ = []"
| "fields_of_pairs [] = []"
| "fields_of_pairs ((k, v) # m) = (k, v) # all_fields v @ fields_of_pairs m"
| "fields_of_items [] = []"
| "fields_of_items (x # xs) = all_fields x @ fields_of_items xs"

lemma redacted_fields:
  "(k, x) \<in> set (all_fields (redact_json v names)) \<Longrightarrow> field_matches k names \<Longrightarrow> x = JString REDACTED_SENTINEL"
  "(k, x) \<in> set (fields_of_pairs (redact_fields m names)) \<Longrightarrow> field_matches k names \<Longrightarrow> x = JString REDACTED_SENTINEL"
  "(k, x) \<in> set (fields_of_items (redact_items xs names)) \<Longrightarrow> field_matches k names \<Longrightarrow> x = JString REDACTED_SENTINEL"
  by (induction v names and m names and xs names rule: redact_json_redact_fields_redact_items.induct)
    (auto split: if_splits)

lemma redact_idempotent:
  "redact_json (redact_json v names) names = redact_json v names"
  "redact_fields (redact_fields m names) names = redact_fields m names"
  "redact_items (redact_items xs names) names = redact_items xs names"
  by (induction v names and m names and xs names rule: redact_json_redact_fields_redact_items.induct)
    auto

lemma redact_nothing:
  "\<not> list_ex (\<lambda>(k, _). field_matches k names) (all_fields v) \<Longrightarrow> redact_json v names = v"
  "\<not> list_ex (\<lambda>(k, _). field_matches k names) (fields_of_pairs m) \<Longrightarrow> redact_fields m names = m"
  "\<not> list_ex (\<lambda>(k, _). field_matches k names) (fields_of_items xs) \<Longrightarrow> redact_items xs names = xs"
  by (induction v names and m names and xs names rule: redact_json_redact_fields_redact_items.induct)
    auto

lemma boundary_below_le: "boundary_below s n \<le> n"
  by (induction s n rule: boundary_below.induct) auto

lemma boundary_below_ok: "is_char_boundary s (boundary_below s n)"
  by (induction s n rule: boundary_below.induct) (auto simp: is_char_boundary_def)

lemma sanitized_clean: "c \<in> set (sanitize_log_value s) \<Longrightarrow> \<not> is_line_break c"
  by (auto simp: sanitize_log_value_def is_line_break_def split: if_splits)

lemma capped_clean: "c \<in> set (cap_and_sanitize s n) \<Longrightarrow> \<not> is_line_break c"
  by (auto simp: cap_and_sanitize_def Let_def ELLIPSIS_def is_line_break_def
      dest!: in_set_takeD sanitized_clean split: if_splits)

lemma capped_length: "length (cap_and_sanitize s n) \<le> n + 3"
  using boundary_below_le[of "sanitize_log_value s" n]
  by (simp add: cap_and_sanitize_def Let_def ELLIPSIS_def)

lemma chain_clean: "c \<in> set (chain_links n ms) \<Longrightarrow> \<not> is_line_break c"
  by (induction n ms rule: chain_links.induct)
    (auto simp: is_line_break_def dest!: sanitized_clean split: if_splits)

section \<open>Properties\<close>


end
