(* ===== verification/Log_Format.thy ===== *)
theory Log_Format
  imports Log_Redaction Test_Matcher
begin

text \<open>
  How an event becomes a log line (\<open>src/logging/fmt.rs\<close>) and which layers are installed (\<open>src/observability.rs\<close>).

  An event is its level and its recorded fields, each with the way it was recorded (\<open>log_value\<close>); a span is the list
  of fields stashed on it. Strings are UTF-8 bytes. The printing of a double (\<open>Display\<close>, \<open>Debug\<close>, and with a fixed
  number of decimals) is a parameter; the clock is an argument.

  The property says when a log line is one line, and that only the pretty format writes colour escapes.
\<close>

section \<open>Fields\<close>

datatype log_level = LevelError | LevelWarn | LevelInfo | LevelDebug | LevelTrace

text \<open>How \<open>tracing\<close> hands a field over; a \<open>Debugged\<close> field comes as its debug text.\<close>

datatype log_value = Str string | Debugged string | Double f64 | Signed int | Unsigned nat | Flag bool

record fmt_params =
  show_double :: "f64 \<Rightarrow> string"
  debug_double :: "f64 \<Rightarrow> string"
  show_fixed :: "nat \<Rightarrow> f64 \<Rightarrow> string"

definition show_int :: "int \<Rightarrow> string" where
  "show_int i = (if i < 0 then CHR ''-'' # show_nat (nat (- i)) else show_nat (nat i))"

definition show_flag :: "bool \<Rightarrow> string" where
  "show_flag b = (if b then ''true'' else ''false'')"

definition ALLOWED_SPAN_FIELDS :: "string list" where
  "ALLOWED_SPAN_FIELDS = [''trace_id'', ''dsl.project'']"

definition POSITIONAL_EVENT_FIELDS :: "string list" where
  "POSITIONAL_EVENT_FIELDS = [''dsl.step'', ''dsl.step.type'', ''duration_ms'', ''dsl.next.step'', ''attrs'', ''message'',
     ''http.request.method'', ''http.route'', ''http.response.status_code'', ''dsl.project'', ''client.address'', ''trace_id'']"

text \<open>The visitor of span fields: the names on the list, everything but a string in its debug rendering.\<close>

definition span_text :: "fmt_params \<Rightarrow> log_value \<Rightarrow> string" where
  "span_text P v = (case v of Str s \<Rightarrow> s | Debugged s \<Rightarrow> s | Double d \<Rightarrow> debug_double P d | Signed i \<Rightarrow> show_int i
     | Unsigned n \<Rightarrow> show_nat n | Flag b \<Rightarrow> show_flag b)"

definition allowlist_visit :: "fmt_params \<Rightarrow> (string \<times> log_value) list \<Rightarrow> (string \<times> string) list" where
  "allowlist_visit P fs =
     map (\<lambda>(n, v). (n, span_text P v)) (filter (\<lambda>(n, _). n \<in> set ALLOWED_SPAN_FIELDS) fs)"

definition on_new_span :: "fmt_params \<Rightarrow> (string \<times> log_value) list \<Rightarrow> (string \<times> string) list" where
  "on_new_span P fs = allowlist_visit P fs"

text \<open>Replace the first entry of the name, or append.\<close>

definition on_record :: "fmt_params \<Rightarrow> (string \<times> log_value) list \<Rightarrow> (string \<times> string) list \<Rightarrow> (string \<times> string) list" where
  "on_record P fs stash = fold (\<lambda>(k, v) st. hm_insert k v st) (allowlist_visit P fs) stash"

fun take_chars :: "nat \<Rightarrow> string \<Rightarrow> string" where
  "take_chars (Suc n) (c # cs) =
     (let tail = takeWhile (\<lambda>b. 128 \<le> (of_char b :: nat) \<and> (of_char b :: nat) < 192) cs in
      c # tail @ take_chars n (drop (length tail) cs))"
| "take_chars _ _ = []"

text \<open>The spans around an event, the root first; the last entry of a name counts.\<close>

definition read_span_fields :: "(string \<times> string) list list \<Rightarrow> string \<times> string" where
  "read_span_fields spans = fold (\<lambda>(n, v) (short_trace, project).
     if n = ''trace_id'' then (take_chars 8 v, project)
     else if n = ''dsl.project'' then (short_trace, v) else (short_trace, project)) (concat spans) ([], [])"

record event_fields =
  ev_message :: "string option"
  ev_step :: "string option"
  ev_step_type :: "string option"
  ev_duration_ms :: "f64 option"
  ev_next_step :: "string option"
  ev_attrs :: "string option"
  ev_http_method :: "string option"
  ev_http_route :: "string option"
  ev_http_status :: "nat option"
  ev_client_address :: "string option"
  ev_project :: "string option"
  ev_extras :: "(string \<times> string) list"

definition event_fields_default :: event_fields where
  "event_fields_default = \<lparr>ev_message = None, ev_step = None, ev_step_type = None, ev_duration_ms = None,
     ev_next_step = None, ev_attrs = None, ev_http_method = None, ev_http_route = None, ev_http_status = None,
     ev_client_address = None, ev_project = None, ev_extras = []\<rparr>"

definition add_extra :: "string \<Rightarrow> string \<Rightarrow> event_fields \<Rightarrow> event_fields" where
  "add_extra n v ev = ev\<lparr>ev_extras := ev_extras ev @ [(n, v)]\<rparr>"

text \<open>Quotes around the whole debug text are dropped.\<close>

definition unquote :: "string \<Rightarrow> string" where
  "unquote s = (if 2 \<le> length s \<and> hd s = CHR 0x22 \<and> last s = CHR 0x22 then butlast (tl s) else s)"

definition record_text :: "string \<Rightarrow> string \<Rightarrow> event_fields \<Rightarrow> event_fields" where
  "record_text n v ev =
     (if n = ''message'' then ev\<lparr>ev_message := Some v\<rparr>
      else if n = ''dsl.step'' then ev\<lparr>ev_step := Some v\<rparr>
      else if n = ''dsl.step.type'' then ev\<lparr>ev_step_type := Some v\<rparr>
      else if n = ''dsl.next.step'' then ev\<lparr>ev_next_step := Some v\<rparr>
      else if n = ''attrs'' then ev\<lparr>ev_attrs := Some v\<rparr>
      else if n = ''http.request.method'' then ev\<lparr>ev_http_method := Some v\<rparr>
      else if n = ''http.route'' then ev\<lparr>ev_http_route := Some v\<rparr>
      else if n = ''dsl.project'' then ev\<lparr>ev_project := Some v\<rparr>
      else if n = ''client.address'' then ev\<lparr>ev_client_address := Some v\<rparr>
      else add_extra n v ev)"

definition visit_field :: "fmt_params \<Rightarrow> string \<times> log_value \<Rightarrow> event_fields \<Rightarrow> event_fields" where
  "visit_field P f ev =
     (case f of (n, v) \<Rightarrow> (case v of
        Str s \<Rightarrow> record_text n s ev
      | Debugged s \<Rightarrow> record_text n (unquote s) ev
      | Double d \<Rightarrow> if n = ''duration_ms'' then ev\<lparr>ev_duration_ms := Some d\<rparr> else add_extra n (show_double P d) ev
      | Signed i \<Rightarrow> if n = ''http.response.status_code'' then ev\<lparr>ev_http_status := Some (nat (i mod 2 ^ 64))\<rparr>
          else add_extra n (show_int i) ev
      | Unsigned k \<Rightarrow> if n = ''http.response.status_code'' then ev\<lparr>ev_http_status := Some k\<rparr> else add_extra n (show_nat k) ev
      | Flag b \<Rightarrow> add_extra n (show_flag b) ev))"

section \<open>Pieces of a line\<close>

text \<open>\<open>x >= k\<close> for a double and a natural number; a NaN compares false.\<close>

fun f64_ge :: "f64 \<Rightarrow> int \<Rightarrow> bool" where
  "f64_ge (F64 m e) k \<longleftrightarrow> k * 2 ^ nat (- e) \<le> m * 2 ^ nat e"
| "f64_ge (F64Inf negative) k \<longleftrightarrow> \<not> negative"
| "f64_ge F64NaN k \<longleftrightarrow> False"

text \<open>\<open>x / 1000.0\<close> and \<open>x * 1000.0\<close>, rounded.\<close>

fun f64_div_1000 :: "f64 \<Rightarrow> f64" where
  "f64_div_1000 (F64 m e) =
     (case f64_div (nat (\<bar>m\<bar> * 2 ^ nat e)) (1000 * 2 ^ nat (- e)) of
        Float q s \<Rightarrow> F64 (sgn m * q) s | _ \<Rightarrow> F64NaN)"
| "f64_div_1000 x = x"

fun f64_mul_1000 :: "f64 \<Rightarrow> f64" where
  "f64_mul_1000 (F64 m e) = (case f64_round (m * 1000) e of (m', e') \<Rightarrow> F64 m' e')"
| "f64_mul_1000 x = x"

definition MICRO :: string where
  "MICRO = [CHR 0xC2, CHR 0xB5]"

definition render_duration :: "fmt_params \<Rightarrow> f64 \<Rightarrow> string" where
  "render_duration P ms =
     (if f64_ge ms 1000 then show_fixed P 2 (f64_div_1000 ms) @ ''s''
      else if f64_ge ms 1 then show_fixed P 1 ms @ ''ms''
      else show_fixed P 0 (f64_mul_1000 ms) @ MICRO @ ''s'')"

definition pad :: "nat \<Rightarrow> nat \<Rightarrow> string" where
  "pad width n = replicate (width - length (show_nat n)) CHR ''0'' @ show_nat n"

definition render_timestamp :: "nat \<Rightarrow> nat \<Rightarrow> string" where
  "render_timestamp secs millis =
     (let secs_of_day = secs mod 86400 in
      pad 2 (secs_of_day div 3600) @ '':'' @ pad 2 (secs_of_day mod 3600 div 60) @ '':'' @
      pad 2 (secs_of_day mod 60) @ ''.'' @ pad 3 millis)"

text \<open>\<open>\x1b[<code>m<text>\x1b[0m\<close>.\<close>

definition coloured :: "string \<Rightarrow> bool \<Rightarrow> string \<Rightarrow> string" where
  "coloured code ansi s = (if ansi then [CHR 0x1B] @ ''['' @ code @ ''m'' @ s @ [CHR 0x1B] @ ''[0m'' else s)"

definition level_label :: "log_level \<Rightarrow> bool \<Rightarrow> string" where
  "level_label l ansi =
     (case l of
        LevelError \<Rightarrow> coloured ''31'' ansi ''ERROR''
      | LevelWarn \<Rightarrow> coloured ''33'' ansi ''WARN ''
      | LevelInfo \<Rightarrow> coloured ''32'' ansi ''INFO ''
      | LevelDebug \<Rightarrow> coloured ''36'' ansi ''DEBUG''
      | LevelTrace \<Rightarrow> coloured ''35'' ansi ''TRACE'')"

definition dim :: "string \<Rightarrow> bool \<Rightarrow> string" where
  "dim s ansi = coloured ''2'' ansi s"

definition bold :: "string \<Rightarrow> bool \<Rightarrow> string" where
  "bold s ansi = coloured ''1'' ansi s"

definition cyan :: "string \<Rightarrow> bool \<Rightarrow> string" where
  "cyan s ansi = coloured ''36'' ansi s"

definition STEP_MARK :: string where
  "STEP_MARK = [CHR 0xE2, CHR 0x96, CHR 0xB8]"

definition REQUEST_MARK :: string where
  "REQUEST_MARK = [CHR 0xE2, CHR 0x8F, CHR 0xB9]"

definition ARROW :: string where
  "ARROW = [CHR 0xE2, CHR 0x86, CHR 0x92]"

definition status_colour :: "nat option \<Rightarrow> bool \<Rightarrow> string \<Rightarrow> string" where
  "status_colour status ansi s =
     (let k = opt_or status 0 in
      if 200 \<le> k \<and> k \<le> 299 then coloured ''32'' ansi s
      else if 300 \<le> k \<and> k \<le> 399 then coloured ''33'' ansi s
      else if 400 \<le> k \<and> k \<le> 599 then coloured ''31'' ansi s else s)"

section \<open>The line\<close>

definition duration_text :: "fmt_params \<Rightarrow> event_fields \<Rightarrow> string" where
  "duration_text P ev = (case ev_duration_ms ev of Some d \<Rightarrow> render_duration P d | None \<Rightarrow> ''?'')"

definition prefix_text :: "string \<Rightarrow> event_fields \<Rightarrow> bool \<Rightarrow> string" where
  "prefix_text short_trace ev ansi =
     (if short_trace \<noteq> [] \<or> ev_project ev \<noteq> None
      then dim (''['' @ ''t='' @ (if short_trace = [] then ''-'' else short_trace) @ '' '' @ opt_or (ev_project ev) ''-'' @ '']'') ansi @ '' ''
      else [])"

definition executed_text :: "fmt_params \<Rightarrow> event_fields \<Rightarrow> bool \<Rightarrow> string" where
  "executed_text P ev ansi =
     coloured ''36'' ansi STEP_MARK @ '' '' @ bold (opt_or (ev_step ev) ''?'') ansi @ '' '' @
     dim (''('' @ opt_or (ev_step_type ev) ''?'' @ '')'') ansi @ '' '' @ cyan (duration_text P ev) ansi @ '' '' @
     dim ARROW ansi @ '' '' @ opt_or (ev_next_step ev) ''-'' @
     (case ev_attrs ev of Some a \<Rightarrow> if a = [] then [] else ''  '' @ a | None \<Rightarrow> [])"

definition request_text :: "fmt_params \<Rightarrow> event_fields \<Rightarrow> bool \<Rightarrow> string" where
  "request_text P ev ansi =
     coloured ''35'' ansi REQUEST_MARK @ '' '' @ bold (opt_or (ev_http_method ev) ''?'') ansi @ '' '' @
     opt_or (ev_http_route ev) ''?'' @ '' '' @
     status_colour (ev_http_status ev) ansi (case ev_http_status ev of Some k \<Rightarrow> show_nat k | None \<Rightarrow> ''?'') @ '' '' @
     cyan (duration_text P ev) ansi @ ''  '' @ dim (''from '' @ opt_or (ev_client_address ev) ''-'') ansi"

text \<open>The fields of the generic shape, in order: what no recognised shape consumed, then the extras.\<close>

definition generic_fields :: "fmt_params \<Rightarrow> event_fields \<Rightarrow> (string \<times> string) list" where
  "generic_fields P ev =
     (case ev_step ev of Some s \<Rightarrow> [(''step'', s)] | None \<Rightarrow> []) @
     (case ev_step_type ev of Some t \<Rightarrow> [(''type'', t)] | None \<Rightarrow> []) @
     (case ev_duration_ms ev of Some d \<Rightarrow> [(''took'', render_duration P d)] | None \<Rightarrow> []) @
     filter (\<lambda>(k, _). k \<notin> set POSITIONAL_EVENT_FIELDS) (ev_extras ev)"

definition key_value :: "bool \<Rightarrow> string \<times> string \<Rightarrow> string" where
  "key_value ansi kv = (case kv of (k, v) \<Rightarrow> dim k ansi @ ''='' @ v)"

definition generic_text :: "fmt_params \<Rightarrow> string \<Rightarrow> event_fields \<Rightarrow> bool \<Rightarrow> string" where
  "generic_text P msg ev ansi =
     msg @ (case generic_fields P ev of [] \<Rightarrow> []
            | kv # kvs \<Rightarrow> ''  '' @ key_value ansi kv @ concat (map (\<lambda>x. '' '' @ key_value ansi x) kvs))"

definition write_event ::
  "fmt_params \<Rightarrow> nat \<times> nat \<Rightarrow> log_level \<Rightarrow> (string \<times> string) list list \<Rightarrow> (string \<times> log_value) list \<Rightarrow> bool \<Rightarrow> string" where
  "write_event P now l spans fs ansi =
     (let (short_trace, project) = read_span_fields spans;
          ev0 = fold (visit_field P) fs event_fields_default;
          ev = (if ev_project ev0 = None \<and> project \<noteq> [] then ev0\<lparr>ev_project := Some project\<rparr> else ev0);
          msg = opt_or (ev_message ev) [] in
      dim (render_timestamp (fst now) (snd now)) ansi @ '' '' @ level_label l ansi @ '' '' @ prefix_text short_trace ev ansi @
      (if msg = ''Executed'' then executed_text P ev ansi
       else if msg = ''http request completed'' then request_text P ev ansi
       else generic_text P msg ev ansi) @ [CHR 0x0A])"

section \<open>Attributes of a step\<close>

text \<open>
  What a step adds to its \<open>Executed\<close> line (\<open>StepLogExtras\<close> of \<open>src/steps/mod.rs\<close>), rendered as the field \<open>attrs\<close>; \<open>print_json\<close> is the JSON
  printer.
\<close>

datatype step_log_entry = EntryValue json | EntryPreformatted string

definition push_extra :: "string \<Rightarrow> json \<Rightarrow> (string \<times> step_log_entry) list \<Rightarrow> (string \<times> step_log_entry) list" where
  "push_extra k v es = es @ [(k, EntryValue v)]"

definition push_preformatted :: "string \<Rightarrow> string \<Rightarrow> (string \<times> step_log_entry) list \<Rightarrow> (string \<times> step_log_entry) list" where
  "push_preformatted k v es = es @ [(k, EntryPreformatted v)]"

definition entry_text :: "(json \<Rightarrow> string) \<Rightarrow> string \<times> step_log_entry \<Rightarrow> string" where
  "entry_text print_json x =
     (case x of (k, en) \<Rightarrow> k @ ''='' @ (case en of
        EntryPreformatted s \<Rightarrow> sanitize_log_value s
      | EntryValue v \<Rightarrow>
          (case v of
             JString s \<Rightarrow> [CHR 0x22] @ sanitize_log_value s @ [CHR 0x22]
           | JNull \<Rightarrow> ''null''
           | other \<Rightarrow> print_json other)))"

definition extras_text :: "(json \<Rightarrow> string) \<Rightarrow> (string \<times> step_log_entry) list \<Rightarrow> string" where
  "extras_text print_json es = join_with '' '' (map (entry_text print_json) es)"

section \<open>Installed layers\<close>

datatype log_layer = EnvFilterLayer string | SpanCapture | CompactFmt bool | PrettyFmt | JsonFmt | OtelLayer string

record log_env =
  env_log_format :: "string option"
  env_rust_log :: "string option"
  env_otlp_endpoint :: "string option"
  env_service_name :: "string option"
  exporter_builds :: "string \<Rightarrow> bool"

definition resolve_format :: "string option \<Rightarrow> log_format \<Rightarrow> log_format" where
  "resolve_format env config_format =
     (case map_option to_ascii_lowercase env of
        None \<Rightarrow> config_format
      | Some s \<Rightarrow> if s = ''json'' then LogJson else if s = ''text'' then LogText
          else if s = ''pretty'' then LogPretty else config_format)"

definition SERVICE_NAME_DEFAULT :: string where
  "SERVICE_NAME_DEFAULT = ''ruuter-on-rust''"

definition format_layers :: "log_format \<Rightarrow> log_layer list" where
  "format_layers f = (case f of
     LogText \<Rightarrow> [SpanCapture, CompactFmt False] | LogPretty \<Rightarrow> [SpanCapture, PrettyFmt] | LogJson \<Rightarrow> [JsonFmt])"

text \<open>The layers in the order they are added, and whether an exporter was built.\<close>

definition observability_init :: "log_env \<Rightarrow> log_format \<Rightarrow> log_layer list \<times> bool" where
  "observability_init e config_format =
     (let f = resolve_format (env_log_format e) config_format;
          base = EnvFilterLayer (opt_or (env_rust_log e) ''info'') # format_layers f in
      case env_otlp_endpoint e of
        Some url \<Rightarrow>
          if url \<noteq> [] \<and> exporter_builds e url
          then (base @ [OtelLayer (opt_or (env_service_name e) SERVICE_NAME_DEFAULT)], True) else (base, False)
      | None \<Rightarrow> (base, False))"

section \<open>Lemmas\<close>

text \<open>
  A character that no fixed text of the formatter has: the line break in either format, the escape where there
  are no colours.
\<close>

definition quiet :: "char \<Rightarrow> bool \<Rightarrow> bool" where
  "quiet c ansi \<longleftrightarrow> c = CHR 0x0A \<or> c = CHR 0x1B \<and> \<not> ansi"

definition clean_params :: "char \<Rightarrow> fmt_params \<Rightarrow> bool" where
  "clean_params c P \<longleftrightarrow> (\<forall>d k. c \<notin> set (show_double P d) \<and> c \<notin> set (debug_double P d) \<and> c \<notin> set (show_fixed P k d))"

definition clean_field :: "char \<Rightarrow> string \<times> log_value \<Rightarrow> bool" where
  "clean_field c f \<longleftrightarrow> c \<notin> set (fst f) \<and> (case snd f of Str s \<Rightarrow> c \<notin> set s | Debugged s \<Rightarrow> c \<notin> set s | _ \<Rightarrow> True)"

definition clean_opt :: "char \<Rightarrow> string option \<Rightarrow> bool" where
  "clean_opt c x \<longleftrightarrow> (case x of Some s \<Rightarrow> c \<notin> set s | None \<Rightarrow> True)"

definition clean_event :: "char \<Rightarrow> event_fields \<Rightarrow> bool" where
  "clean_event c ev \<longleftrightarrow> clean_opt c (ev_message ev) \<and> clean_opt c (ev_step ev) \<and> clean_opt c (ev_step_type ev) \<and>
     clean_opt c (ev_next_step ev) \<and> clean_opt c (ev_attrs ev) \<and> clean_opt c (ev_http_method ev) \<and>
     clean_opt c (ev_http_route ev) \<and> clean_opt c (ev_client_address ev) \<and> clean_opt c (ev_project ev) \<and>
     (\<forall>(k, v) \<in> set (ev_extras ev). c \<notin> set k \<and> c \<notin> set v)"

lemma clean_opt_simps [simp]: "clean_opt c None" "clean_opt c (Some s) \<longleftrightarrow> c \<notin> set s"
  by (simp_all add: clean_opt_def)

lemma clean_opt_or: "clean_opt c x \<Longrightarrow> c \<notin> set d \<Longrightarrow> c \<notin> set (opt_or x d)"
  by (cases x) simp_all

lemma show_nat_digits: "x \<in> set (show_nat n) \<Longrightarrow> 48 \<le> (of_char x :: nat) \<and> (of_char x :: nat) < 58"
proof (induction n rule: show_nat.induct)
  case (1 n)
  have digit: "of_char (char_of (48 + k) :: char) = (48 + k :: nat)" if "k < 10" for k :: nat
    using that by simp
  show ?case
  proof (cases "n < 10")
    case True
    then show ?thesis using "1.prems" digit[OF True] by (simp add: show_nat.simps[of n])
  next
    case False
    then have "x \<in> set (show_nat (n div 10)) \<or> x = char_of (48 + n mod 10)"
      using "1.prems" by (auto simp: show_nat.simps[of n])
    then show ?thesis using "1.IH"[OF False] digit[of "n mod 10"] by auto
  qed
qed

lemma show_nat_quiet: "quiet c ansi \<Longrightarrow> c \<notin> set (show_nat n)"
  using show_nat_digits[of c n] by (auto simp: quiet_def)

lemma coloured_quiet:
  "quiet c ansi \<Longrightarrow> c \<notin> set code \<Longrightarrow> c \<notin> set s \<Longrightarrow> c \<notin> set (coloured code ansi s)"
  by (auto simp: coloured_def quiet_def)

lemma visit_clean:
  assumes "clean_params c P" "quiet c ansi" "clean_field c f" "clean_event c ev"
  shows "clean_event c (visit_field P f ev)"
proof -
  have plain_text: "clean_event c (record_text n v ev)" if "c \<notin> set n" "c \<notin> set v" for n v
    using assms(4) that unfolding record_text_def add_extra_def by (auto simp: clean_event_def)
  have extra: "clean_event c (add_extra n v ev)" if "c \<notin> set n" "c \<notin> set v" for n v
    using assms(4) that by (auto simp: clean_event_def add_extra_def)
  have shown: "c \<notin> set (show_int i)" "c \<notin> set (show_flag b)" for i b
    using assms(2) show_nat_quiet[OF assms(2)] by (auto simp: show_int_def show_flag_def quiet_def)
  have unq: "c \<notin> set s \<Longrightarrow> c \<notin> set (unquote s)" for s
    by (cases s) (auto simp: unquote_def dest: in_set_butlastD)
  obtain n v where f: "f = (n, v)" by (cases f)
  have numbers: "clean_event c (ev\<lparr>ev_duration_ms := d\<rparr>)" "clean_event c (ev\<lparr>ev_http_status := k\<rparr>)" for d k
    using assms(4) by (simp_all add: clean_event_def)
  show ?thesis
    using assms(1,3) f plain_text extra shown unq numbers show_nat_quiet[OF assms(2)]
    by (cases v) (simp_all add: visit_field_def clean_field_def clean_params_def)
qed

lemma visit_all_clean:
  assumes "clean_params c P" "quiet c ansi" "list_all (clean_field c) fs" "clean_event c ev"
  shows "clean_event c (fold (visit_field P) fs ev)"
  using assms(3,4)
proof (induction fs arbitrary: ev)
  case (Cons f fs)
  then show ?case using visit_clean[OF assms(1,2)] by simp
qed simp

lemma take_chars_subset: "set (take_chars n s) \<subseteq> set s"
proof (induction n s rule: take_chars.induct)
  case (1 n c cs)
  then show ?case by (auto simp: Let_def dest: set_takeWhileD in_set_dropD)
qed simp_all

lemma span_fields_clean:
  assumes "\<forall>(n, v) \<in> set (concat spans). c \<notin> set v"
  shows "c \<notin> set (fst (read_span_fields spans)) \<and> c \<notin> set (snd (read_span_fields spans))"
proof -
  let ?g = "\<lambda>(n, v) (short_trace, project). if n = ''trace_id'' then (take_chars 8 v, project)
     else if n = ''dsl.project'' then (short_trace, v) else (short_trace, project)"
  have "c \<notin> set (fst acc) \<Longrightarrow> c \<notin> set (snd acc) \<Longrightarrow> \<forall>(n, v) \<in> set es. c \<notin> set v \<Longrightarrow>
      c \<notin> set (fst (fold ?g es acc)) \<and> c \<notin> set (snd (fold ?g es acc))" for es :: "(string \<times> string) list" and acc
  proof (induction es arbitrary: acc)
    case (Cons e es)
    have "c \<notin> set (fst (?g e acc)) \<and> c \<notin> set (snd (?g e acc))"
      using Cons.prems take_chars_subset[of 8 "snd e"] by (auto simp: case_prod_unfold)
    then show ?case using Cons by simp
  qed simp
  from this[of "([], [])" "concat spans"] assms show ?thesis by (simp add: read_span_fields_def)
qed

lemma status_quiet: "quiet c ansi \<Longrightarrow> c \<notin> set s \<Longrightarrow> c \<notin> set (status_colour st ansi s)"
proof -
  assume c: "quiet c ansi" "c \<notin> set s"
  then have "c \<notin> set ''32'' \<and> c \<notin> set ''33'' \<and> c \<notin> set ''31''" by (auto simp: quiet_def)
  then show ?thesis using c by (auto simp: status_colour_def Let_def coloured_quiet)
qed

lemma styles_quiet:
  assumes "quiet c ansi" "c \<notin> set s"
  shows "c \<notin> set (dim s ansi)" "c \<notin> set (bold s ansi)" "c \<notin> set (cyan s ansi)"
  using assms unfolding dim_def bold_def cyan_def by (intro coloured_quiet; auto simp: quiet_def)+

lemma duration_quiet: "clean_params c P \<Longrightarrow> quiet c ansi \<Longrightarrow> c \<notin> set (render_duration P d)"
  by (auto simp: render_duration_def clean_params_def MICRO_def quiet_def)

lemma timestamp_quiet: "quiet c ansi \<Longrightarrow> c \<notin> set (render_timestamp a b)"
proof -
  assume c: "quiet c ansi"
  then have "c \<notin> set (pad w n)" for w n using show_nat_quiet[OF c] by (auto simp: pad_def quiet_def)
  then show ?thesis using c by (auto simp: render_timestamp_def Let_def quiet_def)
qed

lemma level_quiet: "quiet c ansi \<Longrightarrow> c \<notin> set (level_label l ansi)"
  by (cases l) (auto simp: level_label_def coloured_def quiet_def)

lemma prefix_quiet: "quiet c ansi \<Longrightarrow> clean_event c ev \<Longrightarrow> c \<notin> set tr \<Longrightarrow> c \<notin> set (prefix_text tr ev ansi)"
  unfolding prefix_text_def
  by (cases "ev_project ev") (auto simp: styles_quiet quiet_def clean_event_def dim_def coloured_def)

lemma executed_quiet:
  assumes "clean_params c P" "quiet c ansi" "clean_event c ev"
  shows "c \<notin> set (executed_text P ev ansi)"
proof -
  have fixed: "c \<notin> set ''?''" "c \<notin> set ''-''" "c \<notin> set '' ''" "c \<notin> set STEP_MARK" "c \<notin> set ARROW" "c \<notin> set ''36''"
      "c \<notin> set ''(''" "c \<notin> set '')''"
    using assms(2) by (auto simp: quiet_def STEP_MARK_def ARROW_def)
  have dur: "c \<notin> set (duration_text P ev)"
    using duration_quiet[OF assms(1,2)] fixed by (auto simp: duration_text_def split: option.splits)
  have vals: "c \<notin> set (opt_or (ev_step ev) ''?'')" "c \<notin> set (opt_or (ev_step_type ev) ''?'')" "c \<notin> set (opt_or (ev_next_step ev) ''-'')"
    "clean_opt c (ev_attrs ev)"
    using assms(3) fixed by (simp_all add: clean_event_def clean_opt_or)
  then show ?thesis
    using fixed dur assms(2) unfolding executed_text_def
    by (cases "ev_attrs ev") (auto simp: styles_quiet coloured_quiet)
qed

lemma request_quiet:
  assumes "clean_params c P" "quiet c ansi" "clean_event c ev"
  shows "c \<notin> set (request_text P ev ansi)"
proof -
  have fixed: "c \<notin> set ''?''" "c \<notin> set ''-''" "c \<notin> set '' ''" "c \<notin> set REQUEST_MARK" "c \<notin> set ''35''" "c \<notin> set ''from ''"
    using assms(2) by (auto simp: quiet_def REQUEST_MARK_def)
  have dur: "c \<notin> set (duration_text P ev)"
    using duration_quiet[OF assms(1,2)] fixed by (auto simp: duration_text_def split: option.splits)
  have vals: "c \<notin> set (opt_or (ev_http_method ev) ''?'')" "c \<notin> set (opt_or (ev_http_route ev) ''?'')"
    "c \<notin> set (opt_or (ev_client_address ev) ''-'')"
    using assms(3) fixed by (simp_all add: clean_event_def clean_opt_or)
  have "c \<notin> set (case ev_http_status ev of Some k \<Rightarrow> show_nat k | None \<Rightarrow> ''?'')"
    using show_nat_quiet[OF assms(2)] fixed(1) by (cases "ev_http_status ev") simp_all
  then show ?thesis
    using fixed dur vals assms(2) unfolding request_text_def by (auto simp: styles_quiet coloured_quiet status_quiet)
qed

lemma generic_quiet:
  assumes "clean_params c P" "quiet c ansi" "clean_event c ev" "c \<notin> set msg"
  shows "c \<notin> set (generic_text P msg ev ansi)"
proof -
  have fixed: "c \<notin> set '' ''" "c \<notin> set ''=''" "c \<notin> set ''step''" "c \<notin> set ''type''" "c \<notin> set ''took''"
    using assms(2) by (auto simp: quiet_def)
  let ?free = "\<lambda>(k, v). c \<notin> set k \<and> c \<notin> set v"
  have "list_all ?free (case ev_step ev of Some s \<Rightarrow> [(''step'', s)] | None \<Rightarrow> [])"
    "list_all ?free (case ev_step_type ev of Some t \<Rightarrow> [(''type'', t)] | None \<Rightarrow> [])"
    using assms(3) fixed by (cases "ev_step ev"; cases "ev_step_type ev"; simp add: clean_event_def)+
  moreover have "list_all ?free (case ev_duration_ms ev of Some d \<Rightarrow> [(''took'', render_duration P d)] | None \<Rightarrow> [])"
    using fixed duration_quiet[OF assms(1,2)] by (cases "ev_duration_ms ev") simp_all
  moreover have "list_all ?free (filter (\<lambda>(k, _). k \<notin> set POSITIONAL_EVENT_FIELDS) (ev_extras ev))"
    using assms(3) by (auto simp: clean_event_def list_all_iff)
  ultimately have "list_all ?free (generic_fields P ev)" unfolding generic_fields_def by simp
  then have kv: "c \<notin> set (key_value ansi kv)" if "kv \<in> set (generic_fields P ev)" for kv
    using that fixed assms(2) by (auto simp: list_all_iff key_value_def styles_quiet)
  show ?thesis
    using assms(4) kv fixed by (cases "generic_fields P ev") (auto simp: generic_text_def)
qed

lemma write_event_quiet:
  assumes "clean_params c P" "quiet c ansi" "list_all (clean_field c) fs" "\<forall>(n, v) \<in> set (concat spans). c \<notin> set v"
  shows "\<exists>line. write_event P now l spans fs ansi = line @ [CHR 0x0A] \<and> c \<notin> set line"
proof -
  obtain tr project where rd: "read_span_fields spans = (tr, project)" by fastforce
  have tr: "c \<notin> set tr" "c \<notin> set project" using span_fields_clean[OF assms(4)] rd by simp_all
  define ev0 where "ev0 = fold (visit_field P) fs event_fields_default"
  define ev where "ev = (if ev_project ev0 = None \<and> project \<noteq> [] then ev0\<lparr>ev_project := Some project\<rparr> else ev0)"
  have "clean_event c ev0"
    unfolding ev0_def by (rule visit_all_clean[OF assms(1-3)]) (simp add: clean_event_def event_fields_default_def)
  then have ev: "clean_event c ev" using tr by (simp add: ev_def clean_event_def)
  let ?msg = "opt_or (ev_message ev) []"
  have msg: "c \<notin> set ?msg" using ev by (simp add: clean_event_def clean_opt_or)
  let ?body = "if ?msg = ''Executed'' then executed_text P ev ansi
       else if ?msg = ''http request completed'' then request_text P ev ansi else generic_text P ?msg ev ansi"
  have "c \<notin> set ?body"
    using executed_quiet[OF assms(1,2) ev] request_quiet[OF assms(1,2) ev] generic_quiet[OF assms(1,2) ev msg] by simp
  moreover have "c \<notin> set '' ''" using assms(2) by (auto simp: quiet_def)
  ultimately have "c \<notin> set (dim (render_timestamp (fst now) (snd now)) ansi @ '' '' @ level_label l ansi @ '' '' @ prefix_text tr ev ansi @ ?body)"
    using styles_quiet(1)[OF assms(2) timestamp_quiet[OF assms(2)]] level_quiet[OF assms(2)] prefix_quiet[OF assms(2) ev tr(1)] by auto
  then show ?thesis by (auto simp: write_event_def rd ev0_def ev_def Let_def)
qed

text \<open>What passed \<open>sanitize_log_value\<close> is clean.\<close>

lemma sanitized_one_line: "CHR 0x0A \<notin> set (sanitize_log_value s)"
  by (auto simp: sanitize_log_value_def is_line_break_def)

lemma join_with_lacks: "c \<notin> set sep \<Longrightarrow> \<forall>w \<in> set ws. c \<notin> set w \<Longrightarrow> c \<notin> set (join_with sep ws)"
  by (induction sep ws rule: join_with.induct) auto

text \<open>
  No value a step reports can splice a line into the log, whatever a client put into it; the printer only has to
  keep to its own promise for values that are no strings.
\<close>

lemma extras_one_line:
  assumes "\<And>v. CHR 0x0A \<notin> set (print_json v)" "\<forall>(k, _) \<in> set es. CHR 0x0A \<notin> set k"
  shows "clean_field (CHR 0x0A) (''attrs'', Str (extras_text print_json es))"
proof -
  have "CHR 0x0A \<notin> set (entry_text print_json x)" if "x \<in> set es" for x
    using that assms sanitized_one_line by (auto simp: entry_text_def split: prod.splits step_log_entry.splits json.splits)
  then show ?thesis by (simp add: clean_field_def extras_text_def join_with_lacks)
qed

text \<open>
  The generic shape forgets fields: a route, a client or a next step on an event with any other message is
  printed nowhere.
\<close>

lemma generic_forgets:
  "ev_message ev = Some ''probe failed'' \<Longrightarrow>
   generic_text P ''probe failed'' (ev\<lparr>ev_http_route := r, ev_client_address := a, ev_next_step := n, ev_attrs := t\<rparr>) ansi =
   generic_text P ''probe failed'' ev ansi"
  by (simp add: generic_text_def generic_fields_def)

section \<open>Properties\<close>

text \<open>
  An event is one line: when no text it carries has a line break, and the printer of doubles writes none, the
  formatter writes a single line break, at the end. And the text format is free of colour escapes when the event is.
\<close>

theorem event_is_one_line:
  assumes "clean_params (CHR 0x0A) P" "list_all (clean_field (CHR 0x0A)) fs" "\<forall>(n, v) \<in> set (concat spans). CHR 0x0A \<notin> set v"
  shows "(\<exists>line. write_event P now l spans fs ansi = line @ [CHR 0x0A] \<and> CHR 0x0A \<notin> set line) \<and>
    (clean_params (CHR 0x1B) P \<and> list_all (clean_field (CHR 0x1B)) fs \<and> (\<forall>(n, v) \<in> set (concat spans). CHR 0x1B \<notin> set v) \<longrightarrow>
       CHR 0x1B \<notin> set (write_event P now l spans fs False))"
proof
  show "\<exists>line. write_event P now l spans fs ansi = line @ [CHR 0x0A] \<and> CHR 0x0A \<notin> set line"
    using write_event_quiet[OF assms(1) _ assms(2,3)] by (simp add: quiet_def)
  have "quiet (CHR 0x1B) False" by (simp add: quiet_def)
  then show "clean_params (CHR 0x1B) P \<and> list_all (clean_field (CHR 0x1B)) fs \<and> (\<forall>(n, v) \<in> set (concat spans). CHR 0x1B \<notin> set v) \<longrightarrow>
       CHR 0x1B \<notin> set (write_event P now l spans fs False)"
    using write_event_quiet[of "CHR 0x1B" P False fs spans now l] by auto
qed

definition sample_fmt :: fmt_params where
  "sample_fmt = \<lparr>show_double = \<lambda>_. ''1'', debug_double = \<lambda>_. ''1.0'', show_fixed = \<lambda>_ _. ''1.0''\<rparr>"

theorem event_is_one_line_witness:
  "\<exists>line. write_event sample_fmt (0, 5) LevelInfo [[(''trace_id'', ''abc'')]] [(''message'', Str ''Executed''), (''dsl.step'', Str ''a'')] True = line @ [CHR 0x0A] \<and>
     CHR 0x0A \<notin> set line"
proof -
  have "clean_params (CHR 0x0A) sample_fmt" by (simp add: clean_params_def sample_fmt_def)
  moreover have "list_all (clean_field (CHR 0x0A)) [(''message'', Str ''Executed''), (''dsl.step'', Str ''a'')]"
    by (simp add: clean_field_def)
  ultimately show ?thesis
    using event_is_one_line[of sample_fmt _ "[[(''trace_id'', ''abc'')]]"] by simp
qed

text \<open>
  The span capture, without which the formatters see no trace id and no project, is installed ahead of every
  formatter that reads it, and an exporter that cannot be built leaves the local layers as they are.
\<close>

lemma capture_before_format:
  "\<exists>rest. fst (observability_init e f) = EnvFilterLayer (opt_or (env_rust_log e) ''info'') # format_layers (resolve_format (env_log_format e) f) @ rest \<and>
     (CompactFmt a \<in> set (fst (observability_init e f)) \<or> PrettyFmt \<in> set (fst (observability_init e f)) \<longrightarrow>
        fst (observability_init e f) ! 1 = SpanCapture) \<and> (rest = [] \<longleftrightarrow> \<not> snd (observability_init e f))"
  by (auto simp: observability_init_def Let_def format_layers_def split: option.splits log_format.splits)

end
