(* ===== verification/Spec2Isabelle.thy ===== *)
theory Spec2Isabelle
  imports Lint_Soundness Client_Setup Dsl_Test Doctor Quickjs Termination Flight_Laws Log_Format
begin

text \<open>
  Ruuter on Rust serves HTTP and WebSocket routes that are written as YAML files. A file is a DSL: an
  optional declaration (who may call it, with which fields) and a list of named steps. This development
  models the program from the text of a configuration file to the last step of a request and of a shutdown,
  and proves what a deployment relies on.

  \<^bold>\<open>How the parts work together.\<close> \<open>main.rs\<close> reads the configuration (\<open>config/mod.rs\<close>) and \<open>constants.ini\<close>, loads the
  tree of DSLs and guards (\<open>dsl/loader.rs\<close>, \<open>dsl/parser.rs\<close>, \<open>dsl/interpolate.rs\<close>), builds the stores shared by all
  requests, starts the sources and opens the listeners. A request goes to the router (\<open>router/mod.rs\<close>): it is
  screened (method, CSRF, If-Match, body limits), resolved to a DSL, checked against the declarations of the
  guards and of the DSL, and then the guards and the DSL run in the step engine (\<open>steps/engine.rs\<close>), or the
  request is streamed to another server (\<open>router/proxy.rs\<close>). Steps evaluate scripts (\<open>scripting/\<close>), call HTTP
  services (\<open>http_client/\<close>), read and write the state store (\<open>state/mod.rs\<close>), send on WebSocket connections
  (\<open>ws/mod.rs\<close>), call other DSLs, run once per key (\<open>single_flight\<close>) or go on after the reply (\<open>detach\<close>). A watcher
  reloads the tree (\<open>dsl/hot_reload.rs\<close>); supervised sources (\<open>sources/\<close>, \<open>supervisor/mod.rs\<close>) run trigger DSLs
  (\<open>triggers/mod.rs\<close>) on events. Beside the routes there are reports for operators, an OpenAPI document, and
  the linter \<open>dsl-lint\<close>, which reads the same files without running them.

  \<^bold>\<open>Theories and sources.\<close>
  \<^item> \<open>Ruuter_Prelude\<close>: JSON, numbers, strings, hash maps as association lists with their laws, results, machine
    words; the lemmas every component shares.
  \<^item> \<open>State_Store\<close> (\<open>state/mod.rs\<close>): the store as entries and per-project counters, one definition per operation.
  \<^item> \<open>Dsl_Types\<close> (\<open>steps/mod.rs\<close>, \<open>dsl/mod.rs\<close>), \<open>Declaration\<close> (\<open>dsl/mod.rs\<close>, \<open>router/mod.rs\<close>), \<open>Guards\<close>
    (\<open>dsl/guard_audit.rs\<close>), \<open>Routing\<close> (\<open>router/mod.rs\<close>): the data model, the contracts on a request, which guards
    protect a route, and how a URL finds a DSL.
  \<^item> \<open>Execution_Context\<close> (\<open>context/mod.rs\<close>), \<open>Js_Values\<close> and \<open>Scripting\<close> (\<open>scripting/mod.rs\<close>, \<open>scripting/boa.rs\<close>),
    \<open>Expr_Registry\<close> and \<open>Quickjs\<close> (\<open>scripting/registry.rs\<close>, \<open>scripting/quickjs.rs\<close>), \<open>Http_Client\<close>, \<open>Client_Setup\<close> and \<open>Uds_Transport\<close>
    (\<open>http_client/\<close>), \<open>Ws_Registry\<close> (\<open>ws/mod.rs\<close>), \<open>Flights\<close> (\<open>steps/single_flight.rs\<close>, \<open>steps/detach.rs\<close>): what steps
    work with.
  \<^item> \<open>Engine_State\<close>, \<open>Steps\<close>, \<open>Engine\<close> (\<open>steps/*.rs\<close>): the world of shared stores, one definition per step executor,
    the dispatch and the loop of a run. A computation takes a context and a world and returns a result, the
    new context and the new world, or \<open>None\<close> when its fuel ran out.
  \<^item> \<open>Engine_Frames\<close>, \<open>Engine_Laws\<close>, \<open>Guard_Enforcement\<close>, \<open>Flight_Laws\<close>, \<open>Termination\<close>: what every run leaves alone
    (locale \<open>world_relation\<close>, interpreted for the store of another project, the context and the invariants),
    that fuel does not matter, the specification of guard chains and that the engine refines it, the contract
    of \<open>single_flight\<close>, and when a run ends.
  \<^item> \<open>Inbound\<close>, \<open>Proxy\<close>, \<open>Request_Handler\<close>, \<open>Ws_Session\<close> (\<open>router/\<close>): the entry points, complete with their error
    replies, permits and registrations.
  \<^item> \<open>Interpolate\<close>, \<open>Dsl_Parser\<close>, \<open>Dsl_Loading\<close>, \<open>Hot_Reload\<close> (\<open>dsl/\<close>), \<open>App_Config\<close> (\<open>config/mod.rs\<close>), \<open>Boot\<close>
    (\<open>main.rs\<close>), \<open>App_Layers\<close> (\<open>router/mod.rs\<close>): from files to a running server, and its listeners until they have shut down.
  \<^item> \<open>Sources\<close>, \<open>Supervisor\<close> (\<open>sources/\<close>, \<open>triggers/mod.rs\<close>, \<open>supervisor/mod.rs\<close>): outbound connections and their
    watchdogs as step relations.
  \<^item> \<open>Admin\<close>, \<open>Openapi\<close>, \<open>Dsl_Audit\<close>, \<open>Dsl_Lint\<close>, \<open>Lint_Soundness\<close>, \<open>Log_Redaction\<close>, \<open>Log_Format\<close> (\<open>router/mod.rs\<close>, \<open>openapi.rs\<close>, \<open>dsl/audit.rs\<close>,
    \<open>bin/dsl_lint.rs\<close>, \<open>logging/\<close>, \<open>observability.rs\<close>): what the program says about itself. \<open>Doctor\<close> (\<open>bin/ruuter_doctor.rs\<close>), \<open>Test_Matcher\<close> and
    \<open>Dsl_Test\<close> (\<open>testkit/\<close>, \<open>bin/dsl_test.rs\<close>): the tools around it. \<open>Sample_System\<close> is the small deployment the
    witnesses run.

  \<^bold>\<open>What is shown.\<close>
  \<^item> Isolation: whatever requests run, a project sees only its own entries of the store; a run gives its
    caller's context back; connections, permits and tasks are released.
  \<^item> Invariants: every operation, every request, every reload and every sequence of them after a boot keeps
    the counters, caps, queues and registries of all stores right.
  \<^item> Access: a guard file protects its folder from the disk to the reply; guards decide requests, WebSocket
    upgrades, proxied routes and template calls as the specification says; internal DSLs are not reachable
    from outside; the client connects to public targets only. The reports agree with this: the route
    report, the OpenAPI document and \<open>dsl-lint --require-guard\<close> say what the router does.
  \<^item> Static checks: a DSL the linter has no error for never jumps to a step that does not exist, and a step it
    calls unreachable is dead code for the engine (\<open>Lint_Soundness\<close>; both with the exceptions the linter has).
  \<^item> Scripts: a value without expressions never reaches an engine, both backends walk values alike (locale
    \<open>script_runner\<close>), and a QuickJS session compiles each script of the tree once, before its first use.
  \<^item> Tools: a green test scenario means what its file says, the exit code of the test runner is its verdict,
    and the doctor's verdict on a configuration is the boot's.
  \<^item> Contracts: declarations reject or filter as declared; the longest prefix decides routing; replies over
    Unix sockets are read as over TCP; hop-by-hop headers are not forwarded; log lines are redacted,
    short, and one line each.
  \<^item> Progress: a run of DSLs that call each other without a cycle ends, a reload takes effect, a watchdog
    restarts its source, a listener that is told to stop comes to an end, the linter's walk ends.

  \<^bold>\<open>Fuel and bounds.\<close> The fuel of \<open>engine_run\<close> bounds how deep runs nest (templates, iterations, handlers); more fuel
  never changes an outcome, and for a tree whose calls have a rank, the rank plus one is enough
  (\<open>Termination\<close>). The loop of one run has the budget \<open>max_iterations\<close> of the source, not fuel. The linter's walk
  takes as fuel one more than the number of names a file mentions, which is always enough. Integers keep
  their width where it matters (statuses, counters, ports); lengths are natural numbers.

  \<^bold>\<open>Parameters.\<close> Code outside the repository is an argument of the definitions that use it: the JavaScript
  engines, the network, regular expressions, URL and IP parsing, the YAML reader and serde, the clock and the file system. Hypotheses
  on them are named in the theorems that need them, with a witness that satisfies them.

  \<^bold>\<open>Not modelled.\<close> Tasks that run at the same time are interleaved at the operations of the shared stores, not
  inside them; what the CORS and timeout layers do to a request is the
  library's; what the tools print, and the
  machinery of \<open>tracing\<close> and OpenTelemetry behind the formatter, is left out.
\<close>

end
